(* ===== verification/CPIP_Prelude.thy ===== *)
theory CPIP_Prelude
  imports Main "HOL-Library.AList" "HOL-Library.Word"
begin

text \<open>
  The vocabulary the component theories share: Go's times and durations, Go maps, decimal
  printing, and the generic lemmas on them.

  \<^item> A \<open>time.Time\<close> is the number of nanoseconds since Go's zero time, so that
    \<open>t.IsZero()\<close> is \<open>t = 0\<close>; a \<open>time.Duration\<close> is a number of nanoseconds.
    Both are integers: \<open>a.Sub(b)\<close> is \<open>a - b\<close> (Go saturates it only beyond 292 years).
    Every operation that reads the clock takes the reading as an argument.
  \<^item> A Go map is an association list with distinct keys (\<open>gm_wf\<close>). Assignment
    is \<^const>\<open>AList.update\<close>, \<open>delete\<close> is \<^const>\<open>AList.delete\<close>, a lookup
    with its comma-ok is \<^const>\<open>map_of\<close> and \<open>len\<close> is \<^const>\<open>length\<close>. The order of
    the list stands for the iteration order the runtime happens to pick: every property
    is stated for all association lists, hence for every iteration order.
  \<^item> A value of the empty interface type \<open>any\<close> is opaque.
\<close>

section \<open>Times, maps and opaque values\<close>

type_synonym time = int
type_synonym duration = int
type_synonym ('k, 'v) gomap = "('k \<times> 'v) list"

typedecl any

type_synonym metadata = "(string, any) gomap option" \<comment> \<open>\<open>map[string]any\<close>; \<open>None\<close> is nil\<close>

abbreviation (input) Nanosecond :: duration where "Nanosecond \<equiv> 1"
abbreviation (input) Millisecond :: duration where "Millisecond \<equiv> 1000000"
abbreviation (input) Second :: duration where "Second \<equiv> 1000000000"
abbreviation (input) Minute :: duration where "Minute \<equiv> 60000000000"

definition gm_wf :: "('k, 'v) gomap \<Rightarrow> bool" where
  "gm_wf m \<longleftrightarrow> distinct (map fst m)"

definition gm_has :: "('k, 'v) gomap \<Rightarrow> 'k \<Rightarrow> bool" where
  "gm_has m k \<longleftrightarrow> map_of m k \<noteq> None"

definition gm_count :: "('v \<Rightarrow> bool) \<Rightarrow> ('k, 'v) gomap \<Rightarrow> nat" where
  "gm_count P m = length (filter (\<lambda>(k, v). P v) m)"

named_theorems gomap_simps \<open>rewriting of Go-map operations\<close>

lemmas gomap_lookup [simp, gomap_simps] = update_conv' delete_conv'

lemma gm_wf_Nil [simp, intro!]: "gm_wf []"
  by (simp add: gm_wf_def)

lemma gm_wf_update [simp, intro]: "gm_wf m \<Longrightarrow> gm_wf (AList.update k v m)"
  by (simp add: gm_wf_def distinct_update)

lemma gm_wf_delete [simp, intro]: "gm_wf m \<Longrightarrow> gm_wf (AList.delete k m)"
  by (simp add: gm_wf_def distinct_delete)

lemma gm_wf_single [simp]: "gm_wf [(k, v)]"
  by (simp add: gm_wf_def)

lemma gm_has_iff: "gm_has m k \<longleftrightarrow> k \<in> fst ` set m"
  by (auto simp: gm_has_def map_of_eq_None_iff)

lemma gm_has_update [simp]: "gm_has (AList.update k v m) k' \<longleftrightarrow> k' = k \<or> gm_has m k'"
  by (auto simp: gm_has_def)

lemma gm_has_delete [simp]: "gm_has (AList.delete k m) k' \<longleftrightarrow> k' \<noteq> k \<and> gm_has m k'"
  by (auto simp: gm_has_def)

lemma gm_length_update:
  "length (AList.update k v m) = (if gm_has m k then length m else Suc (length m))"
  by (induction m) (auto simp: gm_has_def)

lemma gm_length_delete:
  "gm_wf m \<Longrightarrow> length (AList.delete k m) = (if gm_has m k then length m - 1 else length m)"
proof (induction m)
  case Nil
  then show ?case by (simp add: gm_has_def)
next
  case (Cons p m)
  then have wf: "gm_wf m" and fresh: "fst p \<notin> fst ` set m"
    by (auto simp: gm_wf_def)
  show ?case
  proof (cases "fst p = k")
    case True
    with fresh have "AList.delete k m = m" by simp
    with True show ?thesis by (cases p) (simp add: gm_has_def)
  next
    case False
    with Cons.IH [OF wf] show ?thesis
      by (cases p, cases m) (auto simp: gm_has_def)
  qed
qed

lemma gm_wf_map_of_eq: "gm_wf m \<Longrightarrow> map_of m k = Some v \<longleftrightarrow> (k, v) \<in> set m"
  by (simp add: gm_wf_def)

lemma gm_count_le: "gm_count P m \<le> length m"
  by (simp add: gm_count_def)

lemma gm_count_0_iff: "gm_count P m = 0 \<longleftrightarrow> (\<forall>(k, v) \<in> set m. \<not> P v)"
  by (auto simp: gm_count_def filter_empty_conv)

lemma gm_count_0_wf: "gm_wf m \<Longrightarrow> gm_count P m = 0 \<longleftrightarrow> (\<forall>k v. map_of m k = Some v \<longrightarrow> \<not> P v)"
  by (auto simp: gm_count_0_iff gm_wf_map_of_eq)

lemma gm_count_pos: "map_of m k = Some v \<Longrightarrow> P v \<Longrightarrow> 0 < gm_count P m"
  using map_of_SomeD [of m k v] gm_count_0_iff [of P m] by fastforce

lemma gm_count_card: "gm_wf m \<Longrightarrow> gm_count P m = card {k. \<exists>v. map_of m k = Some v \<and> P v}"
proof -
  assume wf: "gm_wf m"
  have "gm_count P m = card (set (map fst (filter (\<lambda>(k, v). P v) m)))"
    using wf by (subst distinct_card) (auto simp: gm_count_def gm_wf_def distinct_map_filter)
  also have "set (map fst (filter (\<lambda>(k, v). P v) m)) = {k. \<exists>v. map_of m k = Some v \<and> P v}"
    using wf by (force simp: gm_wf_map_of_eq)
  finally show ?thesis .
qed

lemma sorted_le_last: "sorted xs \<Longrightarrow> x \<in> set xs \<Longrightarrow> x \<le> last xs"
  by (induction xs) auto

section \<open>Decimal printing\<close>

text \<open>\<open>%d\<close> of \<open>fmt.Sprintf\<close>.\<close>

fun dec_nat :: "nat \<Rightarrow> string" where
  "dec_nat n = (if n < 10 then [char_of (48 + n)] else dec_nat (n div 10) @ [char_of (48 + n mod 10)])"

declare dec_nat.simps [simp del]

definition dec_int :: "int \<Rightarrow> string" where
  "dec_int i = (if i < 0 then CHR ''-'' # dec_nat (nat (- i)) else dec_nat (nat i))"

section \<open>Wrap-around of int64\<close>

definition wrap64 :: "int \<Rightarrow> int" where
  "wrap64 x = sint (word_of_int x :: 64 word)"

lemma wrap64_small: "- (2 ^ 63) \<le> x \<Longrightarrow> x < 2 ^ 63 \<Longrightarrow> wrap64 x = x"
  using signed_take_bit_int_eq_self [of 63 x] by (simp add: wrap64_def sint_sbintrunc')

section \<open>Sums as Go's (value, error) results\<close>

text \<open>A Go result \<open>(T, error)\<close> is \<open>'e + 'a\<close>: \<^const>\<open>Inl\<close> for a non-nil error.\<close>

lemma case_sum_Inl_iff [simp]:
  "(case r of Inl e \<Rightarrow> Inl e | Inr x \<Rightarrow> f x) = Inr y \<longleftrightarrow> (\<exists>x. r = Inr x \<and> f x = Inr y)"
  by (cases r) auto

lemma if_Inl_eq_Inr [simp]: "(if b then Inl e else r) = Inr y \<longleftrightarrow> \<not> b \<and> r = Inr y"
  by simp

end
