(* ===== verification/Room_Lifecycle.thy ===== *)
theory Room_Lifecycle
  imports CPIP_Prelude
begin

text \<open>
  The room state machine of \<open>src/internal/rooms/lifecycle\<close>: the states, the adjacency
  map of legal transitions and the stateless \<open>Machine\<close> that validates a transition.
  The lemmas characterise the graph: what leads to a close, what leads out of it, and how
  the states are ordered towards destruction.
\<close>

section \<open>States\<close>

text \<open>\<open>State\<close> is an \<open>int32\<close>; \<open>StateOther\<close> carries any value outside the constants.\<close>

datatype room_state =
    StateCreated | StateWaiting | StateActive | StateIdle | StateExpiring
  | StateClosed | StateDestroyed | StateOther "32 word"

fun room_state_String :: "room_state \<Rightarrow> string" where
  "room_state_String StateCreated = ''created''"
| "room_state_String StateWaiting = ''waiting''"
| "room_state_String StateActive = ''active''"
| "room_state_String StateIdle = ''idle''"
| "room_state_String StateExpiring = ''expiring''"
| "room_state_String StateClosed = ''closed''"
| "room_state_String StateDestroyed = ''destroyed''"
| "room_state_String (StateOther n) = ''state('' @ dec_int (sint n) @ '')''"

definition room_state_IsTerminal :: "room_state \<Rightarrow> bool" where
  "room_state_IsTerminal s \<longleftrightarrow> s = StateDestroyed"

fun room_state_Valid :: "room_state \<Rightarrow> bool" where
  "room_state_Valid (StateOther n) = False"
| "room_state_Valid s = True"

section \<open>The transition graph\<close>

definition room_transitions :: "(room_state, room_state list) gomap" where
  "room_transitions =
    [(StateCreated, [StateWaiting, StateActive, StateClosed]),
     (StateWaiting, [StateActive, StateExpiring, StateClosed]),
     (StateActive, [StateWaiting, StateIdle, StateClosed]),
     (StateIdle, [StateActive, StateWaiting, StateExpiring, StateClosed]),
     (StateExpiring, [StateActive, StateClosed]),
     (StateClosed, [StateDestroyed]),
     (StateDestroyed, [])]"

definition room_CanTransition :: "room_state \<Rightarrow> room_state \<Rightarrow> bool" where
  "room_CanTransition from to =
    (if from = to then True
     else case map_of room_transitions from of
            None \<Rightarrow> False
          | Some nxt \<Rightarrow> to \<in> set nxt)"

text \<open>The error of \<open>Validate\<close>: the flag is the \<open>(unknown state)\<close> suffix of the message.\<close>

datatype lifecycle_error = ErrInvalidTransition room_state room_state bool

definition room_Validate :: "room_state \<Rightarrow> room_state \<Rightarrow> lifecycle_error option" where
  "room_Validate from to =
    (if \<not> room_state_Valid from \<or> \<not> room_state_Valid to
     then Some (ErrInvalidTransition from to True)
     else if \<not> room_CanTransition from to
     then Some (ErrInvalidTransition from to False)
     else None)"

definition room_Next :: "room_state \<Rightarrow> room_state list" where
  "room_Next from = (case map_of room_transitions from of None \<Rightarrow> [] | Some nxt \<Rightarrow> nxt)"

section \<open>The graph, characterised\<close>

lemma room_Validate_None_iff:
  "room_Validate a b = None \<longleftrightarrow> room_state_Valid a \<and> room_state_Valid b \<and> (a = b \<or> b \<in> set (room_Next a))"
  by (auto simp: room_Validate_def room_CanTransition_def room_Next_def split: option.splits if_splits)

lemma room_Next_simps [simp]:
  "room_Next StateCreated = [StateWaiting, StateActive, StateClosed]"
  "room_Next StateWaiting = [StateActive, StateExpiring, StateClosed]"
  "room_Next StateActive = [StateWaiting, StateIdle, StateClosed]"
  "room_Next StateIdle = [StateActive, StateWaiting, StateExpiring, StateClosed]"
  "room_Next StateExpiring = [StateActive, StateClosed]"
  "room_Next StateClosed = [StateDestroyed]"
  "room_Next StateDestroyed = []"
  "room_Next (StateOther n) = []"
  by (simp_all add: room_Next_def room_transitions_def)

lemma room_CanTransition_iff: "room_CanTransition a b \<longleftrightarrow> a = b \<or> b \<in> set (room_Next a)"
  by (auto simp: room_CanTransition_def room_Next_def split: option.splits)

text \<open>\<open>live\<close>: the states in which a room still serves members.\<close>

definition room_state_live :: "room_state \<Rightarrow> bool" where
  "room_state_live s \<longleftrightarrow> room_state_Valid s \<and> s \<noteq> StateClosed \<and> s \<noteq> StateDestroyed"

lemma room_CanTransition_Active:
  "room_state_live s \<Longrightarrow> room_CanTransition s StateActive"
  by (cases s) (auto simp: room_state_live_def room_CanTransition_iff)

lemma room_CanTransition_Active_iff [simp]:
  "room_CanTransition s StateActive \<longleftrightarrow> room_state_live s"
  by (cases s) (auto simp: room_state_live_def room_CanTransition_iff)

lemma room_closed_not_live [simp]:
  "\<not> room_state_live StateClosed" "\<not> room_state_live StateDestroyed" "\<not> room_state_live (StateOther n)"
  by (simp_all add: room_state_live_def)

lemma room_live_simps [simp]:
  "room_state_live StateCreated" "room_state_live StateWaiting" "room_state_live StateActive"
  "room_state_live StateIdle" "room_state_live StateExpiring"
  by (simp_all add: room_state_live_def)

text \<open>Along a legal step a room never becomes live again.\<close>

lemma room_Validate_live_back:
  "room_Validate a b = None \<Longrightarrow> room_state_live b \<Longrightarrow> room_state_live a"
  by (cases a) (auto simp: room_Validate_None_iff)

inductive room_path :: "room_state \<Rightarrow> room_state \<Rightarrow> bool" where
  path_refl: "room_path s s"
| path_step: "room_path a b \<Longrightarrow> room_Validate b c = None \<Longrightarrow> room_path a c"

lemma room_path_live_back: "room_path a b \<Longrightarrow> room_state_live b \<Longrightarrow> room_state_live a"
  by (induction rule: room_path.induct) (auto dest: room_Validate_live_back)

lemma room_path_trans: "room_path b c \<Longrightarrow> room_path a b \<Longrightarrow> room_path a c"
  by (induction rule: room_path.induct) (auto intro: room_path.intros)

lemma room_path_closed: "room_path a b \<Longrightarrow> a = StateClosed \<Longrightarrow> b = StateClosed \<or> b = StateDestroyed"
  by (induction rule: room_path.induct) (auto simp: room_Validate_None_iff)

lemma room_path_destroyed: "room_path a b \<Longrightarrow> a = StateDestroyed \<Longrightarrow> b = StateDestroyed"
  by (induction rule: room_path.induct) (auto simp: room_Validate_None_iff)

lemma room_Validate_Destroyed:
  "room_Validate a StateDestroyed = None \<Longrightarrow> a = StateClosed \<or> a = StateDestroyed"
  by (cases a) (auto simp: room_Validate_None_iff)

text \<open>Every valid state reaches \<open>Destroyed\<close>: nothing in the graph is a trap.\<close>

lemma room_Validate_Closed: "room_state_live a \<Longrightarrow> room_Validate a StateClosed = None"
  by (cases a) (auto simp: room_Validate_None_iff)

lemma room_path_to_destroyed: "room_state_Valid a \<Longrightarrow> room_path a StateDestroyed"
proof -
  assume valid: "room_state_Valid a"
  have "room_path a StateClosed \<or> a = StateDestroyed"
  proof (cases "room_state_live a")
    case True
    then show ?thesis
      by (auto intro: path_step [OF path_refl] room_Validate_Closed)
  next
    case False
    with valid show ?thesis by (cases a) (auto intro: path_refl)
  qed
  then show ?thesis
    by (auto intro: path_refl elim!: path_step simp: room_Validate_None_iff)
qed

lemma room_state_String_valid_inj:
  "room_state_Valid a \<Longrightarrow> room_state_Valid b \<Longrightarrow> room_state_String a = room_state_String b \<Longrightarrow> a = b"
  by (cases a; cases b) simp_all

text \<open>
  C1. Closing is final in the lifecycle graph. A sequence of transitions that the machine
  validates never leads from \<open>Closed\<close> or \<open>Destroyed\<close> back to a state that serves
  members; only \<open>Closed\<close> reaches \<open>Destroyed\<close>; \<open>Destroyed\<close> is a sink; and every
  valid state can still be destroyed.
\<close>

theorem room_lifecycle_closing_is_final:
  "(room_path StateClosed s \<longrightarrow> s = StateClosed \<or> s = StateDestroyed)
   \<and> (room_path StateDestroyed s \<longrightarrow> s = StateDestroyed)
   \<and> (room_Validate s StateDestroyed = None \<longrightarrow> s = StateClosed \<or> s = StateDestroyed)
   \<and> (room_state_Valid s \<longrightarrow> room_path s StateDestroyed)"
  by (blast dest: room_path_closed room_path_destroyed room_Validate_Destroyed
      intro: room_path_to_destroyed)

theorem room_lifecycle_closing_is_final_witness:
  "room_path StateClosed StateDestroyed \<and> room_path StateWaiting StateDestroyed
   \<and> \<not> room_path StateClosed StateActive"
proof -
  have "room_path StateClosed StateDestroyed" "room_path StateWaiting StateDestroyed"
    using room_lifecycle_closing_is_final [of StateClosed]
      room_lifecycle_closing_is_final [of StateWaiting] by simp_all
  moreover have "\<not> room_path StateClosed StateActive"
    using room_lifecycle_closing_is_final [of StateActive] by auto
  ultimately show ?thesis by blast
qed

end
