(* ===== verification/Room_Permissions.thy ===== *)
theory Room_Permissions
  imports CPIP_Prelude
begin

text \<open>
  The authorization model of \<open>src/internal/rooms/permissions\<close>: roles ordered by rank,
  actions, and immutable policies that map an action to the least role that may perform it.
\<close>

section \<open>Roles and actions\<close>

text \<open>\<open>Role\<close> and \<open>Action\<close> are \<open>uint8\<close>; the last constructor carries values outside the constants.\<close>

datatype role =
    RoleObserver | RoleParticipant | RoleModerator | RoleOwner | RoleAdministrator
  | RoleOther "8 word"

fun role_rank :: "role \<Rightarrow> nat" where
  "role_rank RoleObserver = 1"
| "role_rank RoleParticipant = 2"
| "role_rank RoleModerator = 3"
| "role_rank RoleOwner = 4"
| "role_rank RoleAdministrator = 5"
| "role_rank (RoleOther n) = 0"

definition role_AtLeast :: "role \<Rightarrow> role \<Rightarrow> bool" where
  "role_AtLeast r other \<longleftrightarrow> role_rank r \<ge> role_rank other"

definition role_Valid :: "role \<Rightarrow> bool" where
  "role_Valid r \<longleftrightarrow> role_rank r \<noteq> 0"

fun role_String :: "role \<Rightarrow> string" where
  "role_String RoleObserver = ''observer''"
| "role_String RoleParticipant = ''participant''"
| "role_String RoleModerator = ''moderator''"
| "role_String RoleOwner = ''owner''"
| "role_String RoleAdministrator = ''administrator''"
| "role_String (RoleOther n) = ''role('' @ dec_nat (unat n) @ '')''"

datatype action =
    ActionObserve | ActionJoin | ActionLeave | ActionKick | ActionTransferOwnership
  | ActionCloseRoom | ActionModifySettings | ActionOther "8 word"

fun action_String :: "action \<Rightarrow> string" where
  "action_String ActionObserve = ''observe''"
| "action_String ActionJoin = ''join''"
| "action_String ActionLeave = ''leave''"
| "action_String ActionKick = ''kick''"
| "action_String ActionTransferOwnership = ''transfer_ownership''"
| "action_String ActionCloseRoom = ''close_room''"
| "action_String ActionModifySettings = ''modify_settings''"
| "action_String (ActionOther n) = ''action('' @ dec_nat (unat n) @ '')''"

section \<open>Policies\<close>

text \<open>A nil map and an empty one answer every lookup alike; both are the empty list.\<close>

record policy =
  pol_min :: "(action, role) gomap"

definition policy_Default :: policy where
  "policy_Default = \<lparr>pol_min =
    [(ActionObserve, RoleObserver),
     (ActionJoin, RoleObserver),
     (ActionLeave, RoleObserver),
     (ActionKick, RoleModerator),
     (ActionTransferOwnership, RoleOwner),
     (ActionCloseRoom, RoleOwner),
     (ActionModifySettings, RoleOwner)]\<rparr>"

definition policy_With :: "policy \<Rightarrow> action \<Rightarrow> role \<Rightarrow> policy" where
  "policy_With p act mn = \<lparr>pol_min = AList.update act mn (pol_min p)\<rparr>"

definition policy_Requirement :: "policy \<Rightarrow> action \<Rightarrow> role" where
  "policy_Requirement p act =
    (case map_of (pol_min p) act of Some r \<Rightarrow> r | None \<Rightarrow> RoleAdministrator)"

definition policy_Allows :: "policy \<Rightarrow> role \<Rightarrow> action \<Rightarrow> bool" where
  "policy_Allows p r act \<longleftrightarrow> role_AtLeast r (policy_Requirement p act)"

text \<open>The error carries the action, the required role and the role held.\<close>

datatype permission_error = ErrPermissionDenied action role role

definition policy_Require :: "policy \<Rightarrow> role \<Rightarrow> action \<Rightarrow> permission_error option" where
  "policy_Require p r act =
    (if policy_Allows p r act then None
     else Some (ErrPermissionDenied act (policy_Requirement p act) r))"

section \<open>Authority is monotone and policies fail closed\<close>

lemma role_AtLeast_refl [simp]: "role_AtLeast r r"
  by (simp add: role_AtLeast_def)

lemma role_AtLeast_trans: "role_AtLeast a b \<Longrightarrow> role_AtLeast b c \<Longrightarrow> role_AtLeast a c"
  by (simp add: role_AtLeast_def)

lemma role_AtLeast_total: "role_AtLeast a b \<or> role_AtLeast b a"
  by (auto simp: role_AtLeast_def)

lemma role_rank_le_5: "role_rank r \<le> 5"
  by (cases r) simp_all

lemma role_AtLeast_admin_iff [simp]: "role_AtLeast r RoleAdministrator \<longleftrightarrow> r = RoleAdministrator"
  by (cases r) (simp_all add: role_AtLeast_def)

lemma role_admin_AtLeast [simp]: "role_AtLeast RoleAdministrator r"
  using role_rank_le_5 [of r] by (simp add: role_AtLeast_def)

lemma role_AtLeast_valid: "role_AtLeast r r' \<Longrightarrow> role_Valid r' \<Longrightarrow> role_Valid r"
  by (simp add: role_AtLeast_def role_Valid_def)

lemma role_rank_inj_valid: "role_Valid a \<Longrightarrow> role_rank a = role_rank b \<Longrightarrow> a = b"
  by (cases a; cases b) (simp_all add: role_Valid_def)

lemma role_Valid_simps [simp]:
  "role_Valid RoleObserver" "role_Valid RoleParticipant" "role_Valid RoleModerator"
  "role_Valid RoleOwner" "role_Valid RoleAdministrator" "\<not> role_Valid (RoleOther n)"
  by (simp_all add: role_Valid_def)

lemma policy_Require_None_iff [simp]: "policy_Require p r a = None \<longleftrightarrow> policy_Allows p r a"
  by (simp add: policy_Require_def)

lemma policy_Requirement_With:
  "policy_Requirement (policy_With p a r) b = (if b = a then r else policy_Requirement p b)"
  by (simp add: policy_Requirement_def policy_With_def)

lemma policy_Requirement_unset: "\<not> gm_has (pol_min p) a \<Longrightarrow> policy_Requirement p a = RoleAdministrator"
  by (simp add: gm_has_def policy_Requirement_def)

lemma policy_Allows_mono: "policy_Allows p r a \<Longrightarrow> role_AtLeast r' r \<Longrightarrow> policy_Allows p r' a"
  unfolding policy_Allows_def by (rule role_AtLeast_trans)

lemma policy_Default_Requirement [simp]:
  "policy_Requirement policy_Default ActionObserve = RoleObserver"
  "policy_Requirement policy_Default ActionJoin = RoleObserver"
  "policy_Requirement policy_Default ActionLeave = RoleObserver"
  "policy_Requirement policy_Default ActionKick = RoleModerator"
  "policy_Requirement policy_Default ActionTransferOwnership = RoleOwner"
  "policy_Requirement policy_Default ActionCloseRoom = RoleOwner"
  "policy_Requirement policy_Default ActionModifySettings = RoleOwner"
  "policy_Requirement policy_Default (ActionOther n) = RoleAdministrator"
  by (simp_all add: policy_Requirement_def policy_Default_def)

text \<open>
  Authority is monotone under every policy (a role of at least the same rank may do
  whatever a role may do), an action without a requirement is reserved to the administrator
  (fail closed), specialising a policy with \<open>With\<close> changes exactly the requirement of
  its action, and as long as the requirement of an action is a known role no unknown role
  passes the check.
\<close>

lemma policy_monotone_and_fail_closed:
  "(policy_Allows p r a \<longrightarrow> role_AtLeast r' r \<longrightarrow> policy_Allows p r' a)
   \<and> (\<not> gm_has (pol_min p) a \<longrightarrow> (policy_Allows p r a \<longleftrightarrow> r = RoleAdministrator))
   \<and> (policy_Allows (policy_With p a m) r b
        \<longleftrightarrow> (if b = a then role_AtLeast r m else policy_Allows p r b))
   \<and> (role_Valid (policy_Requirement p a) \<longrightarrow> policy_Allows p r a \<longrightarrow> role_Valid r)"
proof (intro conjI impI)
  show "policy_Allows p r' a" if "policy_Allows p r a" "role_AtLeast r' r"
    using that by (rule policy_Allows_mono)
  show "policy_Allows p r a \<longleftrightarrow> r = RoleAdministrator" if "\<not> gm_has (pol_min p) a"
    using that by (simp add: policy_Allows_def policy_Requirement_unset)
  show "policy_Allows (policy_With p a m) r b
      \<longleftrightarrow> (if b = a then role_AtLeast r m else policy_Allows p r b)"
    by (simp add: policy_Allows_def policy_Requirement_With)
  show "role_Valid r" if "role_Valid (policy_Requirement p a)" "policy_Allows p r a"
    using that role_AtLeast_valid by (simp add: policy_Allows_def)
qed

lemma policy_monotone_and_fail_closed_example:
  "policy_Allows policy_Default RoleOwner ActionKick
   \<and> \<not> policy_Allows policy_Default RoleOwner (ActionOther 9)
   \<and> policy_Allows (policy_With policy_Default ActionKick RoleOwner) RoleOwner ActionKick
   \<and> \<not> policy_Allows policy_Default (RoleOther 7) ActionJoin"
proof (intro conjI)
  have "policy_Allows policy_Default RoleModerator ActionKick"
    by (simp add: policy_Allows_def)
  moreover have "role_AtLeast RoleOwner RoleModerator" by (simp add: role_AtLeast_def)
  ultimately show "policy_Allows policy_Default RoleOwner ActionKick"
    using policy_monotone_and_fail_closed [THEN conjunct1] by blast
  have "\<not> gm_has (pol_min policy_Default) (ActionOther 9)"
    by (simp add: gm_has_def policy_Default_def)
  then show "\<not> policy_Allows policy_Default RoleOwner (ActionOther 9)"
    using policy_monotone_and_fail_closed [THEN conjunct2, THEN conjunct1] by blast
  show "policy_Allows (policy_With policy_Default ActionKick RoleOwner) RoleOwner ActionKick"
    by (simp add: policy_monotone_and_fail_closed [THEN conjunct2, THEN conjunct2, THEN conjunct1])
  have "role_Valid (policy_Requirement policy_Default ActionJoin)" by simp
  then show "\<not> policy_Allows policy_Default (RoleOther 7) ActionJoin"
    using policy_monotone_and_fail_closed [THEN conjunct2, THEN conjunct2, THEN conjunct2]
      role_Valid_simps(6) by blast
qed

end
