(* ===== verification/Room_Entity.thy ===== *)
theory Room_Entity
  imports Room_Lifecycle Room_Permissions
begin

text \<open>
  The \<open>Room\<close> entity of \<open>src/internal/rooms/room\<close>. Every exported method runs as one
  critical section under the room's own mutex, so each is one function on the room record.
  A method that fails leaves the room as it was: its model returns \<^const>\<open>Inl\<close> of the
  error and no room. Copies handed to callers (\<open>clone\<close>) are values here.
\<close>

section \<open>State\<close>

datatype visibility = VisibilityPrivate | VisibilityPublic | VisibilityOther "8 word"

fun visibility_String :: "visibility \<Rightarrow> string" where
  "visibility_String v = (if v = VisibilityPublic then ''public'' else ''private'')"

record room_config =
  MaxParticipants :: int
  IdleTimeout :: duration
  ExpireTimeout :: duration
  RecoveryTimeout :: duration
  Visibility :: visibility

record participant =
  p_UserID :: string
  p_Role :: role
  p_SessionID :: string
  p_ConnID :: string
  p_JoinedAt :: time
  p_LastSeen :: time
  p_Connected :: bool
  p_Metadata :: metadata

text \<open>The zero value Go returns beside \<open>false\<close>.\<close>

definition zero_participant :: participant where
  "zero_participant = \<lparr>p_UserID = '''', p_Role = RoleObserver, p_SessionID = '''', p_ConnID = '''',
     p_JoinedAt = 0, p_LastSeen = 0, p_Connected = False, p_Metadata = None\<rparr>"

record room =
  r_id :: string
  r_name :: string
  r_ownerID :: string
  r_state :: room_state
  r_createdAt :: time
  r_lastActivity :: time
  r_participants :: "(string, participant) gomap"
  r_policy :: policy
  r_cfg :: room_config
  r_metadata :: metadata
  r_document :: "any option"
  r_presence :: "any option"
  r_execution :: "any option"

record room_params =
  rp_ID :: string
  rp_Name :: string
  rp_OwnerID :: string
  rp_Config :: room_config
  rp_Policy :: policy
  rp_Metadata :: metadata
  rp_OwnerSessionID :: string
  rp_OwnerConnID :: string
  rp_Now :: time

text \<open>The errors of the packages room, lifecycle, permissions and registry.\<close>

datatype room_error =
    ErrRoomClosed | ErrRoomFull | ErrDuplicateParticipant | ErrParticipantNotFound
  | ErrNotAParticipant | ErrCannotRemoveOwner | ErrInvalidRole | ErrAlreadyOwner
  | ErrRoomNotFound | ErrRoomExists
  | ErrLifecycle lifecycle_error | ErrPermission permission_error

definition room_New :: "room_params \<Rightarrow> room" where
  "room_New p =
    (let owner = \<lparr>p_UserID = rp_OwnerID p, p_Role = RoleOwner, p_SessionID = rp_OwnerSessionID p,
           p_ConnID = rp_OwnerConnID p, p_JoinedAt = rp_Now p, p_LastSeen = rp_Now p,
           p_Connected = (rp_OwnerConnID p \<noteq> ''''), p_Metadata = None\<rparr>
     in \<lparr>r_id = rp_ID p, r_name = rp_Name p, r_ownerID = rp_OwnerID p, r_state = StateCreated,
         r_createdAt = rp_Now p, r_lastActivity = rp_Now p,
         r_participants = [(rp_OwnerID p, owner)], r_policy = rp_Policy p, r_cfg = rp_Config p,
         r_metadata = rp_Metadata p, r_document = None, r_presence = None, r_execution = None\<rparr>)"

section \<open>Reads\<close>

definition room_connectedCount :: "room \<Rightarrow> nat" where
  "room_connectedCount r = gm_count p_Connected (r_participants r)"

definition room_ParticipantCount :: "room \<Rightarrow> nat" where
  "room_ParticipantCount r = length (r_participants r)"

definition room_Participant :: "room \<Rightarrow> string \<Rightarrow> participant \<times> bool" where
  "room_Participant r userID =
    (case map_of (r_participants r) userID of
       None \<Rightarrow> (zero_participant, False)
     | Some p \<Rightarrow> (p, True))"

definition room_Participants :: "room \<Rightarrow> participant list" where
  "room_Participants r = map snd (r_participants r)"

record room_view =
  v_ID :: string
  v_Name :: string
  v_OwnerID :: string
  v_State :: room_state
  v_CreatedAt :: time
  v_LastActivity :: time
  v_Participants :: "participant list"
  v_Config :: room_config
  v_Metadata :: metadata

definition room_View :: "room \<Rightarrow> room_view" where
  "room_View r = \<lparr>v_ID = r_id r, v_Name = r_name r, v_OwnerID = r_ownerID r, v_State = r_state r,
     v_CreatedAt = r_createdAt r, v_LastActivity = r_lastActivity r,
     v_Participants = map snd (r_participants r), v_Config = r_cfg r, v_Metadata = r_metadata r\<rparr>"

definition view_ConnectedCount :: "room_view \<Rightarrow> nat" where
  "view_ConnectedCount v = length (filter p_Connected (v_Participants v))"

definition room_authorize :: "room \<Rightarrow> string \<Rightarrow> action \<Rightarrow> room_error option" where
  "room_authorize r actorID act =
    (case map_of (r_participants r) actorID of
       None \<Rightarrow> Some ErrNotAParticipant
     | Some actor \<Rightarrow> map_option ErrPermission (policy_Require (r_policy r) (p_Role actor) act))"

section \<open>Mutations\<close>

definition room_transition :: "room_state \<Rightarrow> time \<Rightarrow> room \<Rightarrow> room_error + room" where
  "room_transition to now r =
    (case room_Validate (r_state r) to of
       Some e \<Rightarrow> Inl (ErrLifecycle e)
     | None \<Rightarrow>
         if r_state r = to then Inr r
         else let r' = r\<lparr>r_state := to\<rparr>
              in Inr (if to = StateActive then r'\<lparr>r_lastActivity := now\<rparr> else r'))"

definition room_driveActive :: "time \<Rightarrow> room \<Rightarrow> room \<times> bool" where
  "room_driveActive now r =
    (if r_state r = StateActive then (r, False)
     else if room_CanTransition (r_state r) StateActive
     then (r\<lparr>r_state := StateActive, r_lastActivity := now\<rparr>, True)
     else (r, False))"

record join_request =
  jq_UserID :: string
  jq_Role :: role
  jq_SessionID :: string
  jq_ConnID :: string
  jq_Metadata :: metadata

record join_result =
  jr_Participant :: participant
  jr_Reconnected :: bool
  jr_StateChanged :: bool
  jr_PreviousState :: room_state
  jr_NewState :: room_state

definition room_Join :: "join_request \<Rightarrow> time \<Rightarrow> room \<Rightarrow> room_error + room \<times> join_result" where
  "room_Join req now r =
    (if \<not> role_Valid (jq_Role req) then Inl ErrInvalidRole
     else if r_state r = StateClosed \<or> r_state r = StateDestroyed then Inl ErrRoomClosed
     else let prev = r_state r in
       case map_of (r_participants r) (jq_UserID req) of
         Some existing \<Rightarrow>
           if p_Connected existing then Inl ErrDuplicateParticipant
           else
             let p = existing\<lparr>p_Connected := True, p_SessionID := jq_SessionID req,
                       p_ConnID := jq_ConnID req, p_LastSeen := now\<rparr>;
                 p = (if jq_Metadata req \<noteq> None then p\<lparr>p_Metadata := jq_Metadata req\<rparr> else p);
                 (r', changed) = room_driveActive now
                   (r\<lparr>r_participants := AList.update (jq_UserID req) p (r_participants r),
                      r_lastActivity := now\<rparr>)
             in Inr (r', \<lparr>jr_Participant = p, jr_Reconnected = True, jr_StateChanged = changed,
                          jr_PreviousState = prev, jr_NewState = r_state r'\<rparr>)
       | None \<Rightarrow>
           if MaxParticipants (r_cfg r) > 0
              \<and> int (length (r_participants r)) \<ge> MaxParticipants (r_cfg r)
           then Inl ErrRoomFull
           else
             let p = \<lparr>p_UserID = jq_UserID req, p_Role = jq_Role req, p_SessionID = jq_SessionID req,
                       p_ConnID = jq_ConnID req, p_JoinedAt = now, p_LastSeen = now,
                       p_Connected = True, p_Metadata = jq_Metadata req\<rparr>;
                 (r', changed) = room_driveActive now
                   (r\<lparr>r_participants := AList.update (jq_UserID req) p (r_participants r),
                      r_lastActivity := now\<rparr>)
             in Inr (r', \<lparr>jr_Participant = p, jr_Reconnected = False, jr_StateChanged = changed,
                          jr_PreviousState = prev, jr_NewState = r_state r'\<rparr>))"

record leave_result =
  lr_Participant :: participant
  lr_OwnerLeft :: bool
  lr_Empty :: bool
  lr_StateChanged :: bool
  lr_PreviousState :: room_state
  lr_NewState :: room_state

definition room_remove :: "string \<Rightarrow> time \<Rightarrow> room \<Rightarrow> room_error + room \<times> leave_result" where
  "room_remove userID now r =
    (case map_of (r_participants r) userID of
       None \<Rightarrow> Inl ErrParticipantNotFound
     | Some p \<Rightarrow>
         let prev = r_state r;
             r1 = r\<lparr>r_participants := AList.delete userID (r_participants r), r_lastActivity := now\<rparr>;
             isEmpty = (length (r_participants r1) = 0);
             (r2, changed) =
               (if room_connectedCount r1 = 0 \<and> (r_state r1 = StateActive \<or> r_state r1 = StateIdle)
                then case room_transition StateWaiting now r1 of
                       Inl e \<Rightarrow> (r1, False)
                     | Inr r' \<Rightarrow> (r', True)
                else (r1, False))
         in Inr (r2, \<lparr>lr_Participant = p, lr_OwnerLeft = (userID = r_ownerID r2), lr_Empty = isEmpty,
                      lr_StateChanged = changed, lr_PreviousState = prev, lr_NewState = r_state r2\<rparr>))"

definition room_Leave :: "string \<Rightarrow> time \<Rightarrow> room \<Rightarrow> room_error + room \<times> leave_result" where
  "room_Leave userID now r = room_remove userID now r"

definition room_Remove ::
  "string \<Rightarrow> string \<Rightarrow> time \<Rightarrow> room \<Rightarrow> room_error + room \<times> leave_result" where
  "room_Remove actorID targetID now r =
    (case room_authorize r actorID ActionKick of
       Some e \<Rightarrow> Inl e
     | None \<Rightarrow>
         if targetID = r_ownerID r
            \<and> (case map_of (r_participants r) actorID of
                 None \<Rightarrow> True
               | Some actor \<Rightarrow> \<not> role_AtLeast (p_Role actor) RoleAdministrator)
         then Inl ErrCannotRemoveOwner
         else room_remove targetID now r)"

record transfer_result =
  tr_PreviousOwner :: string
  tr_NewOwner :: string

definition room_TransferOwnership ::
  "string \<Rightarrow> string \<Rightarrow> time \<Rightarrow> room \<Rightarrow> room_error + room \<times> transfer_result" where
  "room_TransferOwnership actorID newOwnerID now r =
    (case room_authorize r actorID ActionTransferOwnership of
       Some e \<Rightarrow> Inl e
     | None \<Rightarrow>
         if newOwnerID = r_ownerID r then Inl ErrAlreadyOwner
         else case map_of (r_participants r) newOwnerID of
           None \<Rightarrow> Inl ErrParticipantNotFound
         | Some newOwner \<Rightarrow>
             let prevOwnerID = r_ownerID r;
                 ps = (case map_of (r_participants r) prevOwnerID of
                         Some cur \<Rightarrow> AList.update prevOwnerID (cur\<lparr>p_Role := RoleParticipant\<rparr>)
                                       (r_participants r)
                       | None \<Rightarrow> r_participants r);
                 ps = AList.update newOwnerID (newOwner\<lparr>p_Role := RoleOwner\<rparr>) ps
             in Inr (r\<lparr>r_participants := ps, r_ownerID := newOwnerID, r_lastActivity := now\<rparr>,
                     \<lparr>tr_PreviousOwner = prevOwnerID, tr_NewOwner = newOwnerID\<rparr>))"

text \<open>Returns the room, the participant, whether it existed, and whether nobody is connected now.\<close>

definition room_SetConnected ::
  "string \<Rightarrow> bool \<Rightarrow> string \<Rightarrow> string \<Rightarrow> time \<Rightarrow> room \<Rightarrow> room \<times> participant \<times> bool \<times> bool" where
  "room_SetConnected userID connected connID sessionID now r =
    (case map_of (r_participants r) userID of
       None \<Rightarrow> (r, zero_participant, False, False)
     | Some p0 \<Rightarrow>
         let p = p0\<lparr>p_Connected := connected, p_LastSeen := now\<rparr>;
             p = (if connected then p\<lparr>p_ConnID := connID, p_SessionID := sessionID\<rparr>
                  else p\<lparr>p_ConnID := ''''\<rparr>);
             r' = r\<lparr>r_participants := AList.update userID p (r_participants r)\<rparr>;
             r' = (if connected then r'\<lparr>r_lastActivity := now\<rparr> else r')
         in (r', p, True, \<not> connected \<and> room_connectedCount r' = 0))"

definition room_Touch :: "time \<Rightarrow> room \<Rightarrow> room \<times> bool" where
  "room_Touch now r = room_driveActive now (r\<lparr>r_lastActivity := now\<rparr>)"

definition room_Transition :: "room_state \<Rightarrow> time \<Rightarrow> room \<Rightarrow> room_error + room" where
  "room_Transition to now r = room_transition to now r"

text \<open>The handles the room stores opaquely for other modules.\<close>

definition room_SetDocumentRef :: "any option \<Rightarrow> room \<Rightarrow> room" where
  "room_SetDocumentRef doc r = r\<lparr>r_document := doc\<rparr>"

definition room_SetPresenceRef :: "any option \<Rightarrow> room \<Rightarrow> room" where
  "room_SetPresenceRef pres r = r\<lparr>r_presence := pres\<rparr>"

definition room_SetExecutionRef :: "any option \<Rightarrow> room \<Rightarrow> room" where
  "room_SetExecutionRef ex r = r\<lparr>r_execution := ex\<rparr>"


section \<open>Well-formed rooms\<close>

definition room_wf :: "room \<Rightarrow> bool" where
  "room_wf r \<longleftrightarrow>
     gm_wf (r_participants r)
   \<and> (\<forall>u p. map_of (r_participants r) u = Some p \<longrightarrow> p_UserID p = u \<and> role_Valid (p_Role p))
   \<and> room_state_Valid (r_state r)
   \<and> (MaxParticipants (r_cfg r) > 0
        \<longrightarrow> int (length (r_participants r)) \<le> MaxParticipants (r_cfg r))"

text \<open>What no operation of a room changes, and that its state moves along the graph.\<close>

definition room_frame :: "room \<Rightarrow> room \<Rightarrow> bool" where
  "room_frame r r' \<longleftrightarrow> r_id r' = r_id r \<and> r_name r' = r_name r \<and> r_createdAt r' = r_createdAt r
     \<and> r_policy r' = r_policy r \<and> r_cfg r' = r_cfg r \<and> r_metadata r' = r_metadata r
     \<and> room_path (r_state r) (r_state r')"

lemma room_frame_refl [simp, intro!]: "room_frame r r"
  by (simp add: room_frame_def path_refl)

lemma room_frame_trans: "room_frame a b \<Longrightarrow> room_frame b c \<Longrightarrow> room_frame a c"
  by (auto simp: room_frame_def intro: room_path_trans)

lemma room_wf_gm_wf [dest]: "room_wf r \<Longrightarrow> gm_wf (r_participants r)"
  by (simp add: room_wf_def)

lemma room_wf_member:
  "room_wf r \<Longrightarrow> map_of (r_participants r) u = Some p \<Longrightarrow> p_UserID p = u \<and> role_Valid (p_Role p)"
  by (simp add: room_wf_def)

lemma room_wf_update_member:
  assumes "room_wf r" and "map_of (r_participants r) u = Some p"
    and "p_UserID q = u" and "role_Valid (p_Role q)"
  shows "room_wf (r\<lparr>r_participants := AList.update u q (r_participants r)\<rparr>)"
  using assms by (auto simp: room_wf_def gm_length_update gm_has_def)

lemma room_wf_lastActivity [simp]: "room_wf (r\<lparr>r_lastActivity := t\<rparr>) = room_wf r"
  by (simp add: room_wf_def)

lemma room_wf_ownerID [simp]: "room_wf (r\<lparr>r_ownerID := u\<rparr>) = room_wf r"
  by (simp add: room_wf_def)

lemma room_wf_state: "room_wf r \<Longrightarrow> room_state_Valid s \<Longrightarrow> room_wf (r\<lparr>r_state := s\<rparr>)"
  by (simp add: room_wf_def)

lemma room_wf_remove: "room_wf r \<Longrightarrow> room_wf (r\<lparr>r_participants := AList.delete u (r_participants r)\<rparr>)"
  using length_delete_le [of u "r_participants r"] by (auto simp: room_wf_def)

lemma room_connectedCount_0:
  "room_wf r \<Longrightarrow> room_connectedCount r = 0
     \<longleftrightarrow> (\<forall>u p. map_of (r_participants r) u = Some p \<longrightarrow> \<not> p_Connected p)"
  by (simp add: room_connectedCount_def gm_count_0_wf room_wf_gm_wf)

lemma view_ConnectedCount_View: "view_ConnectedCount (room_View r) = room_connectedCount r"
  by (simp add: view_ConnectedCount_def room_View_def room_connectedCount_def gm_count_def
      filter_map comp_def case_prod_beta')

subsection \<open>The transition primitives\<close>

lemma room_transition_Inr:
  assumes "room_transition to now r = Inr r'"
  shows "r_state r' = to \<and> room_Validate (r_state r) to = None \<and> r_participants r' = r_participants r
    \<and> r_ownerID r' = r_ownerID r \<and> room_frame r r' \<and> (room_wf r \<longrightarrow> room_wf r')
    \<and> (r_lastActivity r' = (if to = StateActive \<and> r_state r \<noteq> to then now else r_lastActivity r))"
  using assms path_step [OF path_refl, of "r_state r" to]
  by (auto simp: room_transition_def room_frame_def room_wf_def room_Validate_None_iff Let_def
      split: option.splits if_splits)

lemma room_transition_Inl_iff:
  "(\<exists>e. room_transition to now r = Inl e) \<longleftrightarrow> room_Validate (r_state r) to \<noteq> None"
  by (auto simp: room_transition_def Let_def split: option.splits)

lemma room_driveActive_eq:
  "room_driveActive now r =
     (if room_state_live (r_state r) \<and> r_state r \<noteq> StateActive
      then (r\<lparr>r_state := StateActive, r_lastActivity := now\<rparr>, True) else (r, False))"
  by (auto simp: room_driveActive_def)

lemma room_path_to_Active: "room_state_live s \<Longrightarrow> room_path s StateActive"
  by (rule path_step [OF path_refl]) (cases s; simp add: room_Validate_None_iff)

lemma room_driveActive_wf: "room_wf r \<Longrightarrow> room_wf (fst (room_driveActive now r))"
  by (simp add: room_driveActive_eq room_wf_def)

lemma room_driveActive_frame: "room_frame r (fst (room_driveActive now r))"
  by (simp add: room_driveActive_eq room_frame_def room_path_to_Active path_refl)

lemma room_driveActive_fields [simp]:
  "r_participants (fst (room_driveActive now r)) = r_participants r"
  "r_ownerID (fst (room_driveActive now r)) = r_ownerID r"
  by (simp_all add: room_driveActive_eq)

lemma room_driveActive_state:
  "room_state_live (r_state r) \<Longrightarrow> r_state (fst (room_driveActive now r)) = StateActive"
  by (simp add: room_driveActive_eq)

lemma room_driveActive_changed:
  "snd (room_driveActive now r) \<longleftrightarrow> r_state (fst (room_driveActive now r)) \<noteq> r_state r"
  by (auto simp: room_driveActive_eq)

lemma room_frame_lastActivity:
  "room_frame (r\<lparr>r_participants := ps, r_lastActivity := t\<rparr>) r' \<Longrightarrow> room_frame r r'"
  by (simp add: room_frame_def)


subsection \<open>Join\<close>

definition room_joinable :: "join_request \<Rightarrow> room \<Rightarrow> bool" where
  "room_joinable req r \<longleftrightarrow> role_Valid (jq_Role req) \<and> room_state_live (r_state r)
     \<and> (case map_of (r_participants r) (jq_UserID req) of
          Some p \<Rightarrow> \<not> p_Connected p
        | None \<Rightarrow> MaxParticipants (r_cfg r) > 0
                  \<longrightarrow> int (length (r_participants r)) < MaxParticipants (r_cfg r))"

text \<open>The member a join puts into the room.\<close>

definition room_joined :: "join_request \<Rightarrow> time \<Rightarrow> room \<Rightarrow> participant" where
  "room_joined req now r =
    (case map_of (r_participants r) (jq_UserID req) of
       Some p \<Rightarrow> p\<lparr>p_Connected := True, p_SessionID := jq_SessionID req, p_ConnID := jq_ConnID req,
                  p_LastSeen := now,
                  p_Metadata := (if jq_Metadata req \<noteq> None then jq_Metadata req else p_Metadata p)\<rparr>
     | None \<Rightarrow> \<lparr>p_UserID = jq_UserID req, p_Role = jq_Role req, p_SessionID = jq_SessionID req,
                p_ConnID = jq_ConnID req, p_JoinedAt = now, p_LastSeen = now, p_Connected = True,
                p_Metadata = jq_Metadata req\<rparr>)"

lemma room_state_live_alt:
  "room_wf r \<Longrightarrow> room_state_live (r_state r) \<longleftrightarrow> r_state r \<noteq> StateClosed \<and> r_state r \<noteq> StateDestroyed"
  by (auto simp: room_wf_def room_state_live_def)

lemma room_Join_eq:
  assumes "room_wf r"
  shows "(\<exists>res. room_Join req now r = Inr res) \<longleftrightarrow> room_joinable req r"
  using assms
  by (auto simp: room_Join_def room_joinable_def room_state_live_alt Let_def case_prod_beta'
      split: option.splits if_splits)

lemma room_Join_Inr:
  assumes j: "room_Join req now r = Inr (r', res)"
  shows "r' = fst (room_driveActive now
           (r\<lparr>r_participants := AList.update (jq_UserID req) (room_joined req now r) (r_participants r),
              r_lastActivity := now\<rparr>))"
    and "jr_Participant res = room_joined req now r"
    and "jr_Reconnected res \<longleftrightarrow> gm_has (r_participants r) (jq_UserID req)"
    and "jr_PreviousState res = r_state r" and "jr_NewState res = r_state r'"
    and "jr_StateChanged res \<longleftrightarrow> r_state r' \<noteq> r_state r"
  using j
  by (auto simp: room_Join_def room_joined_def gm_has_def Let_def case_prod_beta'
      room_driveActive_changed split: option.splits if_splits)

lemma room_joined_fields [simp]:
  "p_Connected (room_joined req now r)" "p_LastSeen (room_joined req now r) = now"
  "p_SessionID (room_joined req now r) = jq_SessionID req"
  "p_ConnID (room_joined req now r) = jq_ConnID req"
  by (simp_all add: room_joined_def split: option.split)

lemma room_joined_ids:
  "room_wf r \<Longrightarrow> p_UserID (room_joined req now r) = jq_UserID req"
  "room_wf r \<Longrightarrow> room_joinable req r \<Longrightarrow> role_Valid (p_Role (room_joined req now r))"
  by (auto simp: room_joined_def room_joinable_def dest: room_wf_member split: option.splits)

lemma room_Join_wf:
  assumes wf: "room_wf r" and j: "room_Join req now r = Inr (r', res)"
  shows "room_wf r' \<and> room_frame r r' \<and> r_state r' = StateActive \<and> r_ownerID r' = r_ownerID r"
proof -
  let ?r1 = "r\<lparr>r_participants := AList.update (jq_UserID req) (room_joined req now r) (r_participants r),
               r_lastActivity := now\<rparr>"
  have ok: "room_joinable req r" using room_Join_eq [OF wf] j by blast
  have r': "r' = fst (room_driveActive now ?r1)" by (rule room_Join_Inr(1) [OF j])
  have "room_wf ?r1"
    using wf ok room_joined_ids [OF wf, of req now]
    by (auto simp: room_wf_def room_joinable_def gm_length_update gm_has_def split: option.splits)
  moreover have "room_state_live (r_state ?r1)" using ok by (simp add: room_joinable_def)
  ultimately show ?thesis
    using r' room_driveActive_wf [of ?r1 now] room_driveActive_frame [of ?r1 now]
      room_driveActive_state [of ?r1 now]
    by (auto dest: room_frame_lastActivity)
qed

subsection \<open>Leaving and kicking\<close>

lemma room_remove_Inr:
  assumes "room_remove u now r = Inr (r', res)"
  shows "r_participants r' = AList.delete u (r_participants r)" "gm_has (r_participants r) u"
    "r_ownerID r' = r_ownerID r" "r_lastActivity r' = now"
    "r_state r' = (if room_connectedCount r' = 0 \<and> (r_state r = StateActive \<or> r_state r = StateIdle)
                   then StateWaiting else r_state r)"
    "map_of (r_participants r) u = Some (lr_Participant res)"
    "lr_OwnerLeft res \<longleftrightarrow> u = r_ownerID r" "lr_Empty res \<longleftrightarrow> r_participants r' = []"
    "lr_PreviousState res = r_state r" "lr_NewState res = r_state r'"
    "lr_StateChanged res \<longleftrightarrow> r_state r' \<noteq> r_state r"
  using assms
  by (auto simp: room_remove_def Let_def gm_has_def room_connectedCount_def room_transition_def
      room_Validate_None_iff room_Validate_def room_CanTransition_iff
      split: option.splits if_splits sum.splits)

lemma room_remove_wf:
  assumes wf: "room_wf r" and rm: "room_remove u now r = Inr (r', res)"
  shows "room_wf r' \<and> room_frame r r'"
proof -
  let ?r1 = "r\<lparr>r_participants := AList.delete u (r_participants r), r_lastActivity := now\<rparr>"
  have wf1: "room_wf ?r1" using room_wf_remove [OF wf, of u]
    by (simp add: room_wf_def)
  have fr1: "room_frame r ?r1" by (simp add: room_frame_def path_refl)
  have "r' = ?r1 \<or> room_transition StateWaiting now ?r1 = Inr r'"
    using rm by (auto simp: room_remove_def Let_def split: option.splits if_splits sum.splits)
  then show ?thesis
    using wf1 fr1 room_transition_Inr [of StateWaiting now ?r1 r'] by (auto intro: room_frame_trans)
qed

lemma room_Remove_Inr:
  assumes "room_Remove actor target now r = Inr x"
  shows "room_remove target now r = Inr x"
    and "\<exists>a. map_of (r_participants r) actor = Some a \<and> policy_Allows (r_policy r) (p_Role a) ActionKick
           \<and> (target = r_ownerID r \<longrightarrow> p_Role a = RoleAdministrator)"
  using assms
  by (auto simp: room_Remove_def room_authorize_def split: option.splits if_splits)

subsection \<open>Transfer, connection state, touch\<close>

lemma room_Transfer_Inr:
  assumes "room_TransferOwnership actor new now r = Inr (r', res)"
  shows "\<exists>a q. map_of (r_participants r) actor = Some a
           \<and> policy_Allows (r_policy r) (p_Role a) ActionTransferOwnership
           \<and> new \<noteq> r_ownerID r \<and> map_of (r_participants r) new = Some q
           \<and> map_of (r_participants r') =
               (case map_of (r_participants r) (r_ownerID r) of
                  Some c \<Rightarrow> (map_of (r_participants r))(r_ownerID r \<mapsto> c\<lparr>p_Role := RoleParticipant\<rparr>)
                | None \<Rightarrow> map_of (r_participants r))(new \<mapsto> q\<lparr>p_Role := RoleOwner\<rparr>)
           \<and> r_ownerID r' = new \<and> tr_PreviousOwner res = r_ownerID r \<and> tr_NewOwner res = new
           \<and> r_state r' = r_state r \<and> length (r_participants r') = length (r_participants r)"
  using assms
  by (auto simp: room_TransferOwnership_def room_authorize_def Let_def gm_length_update gm_has_def
      split: option.splits if_splits)

lemma room_Transfer_wf:
  assumes wf: "room_wf r" and t: "room_TransferOwnership actor new now r = Inr (r', res)"
  shows "room_wf r' \<and> room_frame r r'"
proof -
  have "gm_wf (r_participants r')" "r_state r' = r_state r" "r_cfg r' = r_cfg r" "room_frame r r'"
    using t room_wf_gm_wf [OF wf]
    by (auto simp: room_TransferOwnership_def Let_def room_frame_def path_refl
        split: option.splits if_splits)
  with wf room_Transfer_Inr [OF t] show ?thesis
    by (auto simp: room_wf_def split: option.splits if_splits)
qed

lemma room_SetConnected_cases:
  assumes "room_SetConnected u c conn sess now r = (r', p, ok, nowEmpty)"
  shows "ok \<longleftrightarrow> gm_has (r_participants r) u" "\<not> ok \<Longrightarrow> r' = r \<and> \<not> nowEmpty"
    "ok \<Longrightarrow> \<exists>p0. map_of (r_participants r) u = Some p0
        \<and> map_of (r_participants r') = (map_of (r_participants r))(u \<mapsto> p)
        \<and> p_Connected p = c \<and> p_Role p = p_Role p0 \<and> p_UserID p = p_UserID p0 \<and> p_LastSeen p = now
        \<and> p_JoinedAt p = p_JoinedAt p0
        \<and> r_participants r' = AList.update u p (r_participants r)"
    "r_state r' = r_state r" "r_ownerID r' = r_ownerID r"
    "ok \<Longrightarrow> nowEmpty \<longleftrightarrow> \<not> c \<and> room_connectedCount r' = 0" "room_frame r r'"
    "r_lastActivity r' = (if ok \<and> c then now else r_lastActivity r)"
  using assms
  by (auto simp: room_SetConnected_def gm_has_def Let_def room_frame_def path_refl
      split: option.splits if_splits)

lemma room_SetConnected_wf:
  assumes wf: "room_wf r" and s: "room_SetConnected u c conn sess now r = (r', p, ok, nowEmpty)"
  shows "room_wf r'"
proof (cases ok)
  case True
  obtain p0 where p0: "map_of (r_participants r) u = Some p0" "p_UserID p = p_UserID p0"
      "p_Role p = p_Role p0" "r_participants r' = AList.update u p (r_participants r)"
    using room_SetConnected_cases(3) [OF s True] by blast
  moreover have "r_cfg r' = r_cfg r" "r_state r' = r_state r"
    using room_SetConnected_cases(4,7) [OF s] by (simp_all add: room_frame_def)
  ultimately show ?thesis
    using wf room_wf_member [OF wf p0(1)] by (auto simp: room_wf_def gm_length_update gm_has_def)
qed (use wf room_SetConnected_cases(2) [OF s] in simp)

lemma room_Touch_wf: "room_wf r \<Longrightarrow> room_wf (fst (room_Touch now r))"
  by (simp add: room_Touch_def room_driveActive_wf)

lemma room_Touch_frame: "room_frame r (fst (room_Touch now r))"
proof -
  have "room_frame (r\<lparr>r_lastActivity := now\<rparr>) (fst (room_Touch now r))"
    unfolding room_Touch_def by (rule room_driveActive_frame)
  then show ?thesis by (simp add: room_frame_def)
qed


section \<open>Every run of a room\<close>

text \<open>One rule per mutating method: any interleaving of callers is a sequence of these steps.\<close>

inductive room_step :: "room \<Rightarrow> room \<Rightarrow> bool" where
  step_join: "room_Join req now r = Inr (r', jres) \<Longrightarrow> room_step r r'"
| step_leave: "room_Leave u now r = Inr (r', lres) \<Longrightarrow> room_step r r'"
| step_remove: "room_Remove actor target now r = Inr (r', lres) \<Longrightarrow> room_step r r'"
| step_transfer: "room_TransferOwnership actor new now r = Inr (r', tres) \<Longrightarrow> room_step r r'"
| step_connected: "room_SetConnected u c conn sess now r = (r', p, ok, nowEmpty) \<Longrightarrow> room_step r r'"
| step_touch: "room_Touch now r = (r', changed) \<Longrightarrow> room_step r r'"
| step_transition: "room_Transition to now r = Inr r' \<Longrightarrow> room_step r r'"
| step_document: "room_step r (room_SetDocumentRef d r)"
| step_presence: "room_step r (room_SetPresenceRef d r)"
| step_execution: "room_step r (room_SetExecutionRef d r)"

inductive room_reachable :: "room_params \<Rightarrow> room \<Rightarrow> bool" for ps where
  reach_new: "room_reachable ps (room_New ps)"
| reach_step: "room_reachable ps r \<Longrightarrow> room_step r r' \<Longrightarrow> room_reachable ps r'"

lemma room_New_wf: "room_wf (room_New ps)"
  by (simp add: room_wf_def room_New_def Let_def)

lemma room_step_wf: "room_step r r' \<Longrightarrow> room_wf r \<Longrightarrow> room_wf r' \<and> room_frame r r'"
proof (induction rule: room_step.induct)
  case (step_join req now r r' jres)
  then show ?case using room_Join_wf by blast
next
  case (step_leave u now r r' lres)
  then show ?case using room_remove_wf unfolding room_Leave_def by blast
next
  case (step_remove actor target now r r' lres)
  then show ?case using room_remove_wf room_Remove_Inr(1) by blast
next
  case (step_transfer actor new now r r' tres)
  then show ?case using room_Transfer_wf by blast
next
  case (step_connected u c conn sess now r r' p ok nowEmpty)
  then show ?case using room_SetConnected_wf room_SetConnected_cases(7) by blast
next
  case (step_touch now r r' changed)
  then show ?case using room_Touch_wf [of r now] room_Touch_frame [of r now] by simp
next
  case (step_transition to now r r')
  then show ?case using room_transition_Inr unfolding room_Transition_def by blast
qed (auto simp: room_SetDocumentRef_def room_SetPresenceRef_def room_SetExecutionRef_def
    room_wf_def room_frame_def path_refl)

lemma room_reachable_inv:
  "room_reachable ps r \<Longrightarrow> room_wf r \<and> room_frame (room_New ps) r"
  by (induction rule: room_reachable.induct)
    (auto simp: room_New_wf dest: room_step_wf intro: room_frame_trans)

text \<open>
  C2. Every room a run of its operations can produce is well formed: its members are keyed
  by their user id, hold known roles, never exceed a positive \<open>MaxParticipants\<close>, its state
  is a known one reached from \<open>Created\<close> along the transition graph, and its identity,
  creation time, policy and configuration are those it was created with.
\<close>

theorem room_reachable_wf:
  assumes "room_reachable ps r"
  shows "room_wf r \<and> r_id r = rp_ID ps \<and> r_createdAt r = rp_Now ps \<and> r_policy r = rp_Policy ps
    \<and> r_cfg r = rp_Config ps \<and> room_path StateCreated (r_state r)"
  using room_reachable_inv [OF assms] by (simp add: room_frame_def room_New_def Let_def)

definition ex_params :: room_params where
  "ex_params = \<lparr>rp_ID = ''room-1'', rp_Name = ''demo'', rp_OwnerID = ''alice'',
     rp_Config = \<lparr>MaxParticipants = 2, IdleTimeout = 5 * Minute, ExpireTimeout = 10 * Minute,
       RecoveryTimeout = Minute, Visibility = VisibilityPrivate\<rparr>,
     rp_Policy = policy_Default, rp_Metadata = None, rp_OwnerSessionID = '''', rp_OwnerConnID = '''',
     rp_Now = 1000\<rparr>"

definition ex_join :: "string \<Rightarrow> role \<Rightarrow> join_request" where
  "ex_join u ro = \<lparr>jq_UserID = u, jq_Role = ro, jq_SessionID = ''s'', jq_ConnID = ''c'', jq_Metadata = None\<rparr>"

text \<open>A room with its owner away and one participant connected.\<close>

definition ex_member :: "string \<Rightarrow> role \<Rightarrow> bool \<Rightarrow> participant" where
  "ex_member u ro c = \<lparr>p_UserID = u, p_Role = ro, p_SessionID = ''s'', p_ConnID = ''c'', p_JoinedAt = 1000,
     p_LastSeen = 1000, p_Connected = c, p_Metadata = None\<rparr>"

definition ex_room :: room where
  "ex_room = (room_New ex_params)\<lparr>r_state := StateActive, r_participants :=
     [(''alice'', ex_member ''alice'' RoleOwner False), (''bob'', ex_member ''bob'' RoleParticipant True)]\<rparr>"

lemma ex_room_eval [simp]:
  "r_participants ex_room =
     [(''alice'', ex_member ''alice'' RoleOwner False), (''bob'', ex_member ''bob'' RoleParticipant True)]"
  "r_state ex_room = StateActive" "r_ownerID ex_room = ''alice''" "r_policy ex_room = policy_Default"
  "r_cfg ex_room = rp_Config ex_params" "r_id ex_room = ''room-1''"
  "p_UserID (ex_member u ro c) = u" "p_Role (ex_member u ro c) = ro" "p_Connected (ex_member u ro c) = c"
  "policy_Allows policy_Default RoleOwner ActionKick" "\<not> policy_Allows policy_Default RoleParticipant ActionKick"
  "policy_Allows policy_Default RoleOwner ActionTransferOwnership"
  by (simp_all add: ex_room_def ex_member_def room_New_def ex_params_def Let_def policy_Allows_def
      role_AtLeast_def)

lemmas ex_room_simps = ex_params_def ex_join_def room_New_def room_Join_def room_driveActive_def
  room_CanTransition_def room_transitions_def Let_def

theorem room_reachable_wf_witness:
  "\<exists>r res. room_Join (ex_join ''bob'' RoleParticipant) 2000 (room_New ex_params) = Inr (r, res)
     \<and> length (r_participants r) = 2 \<and> room_wf r"
proof -
  obtain r res where j: "room_Join (ex_join ''bob'' RoleParticipant) 2000 (room_New ex_params) = Inr (r, res)"
    and l: "length (r_participants r) = 2"
    by (simp add: ex_room_simps)
  have "room_reachable ex_params r"
    by (rule reach_step [OF reach_new step_join [OF j]])
  then show ?thesis using room_reachable_wf j l by blast
qed

text \<open>
  C3. \<open>Join\<close> on a well-formed room succeeds exactly when the requested role is known, the
  room is not closed or destroyed, and the user is either a disconnected member or a new one
  for whom there is room. On success the room is \<open>Active\<close>, the user is a connected member,
  a returning member keeps role and join time, a new one gets the requested role, and no
  other member, nor the ownership, changes.
\<close>

theorem room_Join_correct:
  assumes wf: "room_wf r"
  shows "((\<exists>res. room_Join req now r = Inr res) \<longleftrightarrow> room_joinable req r)
    \<and> (\<forall>r' res. room_Join req now r = Inr (r', res) \<longrightarrow>
         room_wf r' \<and> r_state r' = StateActive \<and> r_ownerID r' = r_ownerID r
         \<and> map_of (r_participants r') =
             (map_of (r_participants r))(jq_UserID req \<mapsto> jr_Participant res)
         \<and> p_Connected (jr_Participant res) \<and> p_UserID (jr_Participant res) = jq_UserID req
         \<and> (case map_of (r_participants r) (jq_UserID req) of
              Some p \<Rightarrow> jr_Reconnected res \<and> p_Role (jr_Participant res) = p_Role p
                        \<and> p_JoinedAt (jr_Participant res) = p_JoinedAt p
            | None \<Rightarrow> \<not> jr_Reconnected res \<and> p_Role (jr_Participant res) = jq_Role req
                      \<and> p_JoinedAt (jr_Participant res) = now))"
proof (intro conjI allI impI)
  show "(\<exists>res. room_Join req now r = Inr res) \<longleftrightarrow> room_joinable req r"
    by (rule room_Join_eq [OF wf])
  fix r' res assume j: "room_Join req now r = Inr (r', res)"
  note J = room_Join_Inr [OF j] and W = room_Join_wf [OF wf j]
  show "room_wf r'" "r_state r' = StateActive" "r_ownerID r' = r_ownerID r" using W by auto
  show "map_of (r_participants r') =
      (map_of (r_participants r))(jq_UserID req \<mapsto> jr_Participant res)"
    by (simp add: J(1,2))
  show "p_Connected (jr_Participant res)" "p_UserID (jr_Participant res) = jq_UserID req"
    by (simp_all add: J(2) room_joined_ids(1) [OF wf])
  show "case map_of (r_participants r) (jq_UserID req) of
      Some p \<Rightarrow> jr_Reconnected res \<and> p_Role (jr_Participant res) = p_Role p
                \<and> p_JoinedAt (jr_Participant res) = p_JoinedAt p
    | None \<Rightarrow> \<not> jr_Reconnected res \<and> p_Role (jr_Participant res) = jq_Role req
              \<and> p_JoinedAt (jr_Participant res) = now"
    by (simp add: J(2,3) gm_has_def room_joined_def split: option.split)
qed

theorem room_Join_correct_witness:
  "room_wf (room_New ex_params) \<and> room_joinable (ex_join ''bob'' RoleModerator) (room_New ex_params)
   \<and> (\<exists>r' res. room_Join (ex_join ''bob'' RoleModerator) 2000 (room_New ex_params) = Inr (r', res)
        \<and> r_state r' = StateActive \<and> p_Role (jr_Participant res) = RoleModerator)"
proof -
  have ok: "room_joinable (ex_join ''bob'' RoleModerator) (room_New ex_params)"
    by (simp add: room_joinable_def ex_room_simps)
  then obtain r' res where
    j: "room_Join (ex_join ''bob'' RoleModerator) 2000 (room_New ex_params) = Inr (r', res)"
    using room_Join_correct [OF room_New_wf, THEN conjunct1] by fastforce
  moreover from j have "r_state r' = StateActive"
    using room_Join_correct [OF room_New_wf, THEN conjunct2] by blast
  moreover from j have "p_Role (jr_Participant res) = RoleModerator"
    by (auto simp: ex_room_simps)
  ultimately show ?thesis using ok room_New_wf by blast
qed

lemma room_remove_eq:
  "(\<exists>x. room_remove u now r = Inr x) \<longleftrightarrow> gm_has (r_participants r) u"
  by (auto simp: room_remove_def gm_has_def Let_def case_prod_beta' split: option.splits)

lemma room_Remove_eq:
  "(\<exists>x. room_Remove actor target now r = Inr x) \<longleftrightarrow>
     (\<exists>a. map_of (r_participants r) actor = Some a \<and> policy_Allows (r_policy r) (p_Role a) ActionKick
        \<and> (target = r_ownerID r \<longrightarrow> p_Role a = RoleAdministrator))
     \<and> gm_has (r_participants r) target"
  using room_remove_eq [of target now r]
  by (auto simp: room_Remove_def room_authorize_def policy_Require_def split: option.splits if_splits)

text \<open>
  C4. A kick succeeds exactly when the actor is a member whose role the policy allows to kick,
  the target is a member, and either the target is not the owner or the actor is an
  administrator. It then removes the target and nobody else, keeps the owner id, and lets a
  room that lost its last connected member fall back from \<open>Active\<close> or \<open>Idle\<close> to
  \<open>Waiting\<close>; in every other case the state is kept.
\<close>

theorem room_Remove_authorized:
  "((\<exists>x. room_Remove actor target now r = Inr x) \<longleftrightarrow>
      (\<exists>a. map_of (r_participants r) actor = Some a \<and> policy_Allows (r_policy r) (p_Role a) ActionKick
         \<and> (target = r_ownerID r \<longrightarrow> p_Role a = RoleAdministrator))
      \<and> gm_has (r_participants r) target)
   \<and> (\<forall>r' res. room_Remove actor target now r = Inr (r', res) \<longrightarrow>
        map_of (r_participants r') = (map_of (r_participants r))(target := None)
        \<and> r_ownerID r' = r_ownerID r
        \<and> r_state r' = (if room_connectedCount r' = 0 \<and> (r_state r = StateActive \<or> r_state r = StateIdle)
                        then StateWaiting else r_state r))"
proof (intro conjI allI impI)
  fix r' res assume k: "room_Remove actor target now r = Inr (r', res)"
  note rm = room_remove_Inr [OF room_Remove_Inr(1) [OF k]]
  show "map_of (r_participants r') = (map_of (r_participants r))(target := None)"
    by (simp add: rm(1))
  show "r_ownerID r' = r_ownerID r" by (rule rm(3))
  show "r_state r' = (if room_connectedCount r' = 0 \<and> (r_state r = StateActive \<or> r_state r = StateIdle)
                        then StateWaiting else r_state r)" by (rule rm(5))
qed (rule room_Remove_eq)

theorem room_Remove_authorized_witness:
  "\<exists>r' res. room_Remove ''alice'' ''bob'' 3000 ex_room = Inr (r', res)
     \<and> map_of (r_participants r') ''bob'' = None \<and> r_state r' = StateWaiting
     \<and> \<not> (\<exists>x. room_Remove ''bob'' ''alice'' 3000 ex_room = Inr x)"
proof -
  have "\<exists>x. room_Remove ''alice'' ''bob'' 3000 ex_room = Inr x"
    unfolding room_Remove_authorized [THEN conjunct1] by (simp add: gm_has_def)
  then obtain r' res where k: "room_Remove ''alice'' ''bob'' 3000 ex_room = Inr (r', res)" by fastforce
  note post = room_Remove_authorized [THEN conjunct2, rule_format, OF k]
  have p: "r_participants r' = [(''alice'', ex_member ''alice'' RoleOwner False)]"
    using room_remove_Inr(1) [OF room_Remove_Inr(1) [OF k]] by simp
  have "r_state r' = StateWaiting"
    using post p by (simp add: room_connectedCount_def gm_count_def)
  moreover have "\<not> (\<exists>x. room_Remove ''bob'' ''alice'' 3000 ex_room = Inr x)"
    unfolding room_Remove_authorized [THEN conjunct1] by simp
  moreover have "map_of (r_participants r') ''bob'' = None" using post by simp
  ultimately show ?thesis using k by blast
qed

definition room_sole_owner :: "room \<Rightarrow> bool" where
  "room_sole_owner r \<longleftrightarrow>
     (\<forall>u p. map_of (r_participants r) u = Some p \<longrightarrow> (p_Role p = RoleOwner \<longleftrightarrow> u = r_ownerID r))"



section \<open>What joining does not check\<close>

text \<open>The join permission of the policy is never consulted, and the requested role is granted as it is.\<close>

lemma room_Join_grants_any_role:
  assumes "room_wf r" "room_state_live (r_state r)" "map_of (r_participants r) (jq_UserID req) = None"
    "MaxParticipants (r_cfg r) \<le> 0" "jq_Role req = RoleAdministrator"
  shows "\<exists>r' res. room_Join req now r = Inr (r', res) \<and> p_Role (jr_Participant res) = RoleAdministrator"
  using assms by (simp add: room_Join_def room_state_live_alt Let_def case_prod_beta')

text \<open>A self-transition does not refresh the activity time.\<close>

lemma room_transition_self: "room_state_Valid (r_state r) \<Longrightarrow> room_transition (r_state r) now r = Inr r"
  by (simp add: room_transition_def room_Validate_def room_CanTransition_def)

end
