(* ===== verification/Room_Events.thy ===== *)
theory Room_Events
  imports Room_Lifecycle Room_Permissions "HOL-Library.Sublist"
begin

text \<open>
  The publish/subscribe bus of \<open>src/internal/rooms/events\<close>. A subscription is a heap
  object: its handle stays usable after the bus forgot it, and \<open>Publish\<close> delivers to a
  snapshot of handles after it released the lock. The model keeps all subscription objects
  in a store and the set of attached ones apart from it, so that a close between the
  snapshot and the delivery can be expressed. A send on a closed channel panics: delivery
  then has the value \<^const>\<open>None\<close>.
\<close>

section \<open>Events\<close>

datatype event_type =
    RoomCreated | RoomClosed | RoomDestroyed | UserJoined | UserLeft | OwnerChanged
  | RoomExpired | RoomRecovered | MembershipUpdated | StateChanged | EventTypeOther "8 word"

fun event_type_String :: "event_type \<Rightarrow> string" where
  "event_type_String RoomCreated = ''room_created''"
| "event_type_String RoomClosed = ''room_closed''"
| "event_type_String RoomDestroyed = ''room_destroyed''"
| "event_type_String UserJoined = ''user_joined''"
| "event_type_String UserLeft = ''user_left''"
| "event_type_String OwnerChanged = ''owner_changed''"
| "event_type_String RoomExpired = ''room_expired''"
| "event_type_String RoomRecovered = ''room_recovered''"
| "event_type_String MembershipUpdated = ''membership_updated''"
| "event_type_String StateChanged = ''state_changed''"
| "event_type_String (EventTypeOther n) = ''unknown_event''"

record event =
  e_Type :: event_type
  e_RoomID :: string
  e_ActorID :: string
  e_TargetID :: string
  e_Role :: role
  e_From :: room_state
  e_To :: room_state
  e_Reason :: string
  e_At :: time

text \<open>The composite literal that sets only type, room and time.\<close>

definition mk_event :: "event_type \<Rightarrow> string \<Rightarrow> time \<Rightarrow> event" where
  "mk_event ty roomID at = \<lparr>e_Type = ty, e_RoomID = roomID, e_ActorID = '''', e_TargetID = '''',
     e_Role = RoleObserver, e_From = StateCreated, e_To = StateCreated, e_Reason = '''', e_At = at\<rparr>"

section \<open>Subscriptions and the bus\<close>

record channel =
  ch_cap :: nat
  ch_buf :: "event list"
  ch_closed :: bool

text \<open>
  \<open>s_ch\<close> is nil for a callback subscription; \<open>s_fn\<close> tells whether it has a callback, whose
  invocations \<open>s_calls\<close> records; \<open>s_closed\<close> tells whether the channel \<open>closed\<close> is closed,
  and \<open>s_once\<close> whether the \<open>sync.Once\<close> of \<open>Close\<close> has run.
\<close>

record subscription =
  s_ch :: "channel option"
  s_fn :: bool
  s_calls :: "event list"
  s_closed :: bool
  s_once :: bool

record bus =
  b_nextID :: nat
  b_store :: "(nat, subscription) gomap"
  b_subs :: "nat list"
  b_closed :: bool
  b_drops :: nat  \<comment> \<open>calls of the \<open>OnDrop\<close> hook\<close>
  b_pubs :: nat   \<comment> \<open>calls of the \<open>OnPublish\<close> hook\<close>

definition bus_New :: bus where
  "bus_New = \<lparr>b_nextID = 0, b_store = [], b_subs = [], b_closed = False, b_drops = 0, b_pubs = 0\<rparr>"

definition bus_Subscribe :: "int \<Rightarrow> bus \<Rightarrow> bus \<times> nat" where
  "bus_Subscribe buffer b =
    (let buffer = (if buffer \<le> 0 then 1 else buffer);
         sid = Suc (b_nextID b);
         ch = \<lparr>ch_cap = nat buffer, ch_buf = [], ch_closed = b_closed b\<rparr>;
         s = \<lparr>s_ch = Some ch, s_fn = False, s_calls = [], s_closed = b_closed b, s_once = False\<rparr>;
         b' = b\<lparr>b_nextID := sid, b_store := AList.update sid s (b_store b)\<rparr>
     in (if \<not> b_closed b then b'\<lparr>b_subs := sid # b_subs b'\<rparr> else b', sid))"

definition bus_SubscribeFunc :: "bool \<Rightarrow> bus \<Rightarrow> bus \<times> nat" where
  "bus_SubscribeFunc hasFn b =
    (let sid = Suc (b_nextID b);
         s = \<lparr>s_ch = None, s_fn = hasFn, s_calls = [], s_closed = b_closed b, s_once = False\<rparr>;
         b' = b\<lparr>b_nextID := sid, b_store := AList.update sid s (b_store b)\<rparr>
     in (if \<not> b_closed b then b'\<lparr>b_subs := sid # b_subs b'\<rparr> else b', sid))"

text \<open>
  The body of the delivery loop for one snapshotted handle. The non-blocking send panics on a
  closed channel, stores the event when the buffer has room, and drops it otherwise. A callback
  is shielded by \<open>recover\<close>, so whatever it does the delivery goes on.
\<close>

definition bus_deliver1 :: "event \<Rightarrow> nat \<Rightarrow> bus \<Rightarrow> bus option" where
  "bus_deliver1 e sid b =
    (case map_of (b_store b) sid of
       None \<Rightarrow> Some b
     | Some s \<Rightarrow>
         (case s_ch s of
            Some ch \<Rightarrow>
              if ch_closed ch then None
              else if length (ch_buf ch) < ch_cap ch
              then Some (b\<lparr>b_store := AList.update sid
                     (s\<lparr>s_ch := Some (ch\<lparr>ch_buf := ch_buf ch @ [e]\<rparr>)\<rparr>) (b_store b)\<rparr>)
              else Some (b\<lparr>b_drops := Suc (b_drops b)\<rparr>)
          | None \<Rightarrow>
              if s_fn s
              then Some (b\<lparr>b_store := AList.update sid (s\<lparr>s_calls := s_calls s @ [e]\<rparr>) (b_store b)\<rparr>)
              else Some b))"

fun bus_deliver :: "event \<Rightarrow> nat list \<Rightarrow> bus \<Rightarrow> bus option" where
  "bus_deliver e [] b = Some b"
| "bus_deliver e (sid # sids) b =
     (case bus_deliver1 e sid b of None \<Rightarrow> None | Some b' \<Rightarrow> bus_deliver e sids b')"

definition bus_snapshot :: "bus \<Rightarrow> nat list" where
  "bus_snapshot b = b_subs b"

definition bus_Publish :: "event \<Rightarrow> bus \<Rightarrow> bus option" where
  "bus_Publish e b =
    (let b' = b\<lparr>b_pubs := Suc (b_pubs b)\<rparr> in bus_deliver e (bus_snapshot b') b')"

text \<open>Closing a channel twice panics: \<open>Close\<close> then has the value \<^const>\<open>None\<close>.\<close>

definition sub_Close :: "nat \<Rightarrow> bus \<Rightarrow> bus option" where
  "sub_Close sid b =
    (case map_of (b_store b) sid of
       None \<Rightarrow> Some b
     | Some s \<Rightarrow>
         if s_once s then Some b
         else if s_closed s then None
         else if (case s_ch s of Some ch \<Rightarrow> ch_closed ch | None \<Rightarrow> False) then None
         else Some (b\<lparr>b_subs := removeAll sid (b_subs b),
                b_store := AList.update sid
                  (s\<lparr>s_once := True, s_closed := True,
                     s_ch := map_option (\<lambda>ch. ch\<lparr>ch_closed := True\<rparr>) (s_ch s)\<rparr>)
                  (b_store b)\<rparr>))"

fun sub_CloseAll :: "nat list \<Rightarrow> bus \<Rightarrow> bus option" where
  "sub_CloseAll [] b = Some b"
| "sub_CloseAll (sid # sids) b =
     (case sub_Close sid b of None \<Rightarrow> None | Some b' \<Rightarrow> sub_CloseAll sids b')"

definition bus_Close :: "bus \<Rightarrow> bus option" where
  "bus_Close b =
    (if b_closed b then Some b
     else sub_CloseAll (b_subs b) (b\<lparr>b_closed := True, b_subs := []\<rparr>))"

definition bus_SubscriberCount :: "bus \<Rightarrow> nat" where
  "bus_SubscriberCount b = length (b_subs b)"

text \<open>A consumer takes the oldest buffered event from its channel (closed channels drain too).\<close>

definition sub_recv :: "nat \<Rightarrow> bus \<Rightarrow> (event \<times> bus) option" where
  "sub_recv sid b =
    (case map_of (b_store b) sid of
       Some s \<Rightarrow>
         (case s_ch s of
            Some ch \<Rightarrow>
              (case ch_buf ch of
                 e # es \<Rightarrow> Some (e, b\<lparr>b_store := AList.update sid
                                   (s\<lparr>s_ch := Some (ch\<lparr>ch_buf := es\<rparr>)\<rparr>) (b_store b)\<rparr>)
               | [] \<Rightarrow> None)
          | None \<Rightarrow> None)
     | None \<Rightarrow> None)"

section \<open>The bus invariant\<close>

definition sub_open :: "subscription \<Rightarrow> bool" where
  "sub_open s \<longleftrightarrow> \<not> s_once s \<and> \<not> s_closed s \<and> (\<forall>ch. s_ch s = Some ch \<longrightarrow> \<not> ch_closed ch)"

definition sub_bounded :: "subscription \<Rightarrow> bool" where
  "sub_bounded s \<longleftrightarrow> (\<forall>ch. s_ch s = Some ch \<longrightarrow> 0 < ch_cap ch \<and> length (ch_buf ch) \<le> ch_cap ch)"

definition bus_wf :: "bus \<Rightarrow> bool" where
  "bus_wf b \<longleftrightarrow> gm_wf (b_store b) \<and> distinct (b_subs b)
     \<and> (\<forall>sid \<in> set (b_subs b). \<exists>s. map_of (b_store b) sid = Some s \<and> sub_open s)
     \<and> (\<forall>sid s. map_of (b_store b) sid = Some s \<longrightarrow> sid \<le> b_nextID b \<and> sub_bounded s)
     \<and> (b_closed b \<longrightarrow> b_subs b = [])"

lemma bus_New_wf: "bus_wf bus_New"
  by (simp add: bus_wf_def bus_New_def)

lemma bus_wf_pubs [simp]: "bus_wf (b\<lparr>b_pubs := n\<rparr>) = bus_wf b"
  and bus_wf_drops [simp]: "bus_wf (b\<lparr>b_drops := n\<rparr>) = bus_wf b"
  by (simp_all add: bus_wf_def)

lemma bus_wf_fresh: "bus_wf b \<Longrightarrow> Suc (b_nextID b) \<notin> set (b_subs b)"
  by (fastforce simp: bus_wf_def)

lemma bus_Subscribe_wf: "bus_wf b \<Longrightarrow> bus_wf (fst (bus_Subscribe n b))"
  using bus_wf_fresh [of b]
  by (auto simp: bus_Subscribe_def Let_def bus_wf_def sub_open_def sub_bounded_def split: if_splits)
    (fastforce)+

lemma bus_SubscribeFunc_wf: "bus_wf b \<Longrightarrow> bus_wf (fst (bus_SubscribeFunc f b))"
  using bus_wf_fresh [of b]
  by (auto simp: bus_SubscribeFunc_def Let_def bus_wf_def sub_open_def sub_bounded_def split: if_splits)
    (fastforce)+

lemma sub_Close_wf: "bus_wf b \<Longrightarrow> sub_Close sid b = Some b' \<Longrightarrow> bus_wf b'"
  by (auto simp: sub_Close_def bus_wf_def sub_open_def sub_bounded_def distinct_removeAll
      split: option.splits if_splits)

lemma sub_Close_attached: "bus_wf b \<Longrightarrow> sid \<in> set (b_subs b) \<Longrightarrow> \<exists>b'. sub_Close sid b = Some b'"
  by (fastforce simp: bus_wf_def sub_open_def sub_Close_def split: option.splits)

lemma sub_CloseAll_ok:
  assumes "gm_wf (b_store b)" "distinct sids"
    and "\<forall>sid \<in> set sids. \<exists>s. map_of (b_store b) sid = Some s \<and> sub_open s"
  shows "\<exists>b'. sub_CloseAll sids b = Some b'"
  using assms
proof (induction sids arbitrary: b)
  case (Cons sid sids)
  then obtain s where s: "map_of (b_store b) sid = Some s" "sub_open s" by auto
  then obtain b1 where b1: "sub_Close sid b = Some b1"
    and st: "b_store b1 = AList.update sid (s\<lparr>s_once := True, s_closed := True,
        s_ch := map_option (\<lambda>ch. ch\<lparr>ch_closed := True\<rparr>) (s_ch s)\<rparr>) (b_store b)"
    by (cases "s_ch s") (auto simp: sub_Close_def sub_open_def)
  have "\<exists>b'. sub_CloseAll sids b1 = Some b'"
    by (rule Cons.IH) (use Cons.prems st in auto)
  with b1 show ?case by simp
qed simp

lemma bus_Close_ok: "bus_wf b \<Longrightarrow> \<exists>b'. bus_Close b = Some b'"
  using sub_CloseAll_ok [of "b\<lparr>b_closed := True, b_subs := []\<rparr>" "b_subs b"]
  by (auto simp: bus_Close_def bus_wf_def)

lemma sub_CloseAll_wf: "bus_wf b \<Longrightarrow> sub_CloseAll sids b = Some b' \<Longrightarrow> bus_wf b'"
  by (induction sids arbitrary: b) (auto dest: sub_Close_wf split: option.splits)

lemma bus_Close_wf: "bus_wf b \<Longrightarrow> bus_Close b = Some b' \<Longrightarrow> bus_wf b'"
  by (rule sub_CloseAll_wf [of "b\<lparr>b_closed := True, b_subs := []\<rparr>" "b_subs b"])
    (auto simp: bus_Close_def bus_wf_def split: if_splits)

section \<open>Delivery\<close>

text \<open>What one event does to one open subscription.\<close>

definition sub_take :: "event \<Rightarrow> subscription \<Rightarrow> subscription" where
  "sub_take e s =
    (case s_ch s of
       Some ch \<Rightarrow> if length (ch_buf ch) < ch_cap ch
                  then s\<lparr>s_ch := Some (ch\<lparr>ch_buf := ch_buf ch @ [e]\<rparr>)\<rparr> else s
     | None \<Rightarrow> if s_fn s then s\<lparr>s_calls := s_calls s @ [e]\<rparr> else s)"

definition sub_full :: "subscription \<Rightarrow> bool" where
  "sub_full s \<longleftrightarrow> (case s_ch s of Some ch \<Rightarrow> \<not> length (ch_buf ch) < ch_cap ch | None \<Rightarrow> False)"

definition bus_full :: "bus \<Rightarrow> nat \<Rightarrow> bool" where
  "bus_full b sid \<longleftrightarrow> (case map_of (b_store b) sid of Some s \<Rightarrow> sub_full s | None \<Rightarrow> False)"

lemma sub_take_open [simp]: "sub_open (sub_take e s) = sub_open s"
  by (auto simp: sub_take_def sub_open_def split: option.splits)

lemma sub_take_bounded: "sub_bounded s \<Longrightarrow> sub_bounded (sub_take e s)"
  by (auto simp: sub_take_def sub_bounded_def split: option.splits)

lemma bus_deliver1_open:
  assumes "map_of (b_store b) sid = Some s" "sub_open s"
  shows "\<exists>b'. bus_deliver1 e sid b = Some b'
    \<and> map_of (b_store b') = (map_of (b_store b))(sid \<mapsto> sub_take e s)
    \<and> (gm_wf (b_store b) \<longrightarrow> gm_wf (b_store b'))
    \<and> b_drops b' = b_drops b + (if sub_full s then 1 else 0)
    \<and> b_subs b' = b_subs b \<and> b_closed b' = b_closed b \<and> b_nextID b' = b_nextID b \<and> b_pubs b' = b_pubs b"
  using assms
  by (auto simp: bus_deliver1_def sub_take_def sub_full_def sub_open_def fun_eq_iff split: option.splits)

lemma bus_deliver_open:
  assumes "distinct sids" "\<forall>sid \<in> set sids. \<exists>s. map_of (b_store b) sid = Some s \<and> sub_open s"
  shows "\<exists>b'. bus_deliver e sids b = Some b'
    \<and> (\<forall>sid. map_of (b_store b') sid =
         (if sid \<in> set sids then map_option (sub_take e) (map_of (b_store b) sid) else map_of (b_store b) sid))
    \<and> (gm_wf (b_store b) \<longrightarrow> gm_wf (b_store b'))
    \<and> b_drops b' = b_drops b + length (filter (bus_full b) sids)
    \<and> b_subs b' = b_subs b \<and> b_closed b' = b_closed b \<and> b_nextID b' = b_nextID b \<and> b_pubs b' = b_pubs b"
  using assms
proof (induction sids arbitrary: b)
  case (Cons sid sids)
  obtain s where s: "map_of (b_store b) sid = Some s" "sub_open s" using Cons.prems(2) by auto
  obtain b1 where b1: "bus_deliver1 e sid b = Some b1"
      "map_of (b_store b1) = (map_of (b_store b))(sid \<mapsto> sub_take e s)"
      "gm_wf (b_store b) \<longrightarrow> gm_wf (b_store b1)"
      "b_drops b1 = b_drops b + (if sub_full s then 1 else 0)"
      "b_subs b1 = b_subs b" "b_closed b1 = b_closed b" "b_nextID b1 = b_nextID b" "b_pubs b1 = b_pubs b"
    using bus_deliver1_open [OF s, of e] by blast
  have fresh: "sid \<notin> set sids" and dist: "distinct sids" using Cons.prems(1) by auto
  have "\<forall>x \<in> set sids. \<exists>t. map_of (b_store b1) x = Some t \<and> sub_open t"
    using Cons.prems(2) fresh by (auto simp: b1(2))
  from Cons.IH [OF dist this] obtain b2 where b2: "bus_deliver e sids b1 = Some b2"
      "\<forall>x. map_of (b_store b2) x =
         (if x \<in> set sids then map_option (sub_take e) (map_of (b_store b1) x) else map_of (b_store b1) x)"
      "gm_wf (b_store b1) \<longrightarrow> gm_wf (b_store b2)"
      "b_drops b2 = b_drops b1 + length (filter (bus_full b1) sids)"
      "b_subs b2 = b_subs b1" "b_closed b2 = b_closed b1" "b_nextID b2 = b_nextID b1" "b_pubs b2 = b_pubs b1"
    by blast
  have "filter (bus_full b1) sids = filter (bus_full b) sids"
    using fresh by (intro filter_cong) (auto simp: bus_full_def b1(2))
  moreover have "bus_full b sid = sub_full s" by (simp add: bus_full_def s(1))
  ultimately show ?case using b1 b2 s fresh by auto
qed simp

lemma bus_Publish_open:
  assumes "bus_wf b"
  shows "\<exists>b'. bus_Publish e b = Some b'
    \<and> (\<forall>sid. map_of (b_store b') sid =
         (if sid \<in> set (b_subs b) then map_option (sub_take e) (map_of (b_store b) sid)
          else map_of (b_store b) sid))
    \<and> b_drops b' = b_drops b + length (filter (bus_full b) (b_subs b))
    \<and> b_subs b' = b_subs b \<and> b_pubs b' = Suc (b_pubs b) \<and> bus_wf b'"
proof -
  let ?b = "b\<lparr>b_pubs := Suc (b_pubs b)\<rparr>"
  have "distinct (b_subs b)" "\<forall>sid \<in> set (b_subs b). \<exists>s. map_of (b_store ?b) sid = Some s \<and> sub_open s"
    using assms by (auto simp: bus_wf_def)
  from bus_deliver_open [OF this, of e] obtain b' where b': "bus_deliver e (b_subs b) ?b = Some b'"
      "\<forall>sid. map_of (b_store b') sid =
         (if sid \<in> set (b_subs b) then map_option (sub_take e) (map_of (b_store b) sid)
          else map_of (b_store b) sid)"
      "gm_wf (b_store b) \<longrightarrow> gm_wf (b_store b')"
      "b_drops b' = b_drops b + length (filter (bus_full ?b) (b_subs b))"
      "b_subs b' = b_subs b" "b_closed b' = b_closed b" "b_nextID b' = b_nextID b"
      "b_pubs b' = Suc (b_pubs b)"
    by auto
  moreover have "bus_full ?b = bus_full b" by (simp add: fun_eq_iff bus_full_def)
  moreover have "bus_wf b'"
    using assms b' by (auto simp: bus_wf_def intro: sub_take_bounded)
  ultimately show ?thesis by (auto simp: bus_Publish_def bus_snapshot_def)
qed


definition ex_bus :: bus where
  "ex_bus = fst (bus_Subscribe 1 (fst (bus_SubscribeFunc True bus_New)))"

lemma ex_bus_wf: "bus_wf ex_bus"
  unfolding ex_bus_def by (intro bus_Subscribe_wf bus_SubscribeFunc_wf bus_New_wf)


section \<open>Ordering: each subscriber sees a subsequence of what was published\<close>

text \<open>
  Runs of the bus: \<open>bus_run b pubs got\<close> says that \<open>b\<close> was reached from a new bus by
  operations of publishers, subscribers and consumers, in which the events \<open>pubs\<close> were
  published in this order and the consumer of subscription \<open>sid\<close> took the events
  \<open>got sid\<close> in this order.
\<close>

inductive bus_run :: "bus \<Rightarrow> event list \<Rightarrow> (nat \<Rightarrow> event list) \<Rightarrow> bool" where
  run_new: "bus_run bus_New [] (\<lambda>_. [])"
| run_publish: "bus_run b pubs got \<Longrightarrow> bus_Publish e b = Some b' \<Longrightarrow> bus_run b' (pubs @ [e]) got"
| run_subscribe: "bus_run b pubs got \<Longrightarrow> bus_run (fst (bus_Subscribe n b)) pubs got"
| run_subscribe_func: "bus_run b pubs got \<Longrightarrow> bus_run (fst (bus_SubscribeFunc f b)) pubs got"
| run_close: "bus_run b pubs got \<Longrightarrow> sub_Close sid b = Some b' \<Longrightarrow> bus_run b' pubs got"
| run_close_bus: "bus_run b pubs got \<Longrightarrow> bus_Close b = Some b' \<Longrightarrow> bus_run b' pubs got"
| run_recv: "bus_run b pubs got \<Longrightarrow> sub_recv sid b = Some (e, b')
     \<Longrightarrow> bus_run b' pubs (got(sid := got sid @ [e]))"

definition bus_buffered :: "bus \<Rightarrow> nat \<Rightarrow> event list" where
  "bus_buffered b sid =
    (case map_of (b_store b) sid of
       Some s \<Rightarrow> (case s_ch s of Some ch \<Rightarrow> ch_buf ch | None \<Rightarrow> [])
     | None \<Rightarrow> [])"

lemma sub_take_buffered:
  "(case s_ch (sub_take e s) of Some ch \<Rightarrow> ch_buf ch | None \<Rightarrow> [])
     \<in> {case s_ch s of Some ch \<Rightarrow> ch_buf ch | None \<Rightarrow> [],
        (case s_ch s of Some ch \<Rightarrow> ch_buf ch | None \<Rightarrow> []) @ [e]}"
  by (auto simp: sub_take_def split: option.splits)

lemma bus_Publish_buffered:
  assumes "bus_wf b" "bus_Publish e b = Some b'"
  shows "bus_buffered b' sid = bus_buffered b sid \<or> bus_buffered b' sid = bus_buffered b sid @ [e]"
proof -
  have "map_of (b_store b') sid =
     (if sid \<in> set (b_subs b) then map_option (sub_take e) (map_of (b_store b) sid)
      else map_of (b_store b) sid)"
    using bus_Publish_open [OF assms(1), of e] assms(2) by auto
  then show ?thesis
    using sub_take_buffered [of e] by (auto simp: bus_buffered_def split: option.splits)
qed

lemma bus_Subscribe_buffered:
  "bus_wf b \<Longrightarrow> bus_buffered (fst (bus_Subscribe n b)) sid = bus_buffered b sid"
  "bus_wf b \<Longrightarrow> bus_buffered (fst (bus_SubscribeFunc f b)) sid = bus_buffered b sid"
  by (fastforce simp: bus_Subscribe_def bus_SubscribeFunc_def Let_def bus_buffered_def bus_wf_def
      split: option.splits)+

lemma sub_Close_buffered: "sub_Close t b = Some b' \<Longrightarrow> bus_buffered b' sid = bus_buffered b sid"
  by (auto simp: sub_Close_def bus_buffered_def split: option.splits if_splits)

lemma sub_CloseAll_buffered: "sub_CloseAll ts b = Some b' \<Longrightarrow> bus_buffered b' sid = bus_buffered b sid"
  by (induction ts arbitrary: b) (auto simp: sub_Close_buffered split: option.splits)

lemma bus_Close_buffered: "bus_Close b = Some b' \<Longrightarrow> bus_buffered b' sid = bus_buffered b sid"
  by (auto simp: bus_Close_def bus_buffered_def dest!: sub_CloseAll_buffered [where sid = sid]
      split: if_splits)

lemma bus_wf_store:
  assumes "bus_wf b" "map_of (b_store b) t = Some s" "sub_open s \<Longrightarrow> sub_open s'" "sub_bounded s'"
  shows "bus_wf (b\<lparr>b_store := AList.update t s' (b_store b)\<rparr>)"
  using assms by (fastforce simp: bus_wf_def)

lemma sub_recv_buffered:
  assumes "sub_recv t b = Some (e, b')"
  shows "bus_buffered b t = e # bus_buffered b' t" "sid \<noteq> t \<Longrightarrow> bus_buffered b' sid = bus_buffered b sid"
  using assms by (auto simp: sub_recv_def bus_buffered_def split: option.splits list.splits)

lemma sub_recv_wf:
  assumes "sub_recv t b = Some (e, b')" "bus_wf b"
  shows "bus_wf b'"
proof -
  obtain s ch es where s: "map_of (b_store b) t = Some s" "s_ch s = Some ch" "ch_buf ch = e # es"
    and b': "b' = b\<lparr>b_store := AList.update t (s\<lparr>s_ch := Some (ch\<lparr>ch_buf := es\<rparr>)\<rparr>) (b_store b)\<rparr>"
    using assms(1) by (auto simp: sub_recv_def split: option.splits list.splits)
  have "sub_bounded s" using assms(2) s(1) by (simp add: bus_wf_def)
  then show ?thesis unfolding b'
    by (intro bus_wf_store [OF assms(2) s(1)]) (use s in \<open>auto simp: sub_open_def sub_bounded_def\<close>)
qed

lemma bus_run_inv: "bus_run b pubs got \<Longrightarrow> bus_wf b \<and> subseq (got sid @ bus_buffered b sid) pubs"
proof (induction rule: bus_run.induct)
  case run_new
  then show ?case using bus_New_wf by (simp add: bus_buffered_def bus_New_def)
next
  case (run_publish b pubs got e b')
  have "bus_wf b'" using run_publish bus_Publish_open [of b e] by auto
  moreover have "subseq (got sid @ bus_buffered b' sid) (pubs @ [e])"
    using run_publish bus_Publish_buffered [of b e b' sid]
    by (auto simp flip: append_assoc intro: subseq_rev_drop_many list_emb_append_mono)
  ultimately show ?case by blast
next
  case (run_recv b pubs got t e b')
  then show ?case
    using sub_recv_buffered(1) [OF run_recv.hyps(2)] sub_recv_buffered(2) [OF run_recv.hyps(2), of sid] sub_recv_wf [OF run_recv.hyps(2)]
    by (cases "sid = t") auto
qed (auto simp: bus_Subscribe_buffered sub_Close_buffered bus_Close_buffered
    intro: bus_Subscribe_wf bus_SubscribeFunc_wf sub_Close_wf bus_Close_wf)



section \<open>Races the bus does not exclude\<close>

text \<open>
  \<open>Publish\<close> delivers outside the lock: when a subscriber closes its handle between the
  snapshot and the send, the send hits a closed channel and panics in the publisher.
\<close>

lemma bus_deliver_closed:
  assumes "map_of (b_store b) sid = Some s" "s_ch s = Some ch" "ch_closed ch" "sid \<in> set sids"
  shows "bus_deliver e sids b = None"
  using assms
proof (induction sids arbitrary: b)
  case (Cons t sids)
  show ?case
  proof (cases "t = sid")
    case True
    then show ?thesis using Cons.prems by (simp add: bus_deliver1_def)
  next
    case False
    then have "map_of (b_store b') sid = Some s" if "bus_deliver1 e t b = Some b'" for b'
      using that Cons.prems(1) by (auto simp: bus_deliver1_def split: option.splits if_splits)
    then show ?thesis using Cons.IH Cons.prems False by (auto split: option.splits)
  qed
qed simp

lemma bus_publish_close_race:
  assumes "bus_wf b" "sid \<in> set (bus_snapshot b)"
    and s: "map_of (b_store b) sid = Some s" "s_ch s = Some ch" and c: "sub_Close sid b = Some b'"
  shows "bus_deliver e (bus_snapshot b) b' = None"
proof -
  have "sub_open s" using assms(1,2) s(1) by (auto simp: bus_wf_def bus_snapshot_def)
  then have "map_of (b_store b') sid =
      Some (s\<lparr>s_once := True, s_closed := True, s_ch := Some (ch\<lparr>ch_closed := True\<rparr>)\<rparr>)"
    using s c by (auto simp: sub_Close_def sub_open_def)
  then show ?thesis by (rule bus_deliver_closed) (use assms(2) in auto)
qed

text \<open>A handle obtained from a bus that is closed already panics when it is closed.\<close>

lemma bus_closed_subscribe_close_panics:
  assumes "b_closed b" "bus_Subscribe n b = (b', sid)"
  shows "sub_Close sid b' = None"
  using assms by (auto simp: bus_Subscribe_def sub_Close_def Let_def)

end
