(* ===== verification/KV_Store.thy ===== *)
theory KV_Store
  imports CPIP_Prelude
begin

text \<open>
  The contract of the key-value stores of the platform (the room repository, the distributed
  room registry): a lookup after a write sees the write, a lookup after a delete sees nothing,
  and other keys are untouched. Clients issue writes from independent goroutines, so the lemmas
  say how much of the order of the writes the final contents depend on: only the order among
  the writes to one key.
\<close>

datatype ('k, 'v) kv_op = Put 'v | Del 'k

fun kv_key :: "('v \<Rightarrow> 'k) \<Rightarrow> ('k, 'v) kv_op \<Rightarrow> 'k" where
  "kv_key key (Put v) = key v"
| "kv_key key (Del k) = k"

fun kv_exec :: "('v \<Rightarrow> 's \<Rightarrow> 's) \<Rightarrow> ('k \<Rightarrow> 's \<Rightarrow> 's) \<Rightarrow> ('k, 'v) kv_op \<Rightarrow> 's \<Rightarrow> 's" where
  "kv_exec put del (Put v) s = put v s"
| "kv_exec put del (Del k) s = del k s"

locale kv_store =
  fixes key :: "'v \<Rightarrow> 'k" and lookup :: "'s \<Rightarrow> 'k \<Rightarrow> 'v option"
    and put :: "'v \<Rightarrow> 's \<Rightarrow> 's" and del :: "'k \<Rightarrow> 's \<Rightarrow> 's"
  assumes lookup_put: "lookup (put v s) k = (if k = key v then Some v else lookup s k)"
    and lookup_del: "lookup (del k' s) k = (if k = k' then None else lookup s k)"
begin

lemma lookup_exec_other: "kv_key key x \<noteq> k \<Longrightarrow> lookup (kv_exec put del x s) k = lookup s k"
  by (cases x) (auto simp: lookup_put lookup_del)

lemma lookup_exec_cong:
  "lookup s k = lookup s' k \<Longrightarrow> lookup (kv_exec put del x s) k = lookup (kv_exec put del x s') k"
  by (cases x) (auto simp: lookup_put lookup_del)

lemma lookup_fold_cong:
  "lookup s k = lookup s' k \<Longrightarrow> lookup (fold (kv_exec put del) xs s) k = lookup (fold (kv_exec put del) xs s') k"
proof (induction xs arbitrary: s s')
  case (Cons x xs)
  show ?case using Cons.IH [OF lookup_exec_cong [OF Cons.prems]] by simp
qed simp

text \<open>The final value of a key depends on the operations on that key only.\<close>

lemma lookup_fold_filter:
  "lookup (fold (kv_exec put del) xs s) k = lookup (fold (kv_exec put del) (filter (\<lambda>x. kv_key key x = k) xs) s) k"
proof (induction xs arbitrary: s)
  case (Cons x xs)
  show ?case
  proof (cases "kv_key key x = k")
    case True
    then show ?thesis using Cons [of "kv_exec put del x s"] by simp
  next
    case False
    then have "lookup (fold (kv_exec put del) xs (kv_exec put del x s)) k = lookup (fold (kv_exec put del) xs s) k"
      by (intro lookup_fold_cong lookup_exec_other)
    then show ?thesis using Cons [of s] False by (simp only: fold_simps filter.simps if_False)
  qed
qed simp

lemma lookup_fold_order:
  assumes "filter (\<lambda>x. kv_key key x = k) xs = filter (\<lambda>x. kv_key key x = k) ys"
  shows "lookup (fold (kv_exec put del) xs s) k = lookup (fold (kv_exec put del) ys s) k"
  using lookup_fold_filter [of xs s k] lookup_fold_filter [of ys s k] assms by simp

lemma lookup_fold_snoc:
  "lookup (fold (kv_exec put del) (xs @ [x]) s) (kv_key key x) = (case x of Put v \<Rightarrow> Some v | Del k \<Rightarrow> None)"
  by (cases x) (simp_all add: lookup_put lookup_del)

text \<open>The last operation on a key wins.\<close>

lemma lookup_fold_last:
  assumes "\<forall>y\<in>set ys. kv_key key y \<noteq> kv_key key x"
  shows "lookup (fold (kv_exec put del) (xs @ x # ys) s) (kv_key key x) = (case x of Put v \<Rightarrow> Some v | Del k \<Rightarrow> None)"
proof -
  have "filter (\<lambda>y. kv_key key y = kv_key key x) ys = []" using assms by (simp add: filter_empty_conv)
  then have "lookup (fold (kv_exec put del) (xs @ x # ys) s) (kv_key key x)
      = lookup (fold (kv_exec put del) (xs @ [x]) s) (kv_key key x)"
    by (intro lookup_fold_order) (simp only: filter_append filter.simps append_Nil2)
  then show ?thesis by (simp only: lookup_fold_snoc)
qed

end

end
