(* ===== verification/Room_Manager.thy ===== *)
theory Room_Manager
  imports Room_Entity Room_Events KV_Store
begin

text \<open>
  The room subsystem around the entity: the registry (\<open>rooms/registry\<close>), the snapshot
  repository (\<open>rooms/storage\<close>), the membership manager (\<open>rooms/membership\<close>), the recovery
  tracker (\<open>rooms/recovery\<close>) and the top-level manager with its janitor (\<open>rooms/manager.go\<close>).

  The registry maps an id to a pointer; a mutation through the pointer is an update of the
  registered room. Every call of \<open>Publish\<close> appends to \<open>m_events\<close>: what the bus does with
  the sequence is the theory \<open>Room_Events\<close>. Persistence runs in goroutines, which the model
  collects in \<open>m_pending\<close>: the order they run in is the subject of \<open>Room_Persistence\<close>. Metrics and logging
  have no effect on the state and are left out.
\<close>

section \<open>Snapshots and the repository\<close>

record participant_snapshot =
  ps_UserID :: string
  ps_Role :: role
  ps_JoinedAt :: time
  ps_LastSeen :: time
  ps_Connected :: bool
  ps_Metadata :: metadata

record snapshot =
  sn_ID :: string
  sn_Name :: string
  sn_OwnerID :: string
  sn_State :: room_state
  sn_CreatedAt :: time
  sn_LastActivity :: time
  sn_Participants :: "participant_snapshot list"
  sn_MaxParticipants :: int
  sn_Visibility :: visibility
  sn_Metadata :: metadata

definition snapshot_of :: "room_view \<Rightarrow> snapshot" where
  "snapshot_of v = \<lparr>sn_ID = v_ID v, sn_Name = v_Name v, sn_OwnerID = v_OwnerID v, sn_State = v_State v,
     sn_CreatedAt = v_CreatedAt v, sn_LastActivity = v_LastActivity v,
     sn_Participants = map (\<lambda>p. \<lparr>ps_UserID = p_UserID p, ps_Role = p_Role p, ps_JoinedAt = p_JoinedAt p,
        ps_LastSeen = p_LastSeen p, ps_Connected = p_Connected p, ps_Metadata = p_Metadata p\<rparr>)
        (v_Participants v),
     sn_MaxParticipants = MaxParticipants (v_Config v), sn_Visibility = Visibility (v_Config v),
     sn_Metadata = v_Metadata v\<rparr>"

type_synonym repo = "(string, snapshot) gomap"

datatype repo_error = ErrNotFound | ErrContext

text \<open>\<open>cancelled\<close> is \<open>ctx.Err() != nil\<close>; copies (\<open>cloneSnapshot\<close>) are values here.\<close>

definition repo_Save :: "bool \<Rightarrow> snapshot \<Rightarrow> repo \<Rightarrow> repo_error + repo" where
  "repo_Save cancelled snap m =
    (if cancelled then Inl ErrContext else Inr (AList.update (sn_ID snap) snap m))"

definition repo_Load :: "bool \<Rightarrow> string \<Rightarrow> repo \<Rightarrow> repo_error + snapshot" where
  "repo_Load cancelled rid m =
    (if cancelled then Inl ErrContext
     else case map_of m rid of None \<Rightarrow> Inl ErrNotFound | Some snap \<Rightarrow> Inr snap)"

definition repo_Delete :: "bool \<Rightarrow> string \<Rightarrow> repo \<Rightarrow> repo_error + repo" where
  "repo_Delete cancelled rid m =
    (if cancelled then Inl ErrContext
     else case map_of m rid of None \<Rightarrow> Inl ErrNotFound | Some _ \<Rightarrow> Inr (AList.delete rid m))"

definition repo_List :: "bool \<Rightarrow> repo \<Rightarrow> repo_error + snapshot list" where
  "repo_List cancelled m = (if cancelled then Inl ErrContext else Inr (map snd m))"

text \<open>The goroutines the manager spawns, as operations on the store keyed by the snapshot's id.\<close>

type_synonym repo_op = "(string, snapshot) kv_op"

section \<open>Manager state\<close>

record manager_config =
  DefaultMaxParticipants :: int
  DefaultIdleTimeout :: duration
  DefaultExpireTimeout :: duration
  DefaultRecoveryTimeout :: duration
  CleanupInterval :: duration

definition manager_config_Default :: manager_config where
  "manager_config_Default = \<lparr>DefaultMaxParticipants = 100, DefaultIdleTimeout = 5 * Minute,
     DefaultExpireTimeout = 10 * Minute, DefaultRecoveryTimeout = 1 * Minute,
     CleanupInterval = 30 * Second\<rparr>"

record room_manager =
  m_cfg :: manager_config
  m_rooms :: "(string, room) gomap"
  m_events :: "event list"
  m_hasRepo :: bool
  m_pending :: "repo_op list"

definition manager_New :: "manager_config \<Rightarrow> bool \<Rightarrow> room_manager" where
  "manager_New cfg hasRepo = \<lparr>m_cfg = cfg, m_rooms = [], m_events = [], m_hasRepo = hasRepo, m_pending = []\<rparr>"

definition m_publish :: "event \<Rightarrow> room_manager \<Rightarrow> room_manager" where
  "m_publish e m = m\<lparr>m_events := m_events m @ [e]\<rparr>"

definition m_set_room :: "string \<Rightarrow> room \<Rightarrow> room_manager \<Rightarrow> room_manager" where
  "m_set_room rid r m = m\<lparr>m_rooms := AList.update rid r (m_rooms m)\<rparr>"

subsection \<open>Registry\<close>

definition reg_Register :: "room \<Rightarrow> room_manager \<Rightarrow> room_error + room_manager" where
  "reg_Register r m =
    (case map_of (m_rooms m) (r_id r) of
       Some _ \<Rightarrow> Inl ErrRoomExists
     | None \<Rightarrow> Inr (m_set_room (r_id r) r m))"

definition reg_Deregister :: "string \<Rightarrow> room_manager \<Rightarrow> room_error + room_manager \<times> room" where
  "reg_Deregister rid m =
    (case map_of (m_rooms m) rid of
       None \<Rightarrow> Inl ErrRoomNotFound
     | Some r \<Rightarrow> Inr (m\<lparr>m_rooms := AList.delete rid (m_rooms m)\<rparr>, r))"

definition reg_Get :: "string \<Rightarrow> room_manager \<Rightarrow> room option" where
  "reg_Get rid m = map_of (m_rooms m) rid"

definition reg_List :: "room_manager \<Rightarrow> room list" where
  "reg_List m = map snd (m_rooms m)"

definition reg_FindByName :: "string \<Rightarrow> room_manager \<Rightarrow> room list" where
  "reg_FindByName nm m = filter (\<lambda>r. r_name r = nm) (map snd (m_rooms m))"

definition reg_Len :: "room_manager \<Rightarrow> nat" where
  "reg_Len m = length (m_rooms m)"

subsection \<open>Membership\<close>

definition saveRoomSnapshot :: "room \<Rightarrow> room_manager \<Rightarrow> room_manager" where
  "saveRoomSnapshot r m =
    (if \<not> m_hasRepo m then m
     else m\<lparr>m_pending := m_pending m @ [Put (snapshot_of (room_View r))]\<rparr>)"

definition ev_state_changed :: "string \<Rightarrow> string \<Rightarrow> room_state \<Rightarrow> room_state \<Rightarrow> time \<Rightarrow> event" where
  "ev_state_changed roomID actorID from to now =
     (mk_event StateChanged roomID now)\<lparr>e_ActorID := actorID, e_From := from, e_To := to\<rparr>"

definition memb_Join ::
  "string \<Rightarrow> join_request \<Rightarrow> time \<Rightarrow> room_manager \<Rightarrow> room_manager \<times> (room_error + join_result)" where
  "memb_Join roomID req now m =
    (case reg_Get roomID m of
       None \<Rightarrow> (m, Inl ErrRoomNotFound)
     | Some r \<Rightarrow>
         (case room_Join req now r of
            Inl e \<Rightarrow> (m, Inl e)
          | Inr (r', res) \<Rightarrow>
              let m = m_set_room roomID r' m;
                  m = (if jr_Reconnected res
                       then m_publish ((mk_event RoomRecovered roomID now)
                              \<lparr>e_ActorID := jq_UserID req, e_Role := p_Role (jr_Participant res)\<rparr>) m
                       else m_publish ((mk_event UserJoined roomID now)
                              \<lparr>e_ActorID := jq_UserID req, e_Role := p_Role (jr_Participant res)\<rparr>) m);
                  m = (if jr_StateChanged res
                       then m_publish (ev_state_changed roomID (jq_UserID req)
                              (jr_PreviousState res) (jr_NewState res) now) m
                       else m)
              in (saveRoomSnapshot r' m, Inr res)))"

definition memb_Leave ::
  "string \<Rightarrow> string \<Rightarrow> time \<Rightarrow> room_manager \<Rightarrow> room_manager \<times> (room_error + leave_result)" where
  "memb_Leave roomID userID now m =
    (case reg_Get roomID m of
       None \<Rightarrow> (m, Inl ErrRoomNotFound)
     | Some r \<Rightarrow>
         (case room_Leave userID now r of
            Inl e \<Rightarrow> (m, Inl e)
          | Inr (r', res) \<Rightarrow>
              let m = m_set_room roomID r' m;
                  m = m_publish ((mk_event UserLeft roomID now)
                        \<lparr>e_ActorID := userID, e_Role := p_Role (lr_Participant res), e_Reason := ''voluntary''\<rparr>) m;
                  m = (if lr_StateChanged res
                       then m_publish (ev_state_changed roomID userID
                              (lr_PreviousState res) (lr_NewState res) now) m
                       else m)
              in (saveRoomSnapshot r' m, Inr res)))"

definition memb_Kick ::
  "string \<Rightarrow> string \<Rightarrow> string \<Rightarrow> time \<Rightarrow> room_manager \<Rightarrow> room_manager \<times> (room_error + leave_result)" where
  "memb_Kick roomID actorID targetID now m =
    (case reg_Get roomID m of
       None \<Rightarrow> (m, Inl ErrRoomNotFound)
     | Some r \<Rightarrow>
         (case room_Remove actorID targetID now r of
            Inl e \<Rightarrow> (m, Inl e)
          | Inr (r', res) \<Rightarrow>
              let m = m_set_room roomID r' m;
                  m = m_publish ((mk_event UserLeft roomID now)
                        \<lparr>e_ActorID := actorID, e_TargetID := targetID,
                         e_Role := p_Role (lr_Participant res), e_Reason := ''kicked''\<rparr>) m;
                  m = (if lr_StateChanged res
                       then m_publish (ev_state_changed roomID actorID
                              (lr_PreviousState res) (lr_NewState res) now) m
                       else m)
              in (saveRoomSnapshot r' m, Inr res)))"

definition memb_TransferOwnership ::
  "string \<Rightarrow> string \<Rightarrow> string \<Rightarrow> time \<Rightarrow> room_manager \<Rightarrow> room_manager \<times> (room_error + transfer_result)" where
  "memb_TransferOwnership roomID actorID newOwnerID now m =
    (case reg_Get roomID m of
       None \<Rightarrow> (m, Inl ErrRoomNotFound)
     | Some r \<Rightarrow>
         (case room_TransferOwnership actorID newOwnerID now r of
            Inl e \<Rightarrow> (m, Inl e)
          | Inr (r', res) \<Rightarrow>
              let m = m_set_room roomID r' m;
                  m = m_publish ((mk_event OwnerChanged roomID now)
                        \<lparr>e_ActorID := actorID, e_TargetID := newOwnerID\<rparr>) m
              in (saveRoomSnapshot r' m, Inr res)))"

subsection \<open>Creation, connection state and explicit close\<close>

definition mgr_CreateRoom ::
  "string \<Rightarrow> string \<Rightarrow> string \<Rightarrow> room_config option \<Rightarrow> metadata \<Rightarrow> time \<Rightarrow> room_manager
   \<Rightarrow> room_manager \<times> (room_error + room)" where
  "mgr_CreateRoom rid nm ownerID customCfg meta now m =
    (let cfg = (case customCfg of
          None \<Rightarrow> \<lparr>MaxParticipants = DefaultMaxParticipants (m_cfg m),
                   IdleTimeout = DefaultIdleTimeout (m_cfg m),
                   ExpireTimeout = DefaultExpireTimeout (m_cfg m),
                   RecoveryTimeout = DefaultRecoveryTimeout (m_cfg m),
                   Visibility = VisibilityPrivate\<rparr>
        | Some c \<Rightarrow> c);
         r = room_New \<lparr>rp_ID = rid, rp_Name = nm, rp_OwnerID = ownerID, rp_Config = cfg,
               rp_Policy = policy_Default, rp_Metadata = meta, rp_OwnerSessionID = '''',
               rp_OwnerConnID = '''', rp_Now = now\<rparr>
     in case room_Transition StateWaiting now r of
          Inl e \<Rightarrow> (m, Inl e)
        | Inr r \<Rightarrow>
            (case reg_Register r m of
               Inl e \<Rightarrow> (m, Inl e)
             | Inr m \<Rightarrow>
                 let m = m_publish ((mk_event RoomCreated rid now)
                           \<lparr>e_ActorID := ownerID, e_Role := RoleOwner\<rparr>) m
                 in (saveRoomSnapshot r m, Inr r)))"

definition mgr_SetConnected ::
  "string \<Rightarrow> string \<Rightarrow> bool \<Rightarrow> string \<Rightarrow> string \<Rightarrow> time \<Rightarrow> room_manager \<Rightarrow> room_manager \<times> room_error option" where
  "mgr_SetConnected roomID userID connected connID sessionID now m =
    (case reg_Get roomID m of
       None \<Rightarrow> (m, Some ErrRoomNotFound)
     | Some r0 \<Rightarrow>
         (case room_SetConnected userID connected connID sessionID now r0 of (r, p, ok, nowEmpty) \<Rightarrow>
            if \<not> ok then (m, Some ErrParticipantNotFound)
            else
              let m = m_publish ((mk_event MembershipUpdated roomID now)
                        \<lparr>e_ActorID := userID, e_Role := p_Role p\<rparr>) m;
                  (r, evs) =
                    (if nowEmpty then
                       (if r_state r = StateActive
                        then (case room_Transition StateWaiting now r of
                                Inl _ \<Rightarrow> (r, [])
                              | Inr r' \<Rightarrow> (r', [ev_state_changed roomID '''' (r_state r) StateWaiting now]))
                        else (r, []))
                     else if connected then
                       (if r_state r \<noteq> StateActive
                        then (case room_Touch now r of (r', changed) \<Rightarrow>
                                (r', if changed
                                     then [mk_event RoomRecovered roomID now,
                                           ev_state_changed roomID '''' (r_state r) StateActive now]
                                     else []))
                        else (r, []))
                     else (r, []));
                  m = fold m_publish evs (m_set_room roomID r m)
              in (saveRoomSnapshot r m, None)))"

definition mgr_CloseRoom ::
  "string \<Rightarrow> string \<Rightarrow> time \<Rightarrow> room_manager \<Rightarrow> room_manager \<times> room_error option" where
  "mgr_CloseRoom roomID actorID now m =
    (case reg_Get roomID m of
       None \<Rightarrow> (m, Some ErrRoomNotFound)
     | Some r \<Rightarrow>
         (case room_authorize r actorID ActionCloseRoom of
            Some e \<Rightarrow> (m, Some e)
          | None \<Rightarrow>
              (case room_Transition StateClosed now r of
                 Inl e \<Rightarrow> (m, Some e)
               | Inr r' \<Rightarrow>
                   let m = m_publish ((mk_event RoomClosed roomID now)
                             \<lparr>e_ActorID := actorID, e_From := r_state r, e_To := StateClosed,
                              e_Reason := ''explicit''\<rparr>) (m_set_room roomID r' m)
                   in (saveRoomSnapshot r' m, None))))"

subsection \<open>The janitor\<close>

definition recovery_IsExpired :: "time \<Rightarrow> duration \<Rightarrow> time \<Rightarrow> bool" where
  "recovery_IsExpired lastSeen timeout now \<longleftrightarrow> lastSeen \<noteq> 0 \<and> now - lastSeen > timeout"

text \<open>One round of the eviction loop, for one member \<open>p\<close> of the snapshot \<open>Participants()\<close>.\<close>

definition cleanup_evict1 ::
  "duration \<Rightarrow> time \<Rightarrow> participant \<Rightarrow> room \<times> event list \<Rightarrow> room \<times> event list" where
  "cleanup_evict1 timeout now p st =
    (case st of (r, evs) \<Rightarrow>
       if \<not> p_Connected p \<and> recovery_IsExpired (p_LastSeen p) timeout now
       then (case room_Leave (p_UserID p) now r of
               Inl _ \<Rightarrow> (r, evs)
             | Inr (r', _) \<Rightarrow>
                 (r', evs @ [(mk_event UserLeft (r_id r) now)
                        \<lparr>e_ActorID := p_UserID p, e_Role := p_Role p, e_Reason := ''recovery_expired''\<rparr>]))
       else (r, evs))"

definition cleanup_evict :: "time \<Rightarrow> room \<Rightarrow> room \<times> event list" where
  "cleanup_evict now r =
    fold (cleanup_evict1 (RecoveryTimeout (r_cfg r)) now) (room_Participants r) (r, [])"

text \<open>
  \<open>if err := r.Transition(target, now); err == nil \{ publish the events; save \}\<close>
\<close>

definition cleanup_shift ::
  "room_state \<Rightarrow> time \<Rightarrow> event list \<Rightarrow> room \<Rightarrow> room_manager \<Rightarrow> room_manager" where
  "cleanup_shift target now evs r m =
    (case room_Transition target now r of
       Inl _ \<Rightarrow> m
     | Inr r' \<Rightarrow> saveRoomSnapshot r' (fold m_publish evs (m_set_room (r_id r) r' m)))"

definition cleanup_retention :: "manager_config \<Rightarrow> duration" where
  "cleanup_retention cfg =
    (let retention = DefaultRecoveryTimeout cfg
     in if retention > 1 * Minute then 1 * Minute
        else if retention < 5 * Millisecond then 5 * Millisecond
        else retention)"

definition ev_room_expired :: "string \<Rightarrow> room_state \<Rightarrow> time \<Rightarrow> event" where
  "ev_room_expired rid prev now =
     (mk_event RoomExpired rid now)\<lparr>e_From := prev, e_To := StateExpiring\<rparr>"

text \<open>The second half of \<open>cleanupRoom\<close>: the state transitions.\<close>

definition cleanup_states :: "room \<Rightarrow> time \<Rightarrow> room_manager \<Rightarrow> room_manager" where
  "cleanup_states r now m =
    (let cfg = r_cfg r; rid = r_id r; lastAct = r_lastActivity r; connCount = room_connectedCount r
     in case r_state r of
       StateActive \<Rightarrow>
         if connCount = 0 \<or> now - lastAct > IdleTimeout cfg
         then let target = (if connCount = 0 then StateWaiting else StateIdle)
              in cleanup_shift target now [ev_state_changed rid '''' StateActive target now] r m
         else m
     | StateWaiting \<Rightarrow>
         if now - lastAct > ExpireTimeout cfg
         then cleanup_shift StateExpiring now
                [ev_room_expired rid StateWaiting now,
                 ev_state_changed rid '''' StateWaiting StateExpiring now] r m
         else m
     | StateIdle \<Rightarrow>
         if connCount = 0
         then cleanup_shift StateWaiting now [ev_state_changed rid '''' StateIdle StateWaiting now] r m
         else if now - lastAct > ExpireTimeout cfg
         then cleanup_shift StateExpiring now
                [ev_room_expired rid StateIdle now,
                 ev_state_changed rid '''' StateIdle StateExpiring now] r m
         else m
     | StateExpiring \<Rightarrow>
         if now - lastAct > ExpireTimeout cfg
         then cleanup_shift StateClosed now
                [(mk_event RoomClosed rid now)\<lparr>e_From := StateExpiring, e_To := StateClosed,
                   e_Reason := ''idle_timeout''\<rparr>] r m
         else m
     | StateClosed \<Rightarrow>
         if now - lastAct > cleanup_retention (m_cfg m)
         then (case room_Transition StateDestroyed now r of
                 Inl _ \<Rightarrow> m
               | Inr r' \<Rightarrow>
                   let m = m_publish ((mk_event RoomDestroyed rid now)
                             \<lparr>e_From := StateClosed, e_To := StateDestroyed\<rparr>) (m_set_room rid r' m);
                       m = (case reg_Deregister rid m of Inl _ \<Rightarrow> m | Inr (m', _) \<Rightarrow> m')
                   in if m_hasRepo m then m\<lparr>m_pending := m_pending m @ [Del rid]\<rparr> else m)
         else m
     | _ \<Rightarrow> m)"

definition mgr_cleanupRoom :: "time \<Rightarrow> string \<Rightarrow> room_manager \<Rightarrow> room_manager" where
  "mgr_cleanupRoom now rid m =
    (case map_of (m_rooms m) rid of
       None \<Rightarrow> m
     | Some r0 \<Rightarrow>
         (case cleanup_evict now r0 of (r, evs) \<Rightarrow>
            cleanup_states r now (fold m_publish evs (m_set_room rid r m))))"

definition mgr_runCleanup :: "time \<Rightarrow> room_manager \<Rightarrow> room_manager" where
  "mgr_runCleanup now m = fold (mgr_cleanupRoom now) (map fst (m_rooms m)) m"

section \<open>The manager invariant\<close>

definition room_ok :: "string \<Rightarrow> room \<Rightarrow> bool" where
  "room_ok rid r \<longleftrightarrow> r_id r = rid \<and> room_wf r \<and> r_state r \<noteq> StateCreated \<and> r_state r \<noteq> StateDestroyed
     \<and> (r_state r = StateActive \<longrightarrow> 0 < room_connectedCount r)"

definition mgr_wf :: "room_manager \<Rightarrow> bool" where
  "mgr_wf m \<longleftrightarrow> gm_wf (m_rooms m) \<and> (\<forall>rid r. map_of (m_rooms m) rid = Some r \<longrightarrow> room_ok rid r)"

lemma m_publish_fields [simp]:
  "m_rooms (m_publish e m) = m_rooms m" "m_cfg (m_publish e m) = m_cfg m"
  "m_hasRepo (m_publish e m) = m_hasRepo m" "m_pending (m_publish e m) = m_pending m"
  "m_events (m_publish e m) = m_events m @ [e]"
  by (simp_all add: m_publish_def)

lemma fold_m_publish_fields [simp]:
  "m_rooms (fold m_publish evs m) = m_rooms m" "m_cfg (fold m_publish evs m) = m_cfg m"
  "m_hasRepo (fold m_publish evs m) = m_hasRepo m" "m_pending (fold m_publish evs m) = m_pending m"
  "m_events (fold m_publish evs m) = m_events m @ evs"
  by (induction evs arbitrary: m) simp_all

lemma saveRoomSnapshot_fields [simp]:
  "m_rooms (saveRoomSnapshot r m) = m_rooms m" "m_cfg (saveRoomSnapshot r m) = m_cfg m"
  "m_hasRepo (saveRoomSnapshot r m) = m_hasRepo m" "m_events (saveRoomSnapshot r m) = m_events m"
  by (simp_all add: saveRoomSnapshot_def)

lemma m_set_room_fields [simp]:
  "m_rooms (m_set_room rid r m) = AList.update rid r (m_rooms m)" "m_cfg (m_set_room rid r m) = m_cfg m"
  "m_hasRepo (m_set_room rid r m) = m_hasRepo m" "m_events (m_set_room rid r m) = m_events m"
  "m_pending (m_set_room rid r m) = m_pending m"
  by (simp_all add: m_set_room_def)

lemma mgr_wf_New: "mgr_wf (manager_New cfg hasRepo)"
  by (simp add: mgr_wf_def manager_New_def)

lemma mgr_wf_Get: "mgr_wf m \<Longrightarrow> map_of (m_rooms m) rid = Some r \<Longrightarrow> room_ok rid r"
  by (simp add: mgr_wf_def)

text \<open>An operation that replaces one room by an acceptable one keeps the invariant.\<close>

lemma mgr_wf_set: "mgr_wf m \<Longrightarrow> room_ok rid r \<Longrightarrow> m_rooms m' = AList.update rid r (m_rooms m) \<Longrightarrow> mgr_wf m'"
  by (auto simp: mgr_wf_def)

lemma mgr_wf_same: "mgr_wf m \<Longrightarrow> m_rooms m' = m_rooms m \<Longrightarrow> mgr_wf m'"
  by (simp add: mgr_wf_def)

lemma mgr_wf_delete: "mgr_wf m \<Longrightarrow> m_rooms m' = AList.delete rid (m_rooms m) \<Longrightarrow> mgr_wf m'"
  by (auto simp: mgr_wf_def split: if_splits)

subsection \<open>Room operations keep an acceptable room acceptable\<close>

lemma room_ok_frame: "room_ok rid r \<Longrightarrow> room_frame r r' \<Longrightarrow> r_id r' = rid"
  by (simp add: room_ok_def room_frame_def)

lemma room_path_not_Created: "room_path a b \<Longrightarrow> a \<noteq> StateCreated \<Longrightarrow> b \<noteq> StateCreated"
proof (induction rule: room_path.induct)
  case (path_step a b c)
  then show ?case by (cases b) (auto simp: room_Validate_None_iff)
qed simp

lemma room_ok_step:
  assumes "room_ok rid r" "room_wf r' \<and> room_frame r r'" "r_state r' \<noteq> StateDestroyed"
    and "r_state r' = StateActive \<Longrightarrow> 0 < room_connectedCount r'"
  shows "room_ok rid r'"
  using assms room_path_not_Created [of "r_state r" "r_state r'"]
  by (auto simp: room_ok_def room_frame_def)

lemma room_Join_ok:
  assumes ok: "room_ok rid r" and j: "room_Join req now r = Inr (r', res)"
  shows "room_ok rid r'"
proof (rule room_ok_step [OF ok])
  have wf: "room_wf r" using ok by (simp add: room_ok_def)
  note W = room_Join_wf [OF wf j]
  show "room_wf r' \<and> room_frame r r'" "r_state r' \<noteq> StateDestroyed" using W by auto
  have "map_of (r_participants r') (jq_UserID req) = Some (room_joined req now r)"
    by (simp add: room_Join_Inr(1) [OF j])
  then show "0 < room_connectedCount r'"
    unfolding room_connectedCount_def by (rule gm_count_pos) simp
qed

lemma room_remove_ok:
  assumes ok: "room_ok rid r" and rm: "room_remove u now r = Inr (r', res)"
  shows "room_ok rid r'"
proof (rule room_ok_step [OF ok])
  have wf: "room_wf r" using ok by (simp add: room_ok_def)
  show "room_wf r' \<and> room_frame r r'" by (rule room_remove_wf [OF wf rm])
  show "r_state r' \<noteq> StateDestroyed" using ok room_remove_Inr(5) [OF rm] by (simp add: room_ok_def)
  show "0 < room_connectedCount r'" if "r_state r' = StateActive"
    using that room_remove_Inr(5) [OF rm] by (auto split: if_splits)
qed

lemma room_Transfer_ok:
  assumes ok: "room_ok rid r" and t: "room_TransferOwnership actor new now r = Inr (r', res)"
  shows "room_ok rid r'"
proof (rule room_ok_step [OF ok])
  have wf: "room_wf r" using ok by (simp add: room_ok_def)
  show W: "room_wf r' \<and> room_frame r r'" by (rule room_Transfer_wf [OF wf t])
  show "r_state r' \<noteq> StateDestroyed" using ok room_Transfer_Inr [OF t] by (auto simp: room_ok_def)
  show "0 < room_connectedCount r'" if "r_state r' = StateActive"
  proof -
    have "0 < room_connectedCount r" using ok that room_Transfer_Inr [OF t] by (auto simp: room_ok_def)
    then obtain u p where p: "map_of (r_participants r) u = Some p" "p_Connected p"
      using room_connectedCount_0 [OF wf] by auto
    then have "\<exists>q. map_of (r_participants r') u = Some q \<and> p_Connected q"
      using room_Transfer_Inr [OF t] by (auto split: option.splits)
    then show ?thesis by (auto simp: room_connectedCount_def intro: gm_count_pos)
  qed
qed

lemma room_transition_ok:
  assumes ok: "room_ok rid r" and t: "room_Transition to now r = Inr r'"
    and "to \<noteq> StateDestroyed" and "to = StateActive \<Longrightarrow> 0 < room_connectedCount r"
  shows "room_ok rid r'"
proof (rule room_ok_step [OF ok])
  note T = room_transition_Inr [OF t [unfolded room_Transition_def]]
  show "room_wf r' \<and> room_frame r r'" "r_state r' \<noteq> StateDestroyed"
    using T ok assms(3) by (auto simp: room_ok_def)
  show "0 < room_connectedCount r'" if "r_state r' = StateActive"
    using T assms(4) that by (auto simp: room_connectedCount_def)
qed

subsection \<open>Every operation of the manager keeps the invariant\<close>

text \<open>
  The shape of every operation on a registered room: it leaves the registry alone, or replaces
  the room \<open>rid\<close> by the result of a room operation \<open>R\<close> that keeps rooms acceptable.
\<close>

lemma mgr_wf_room_op:
  assumes "mgr_wf m" and "\<And>r r'. room_ok rid r \<Longrightarrow> R r r' \<Longrightarrow> room_ok rid r'"
    and "m_rooms m' = m_rooms m
      \<or> (\<exists>r r'. map_of (m_rooms m) rid = Some r \<and> R r r' \<and> m_rooms m' = AList.update rid r' (m_rooms m))"
  shows "mgr_wf m'"
  using assms mgr_wf_set [of m rid _ m'] mgr_wf_same [of m m'] mgr_wf_Get [of m rid] by metis

lemmas memb_op_simps = reg_Get_def Let_def

lemma memb_Join_wf: "mgr_wf m \<Longrightarrow> mgr_wf (fst (memb_Join rid req now m))"
  by (rule mgr_wf_room_op [where rid = rid and R = "\<lambda>r r'. \<exists>res. room_Join req now r = Inr (r', res)"])
    (auto simp: memb_Join_def memb_op_simps dest: room_Join_ok split: option.splits sum.splits)

lemma memb_Leave_wf: "mgr_wf m \<Longrightarrow> mgr_wf (fst (memb_Leave rid u now m))"
  by (rule mgr_wf_room_op [where rid = rid and R = "\<lambda>r r'. \<exists>res. room_remove u now r = Inr (r', res)"])
    (auto simp: memb_Leave_def room_Leave_def memb_op_simps dest: room_remove_ok split: option.splits sum.splits)

lemma memb_Kick_wf: "mgr_wf m \<Longrightarrow> mgr_wf (fst (memb_Kick rid actor target now m))"
  by (rule mgr_wf_room_op [where rid = rid and R = "\<lambda>r r'. \<exists>res. room_Remove actor target now r = Inr (r', res)"])
    (auto simp: memb_Kick_def memb_op_simps dest: room_Remove_Inr(1) room_remove_ok split: option.splits sum.splits)

lemma memb_Transfer_wf: "mgr_wf m \<Longrightarrow> mgr_wf (fst (memb_TransferOwnership rid actor new now m))"
  by (rule mgr_wf_room_op [where rid = rid
        and R = "\<lambda>r r'. \<exists>res. room_TransferOwnership actor new now r = Inr (r', res)"])
    (auto simp: memb_TransferOwnership_def memb_op_simps dest: room_Transfer_ok split: option.splits sum.splits)

lemma mgr_CloseRoom_wf: "mgr_wf m \<Longrightarrow> mgr_wf (fst (mgr_CloseRoom rid actor now m))"
  by (rule mgr_wf_room_op [where rid = rid and R = "\<lambda>r r'. room_Transition StateClosed now r = Inr r'"])
    (auto simp: mgr_CloseRoom_def memb_op_simps dest: room_transition_ok split: option.splits sum.splits)

lemma room_New_Waiting:
  "\<exists>r. room_Transition StateWaiting now (room_New ps) = Inr r \<and> room_ok (rp_ID ps) r"
proof -
  have v: "room_Validate StateCreated StateWaiting = None" by (simp add: room_Validate_None_iff)
  then obtain r where r: "room_Transition StateWaiting now (room_New ps) = Inr r"
    by (simp add: room_Transition_def room_transition_def room_New_def Let_def)
  note T = room_transition_Inr [OF r [unfolded room_Transition_def]]
  have "room_ok (rp_ID ps) r"
    using T room_New_wf [of ps] by (auto simp: room_ok_def room_frame_def room_New_def Let_def)
  with r show ?thesis by blast
qed

lemma mgr_CreateRoom_wf: "mgr_wf m \<Longrightarrow> mgr_wf (fst (mgr_CreateRoom rid nm own cfg meta now m))"
proof -
  assume m: "mgr_wf m"
  define ps where "ps = \<lparr>rp_ID = rid, rp_Name = nm, rp_OwnerID = own,
      rp_Config = (case cfg of
          None \<Rightarrow> \<lparr>MaxParticipants = DefaultMaxParticipants (m_cfg m),
                   IdleTimeout = DefaultIdleTimeout (m_cfg m), ExpireTimeout = DefaultExpireTimeout (m_cfg m),
                   RecoveryTimeout = DefaultRecoveryTimeout (m_cfg m), Visibility = VisibilityPrivate\<rparr>
        | Some c \<Rightarrow> c),
      rp_Policy = policy_Default, rp_Metadata = meta, rp_OwnerSessionID = '''', rp_OwnerConnID = '''', rp_Now = now\<rparr>"
  obtain r where r: "room_Transition StateWaiting now (room_New ps) = Inr r" "room_ok rid r"
    using room_New_Waiting [of now ps] by (auto simp: ps_def)
  have "fst (mgr_CreateRoom rid nm own cfg meta now m) =
     (case map_of (m_rooms m) rid of
        Some _ \<Rightarrow> m
      | None \<Rightarrow> saveRoomSnapshot r (m_publish ((mk_event RoomCreated rid now)
                  \<lparr>e_ActorID := own, e_Role := RoleOwner\<rparr>) (m_set_room rid r m)))"
    using r by (simp add: mgr_CreateRoom_def Let_def reg_Register_def room_ok_def flip: ps_def
        split: option.split)
  then show ?thesis
    using m mgr_wf_set [OF m r(2)] by (auto split: option.splits)
qed

text \<open>The room \<open>SetConnected\<close> stores: the entity's result, then the fall to \<open>Waiting\<close> or the touch.\<close>

definition room_set_connected :: "string \<Rightarrow> bool \<Rightarrow> string \<Rightarrow> string \<Rightarrow> time \<Rightarrow> room \<Rightarrow> room" where
  "room_set_connected u c conn sess now r0 =
    (case room_SetConnected u c conn sess now r0 of (r, p, ok, nowEmpty) \<Rightarrow>
       if nowEmpty \<and> r_state r = StateActive
       then (case room_Transition StateWaiting now r of Inl _ \<Rightarrow> r | Inr r' \<Rightarrow> r')
       else if \<not> nowEmpty \<and> c \<and> r_state r \<noteq> StateActive then fst (room_Touch now r) else r)"

lemma mgr_SetConnected_rooms:
  "m_rooms (fst (mgr_SetConnected rid u c conn sess now m)) =
    (case map_of (m_rooms m) rid of
       None \<Rightarrow> m_rooms m
     | Some r \<Rightarrow> if gm_has (r_participants r) u
                then AList.update rid (room_set_connected u c conn sess now r) (m_rooms m) else m_rooms m)"
proof (cases "map_of (m_rooms m) rid")
  case (Some r0)
  obtain r p ok ne where s: "room_SetConnected u c conn sess now r0 = (r, p, ok, ne)"
    by (metis prod_cases4)
  show ?thesis
    using room_SetConnected_cases(1) [OF s]
    by (auto simp: mgr_SetConnected_def room_set_connected_def reg_Get_def Some s Let_def
        split: sum.splits prod.splits)
qed (simp add: mgr_SetConnected_def reg_Get_def)

lemma room_set_connected_ok:
  assumes ok: "room_ok rid r0" and mem: "gm_has (r_participants r0) u"
  shows "room_ok rid (room_set_connected u c conn sess now r0)"
proof -
  obtain r p k ne where s: "room_SetConnected u c conn sess now r0 = (r, p, k, ne)"
    by (metis prod_cases4)
  note S = room_SetConnected_cases [OF s]
  have wf: "room_wf r" using room_SetConnected_wf [OF _ s] ok by (simp add: room_ok_def)
  have k: "k" using S(1) mem by simp
  then have u: "map_of (r_participants r) u = Some p" "p_Connected p = c" using S(3) by auto
  have fr: "room_frame r0 r" by (rule S(7))
  have st: "r_state r \<noteq> StateCreated" "r_state r \<noteq> StateDestroyed" "r_id r = rid"
    using ok S(4) fr by (auto simp: room_ok_def room_frame_def)
  consider (fall) "ne" "r_state r = StateActive" | (touch) "\<not> ne" "c" "r_state r \<noteq> StateActive"
    | (stay) "\<not> (ne \<and> r_state r = StateActive)" "\<not> (\<not> ne \<and> c \<and> r_state r \<noteq> StateActive)" by blast
  then show ?thesis
  proof cases
    case fall
    then obtain r' where r': "room_Transition StateWaiting now r = Inr r'"
      by (simp add: room_Transition_def room_transition_def room_Validate_def room_CanTransition_iff)
    note T = room_transition_Inr [OF r' [unfolded room_Transition_def]]
    show ?thesis using T wf st fall s r' by (auto simp: room_set_connected_def room_ok_def room_frame_def)
  next
    case touch
    have "0 < room_connectedCount (fst (room_Touch now r))"
      using gm_count_pos [OF u(1)] u(2) touch by (simp add: room_connectedCount_def room_Touch_def)
    then show ?thesis
      using touch s st room_Touch_wf [OF wf, of now] room_Touch_frame [of r now]
        room_path_not_Created [of "r_state r"] room_driveActive_eq [of now "r\<lparr>r_lastActivity := now\<rparr>"]
      by (auto simp: room_set_connected_def room_ok_def room_frame_def room_Touch_def split: if_splits)
  next
    case stay
    have "0 < room_connectedCount r" if "r_state r = StateActive"
      using that stay S(6) [OF k] u gm_count_pos [OF u(1), of p_Connected]
      by (cases c) (auto simp: room_connectedCount_def)
    then show ?thesis using stay s wf st by (auto simp: room_set_connected_def room_ok_def)
  qed
qed

lemma mgr_SetConnected_wf: "mgr_wf m \<Longrightarrow> mgr_wf (fst (mgr_SetConnected rid u c conn sess now m))"
  by (rule mgr_wf_room_op [where rid = rid
        and R = "\<lambda>r r'. gm_has (r_participants r) u \<and> r' = room_set_connected u c conn sess now r"])
    (auto simp: mgr_SetConnected_rooms intro: room_set_connected_ok split: option.splits if_splits)

lemma cleanup_evict1_ok:
  "room_ok rid (fst st) \<Longrightarrow> room_ok rid (fst (cleanup_evict1 timeout now p st))"
  by (auto simp: cleanup_evict1_def room_Leave_def dest: room_remove_ok split: prod.splits sum.splits)

lemma cleanup_evict_ok: "room_ok rid r \<Longrightarrow> room_ok rid (fst (cleanup_evict now r))"
proof -
  have "room_ok rid (fst (fold (cleanup_evict1 t now) ps st))" if "room_ok rid (fst st)" for t ps st
    using that by (induction ps arbitrary: st) (simp_all add: cleanup_evict1_ok)
  then show "room_ok rid r \<Longrightarrow> ?thesis" by (simp add: cleanup_evict_def)
qed

lemma cleanup_shift_wf:
  "mgr_wf m \<Longrightarrow> room_ok rid r \<Longrightarrow> target \<noteq> StateDestroyed \<Longrightarrow> target \<noteq> StateActive
     \<Longrightarrow> mgr_wf (cleanup_shift target now evs r m)"
  using room_transition_ok [of rid r target now]
  by (auto simp: cleanup_shift_def room_ok_def intro: mgr_wf_set split: sum.splits)

lemma cleanup_states_Closed:
  assumes "r_state r = StateClosed"
  shows "m_rooms (cleanup_states r now m) =
    (if now - r_lastActivity r > cleanup_retention (m_cfg m) then AList.delete (r_id r) (m_rooms m) else m_rooms m)"
  using assms
  by (auto simp: cleanup_states_def Let_def reg_Deregister_def room_Transition_def room_transition_def
      room_Validate_def room_CanTransition_iff delete_update_same)

lemma cleanup_states_wf: "mgr_wf m \<Longrightarrow> room_ok rid r \<Longrightarrow> mgr_wf (cleanup_states r now m)"
proof (cases "r_state r = StateClosed")
  case True
  assume "mgr_wf m"
  then show ?thesis
    using cleanup_states_Closed [OF True, of now m] mgr_wf_delete [of m] mgr_wf_same [of m]
    by (metis (full_types))
next
  case False
  assume "mgr_wf m" "room_ok rid r"
  then show ?thesis
    using cleanup_shift_wf [of m rid r] False
    by (cases "r_state r") (auto simp: cleanup_states_def Let_def)
qed

lemma mgr_cleanupRoom_wf: "mgr_wf m \<Longrightarrow> mgr_wf (mgr_cleanupRoom now rid m)"
proof (cases "map_of (m_rooms m) rid")
  case (Some r0)
  assume m: "mgr_wf m"
  obtain r evs where e: "cleanup_evict now r0 = (r, evs)" by (cases "cleanup_evict now r0")
  with cleanup_evict_ok [OF mgr_wf_Get [OF m Some], of now] have ok: "room_ok rid r" by simp
  have "mgr_wf (fold m_publish evs (m_set_room rid r m))" by (rule mgr_wf_set [OF m ok]) simp
  from cleanup_states_wf [OF this ok] show ?thesis by (simp add: mgr_cleanupRoom_def Some e)
qed (simp add: mgr_cleanupRoom_def)

lemma mgr_runCleanup_wf: "mgr_wf m \<Longrightarrow> mgr_wf (mgr_runCleanup now m)"
proof -
  have "mgr_wf (fold (mgr_cleanupRoom now) ks m)" if "mgr_wf m" for ks m
    using that by (induction ks arbitrary: m) (auto intro: mgr_cleanupRoom_wf)
  then show "mgr_wf m \<Longrightarrow> ?thesis" by (simp add: mgr_runCleanup_def)
qed

section \<open>Reachable managers\<close>

text \<open>
  Any sequence of calls, with any arguments and clock readings. The handlers run one after the
  other: each room call of the source holds the room's mutex, and a handler makes one such
  mutation (the janitor and \<open>SetConnected\<close>, which make several, are taken whole).
\<close>

inductive mgr_reachable :: "manager_config \<Rightarrow> bool \<Rightarrow> room_manager \<Rightarrow> bool" for cfg hasRepo where
  reach_New: "mgr_reachable cfg hasRepo (manager_New cfg hasRepo)"
| reach_Create: "mgr_reachable cfg hasRepo m
    \<Longrightarrow> mgr_reachable cfg hasRepo (fst (mgr_CreateRoom rid nm owner custom meta now m))"
| reach_Join: "mgr_reachable cfg hasRepo m \<Longrightarrow> mgr_reachable cfg hasRepo (fst (memb_Join rid req now m))"
| reach_Leave: "mgr_reachable cfg hasRepo m \<Longrightarrow> mgr_reachable cfg hasRepo (fst (memb_Leave rid u now m))"
| reach_Kick: "mgr_reachable cfg hasRepo m \<Longrightarrow> mgr_reachable cfg hasRepo (fst (memb_Kick rid a t now m))"
| reach_Transfer: "mgr_reachable cfg hasRepo m
    \<Longrightarrow> mgr_reachable cfg hasRepo (fst (memb_TransferOwnership rid a t now m))"
| reach_SetConnected: "mgr_reachable cfg hasRepo m
    \<Longrightarrow> mgr_reachable cfg hasRepo (fst (mgr_SetConnected rid u c conn sess now m))"
| reach_Close: "mgr_reachable cfg hasRepo m \<Longrightarrow> mgr_reachable cfg hasRepo (fst (mgr_CloseRoom rid a now m))"
| reach_Cleanup: "mgr_reachable cfg hasRepo m \<Longrightarrow> mgr_reachable cfg hasRepo (mgr_runCleanup now m)"

lemmas mgr_op_wf = mgr_CreateRoom_wf memb_Join_wf memb_Leave_wf memb_Kick_wf memb_Transfer_wf
  mgr_SetConnected_wf mgr_CloseRoom_wf mgr_runCleanup_wf

lemma mgr_reachable_mgr_wf: "mgr_reachable cfg hasRepo m \<Longrightarrow> mgr_wf m"
  by (induction rule: mgr_reachable.induct) (auto intro: mgr_wf_New mgr_op_wf)


definition ex_manager :: room_manager where
  "ex_manager = fst (mgr_CreateRoom ''room-1'' ''demo'' ''alice'' None None 1000 (manager_New manager_config_Default True))"

lemma ex_manager_rooms:
  "m_rooms ex_manager = [(''room-1'', (room_New \<lparr>rp_ID = ''room-1'', rp_Name = ''demo'', rp_OwnerID = ''alice'',
     rp_Config = \<lparr>MaxParticipants = 100, IdleTimeout = 5 * Minute, ExpireTimeout = 10 * Minute,
       RecoveryTimeout = Minute, Visibility = VisibilityPrivate\<rparr>,
     rp_Policy = policy_Default, rp_Metadata = None, rp_OwnerSessionID = '''',
     rp_OwnerConnID = '''', rp_Now = 1000\<rparr>)\<lparr>r_state := StateWaiting\<rparr>)]"
  by (simp add: ex_manager_def mgr_CreateRoom_def manager_New_def manager_config_Default_def reg_Register_def
      room_Transition_def room_transition_def room_Validate_def room_CanTransition_iff room_New_def Let_def)


end
