(* ===== verification/Room_Janitor.thy ===== *)
theory Room_Janitor
  imports Room_Manager
begin

text \<open>
  What the janitor (\<open>runCleanup\<close>, \<open>cleanupRoom\<close> of \<open>rooms/manager.go\<close>) promises. The
  specification \<open>janitor_room\<close> says what one sweep makes of one room; the sweep over the whole
  registry is that function applied to every room, whatever order the registry is walked in.
  An abandoned room is collected by a bounded number of sweeps.
\<close>

section \<open>Specification of a sweep\<close>

text \<open>The state a sweep at \<open>now\<close> moves a room to, after the evictions; \<open>None\<close>: it stays.\<close>

definition janitor_target :: "manager_config \<Rightarrow> time \<Rightarrow> room \<Rightarrow> room_state option" where
  "janitor_target cfg now r =
    (let quiet = now - r_lastActivity r; nobody = (room_connectedCount r = 0);
         expired = (quiet > ExpireTimeout (r_cfg r)) in
     if r_state r \<in> {StateActive, StateIdle} \<and> nobody then Some StateWaiting
     else if r_state r = StateActive \<and> quiet > IdleTimeout (r_cfg r) then Some StateIdle
     else if r_state r \<in> {StateWaiting, StateIdle} \<and> expired then Some StateExpiring
     else if r_state r = StateExpiring \<and> expired then Some StateClosed
     else if r_state r = StateClosed \<and> quiet > cleanup_retention cfg then Some StateDestroyed
     else None)"

definition janitor_room :: "manager_config \<Rightarrow> time \<Rightarrow> room \<Rightarrow> room option" where
  "janitor_room cfg now r0 =
    (let r = fst (cleanup_evict now r0) in
     case janitor_target cfg now r of
       None \<Rightarrow> Some r
     | Some t \<Rightarrow> if t = StateDestroyed then None else Some (r\<lparr>r_state := t\<rparr>))"

section \<open>The sweep implements it\<close>

lemma cleanup_shift_rooms:
  "room_CanTransition (r_state r) t \<Longrightarrow> room_state_Valid (r_state r) \<Longrightarrow> room_state_Valid t
    \<Longrightarrow> r_state r \<noteq> t \<Longrightarrow> t \<noteq> StateActive
    \<Longrightarrow> m_rooms (cleanup_shift t now evs r m) = AList.update (r_id r) (r\<lparr>r_state := t\<rparr>) (m_rooms m)"
  by (simp add: cleanup_shift_def room_Transition_def room_transition_def room_Validate_def Let_def)

lemma cleanup_states_rooms:
  "m_rooms (cleanup_states r now m) =
    (case janitor_target (m_cfg m) now r of
       None \<Rightarrow> m_rooms m
     | Some t \<Rightarrow> if t = StateDestroyed then AList.delete (r_id r) (m_rooms m)
                else AList.update (r_id r) (r\<lparr>r_state := t\<rparr>) (m_rooms m))"
proof (cases "r_state r = StateClosed")
  case False
  then show ?thesis
    by (cases "r_state r")
      (auto simp: cleanup_states_def janitor_target_def Let_def cleanup_shift_rooms room_CanTransition_iff)
qed (simp add: cleanup_states_Closed janitor_target_def Let_def)

lemma cleanup_shift_cfg [simp]: "m_cfg (cleanup_shift t now evs r m) = m_cfg m"
  by (simp add: cleanup_shift_def split: sum.splits)

lemma cleanup_states_cfg [simp]: "m_cfg (cleanup_states r now m) = m_cfg m"
  by (cases "r_state r") (auto simp: cleanup_states_def Let_def reg_Deregister_def split: sum.splits option.splits)

lemma mgr_cleanupRoom_cfg [simp]: "m_cfg (mgr_cleanupRoom now rid m) = m_cfg m"
  by (simp add: mgr_cleanupRoom_def split: option.splits prod.splits)

lemma mgr_cleanupRoom_lookup:
  assumes "mgr_wf m"
  shows "map_of (m_rooms (mgr_cleanupRoom now rid m)) k =
    (if k = rid then Option.bind (map_of (m_rooms m) rid) (janitor_room (m_cfg m) now)
     else map_of (m_rooms m) k)"
proof (cases "map_of (m_rooms m) rid")
  case (Some r0)
  obtain r evs where e: "cleanup_evict now r0 = (r, evs)" by (cases "cleanup_evict now r0")
  have "r_id r = rid" using cleanup_evict_ok [OF mgr_wf_Get [OF assms Some], of now] e by (simp add: room_ok_def)
  then show ?thesis
    by (auto simp: mgr_cleanupRoom_def Some e cleanup_states_rooms janitor_room_def split: option.splits)
qed (simp add: mgr_cleanupRoom_def)

lemma mgr_cleanup_fold_lookup:
  assumes "distinct ks" and "mgr_wf m"
  shows "map_of (m_rooms (fold (mgr_cleanupRoom now) ks m)) k =
    (if k \<in> set ks then Option.bind (map_of (m_rooms m) k) (janitor_room (m_cfg m) now)
     else map_of (m_rooms m) k)"
  using assms
  by (induction ks arbitrary: m) (auto simp: mgr_cleanupRoom_lookup mgr_cleanupRoom_wf)

lemma mgr_runCleanup_lookup:
  assumes "mgr_wf m"
  shows "map_of (m_rooms (mgr_runCleanup now m)) k =
    Option.bind (map_of (m_rooms m) k) (janitor_room (m_cfg m) now)"
proof -
  have "distinct (map fst (m_rooms m))" using assms by (simp add: mgr_wf_def gm_wf_def)
  moreover have "map_of (m_rooms m) k = None" if "k \<notin> set (map fst (m_rooms m))"
    using that by (simp add: map_of_eq_None_iff)
  ultimately show ?thesis
    using mgr_cleanup_fold_lookup [OF _ assms, of "map fst (m_rooms m)" now k]
    by (cases "k \<in> set (map fst (m_rooms m))") (simp_all add: mgr_runCleanup_def)
qed

text \<open>
  C9. One sweep of the janitor over a reachable manager treats every registered room exactly
  once and independently of the others: looking up any id afterwards gives the specified result
  for the room that was there (evictions, then at most one state change, or removal of a closed
  room past the retention time), and nothing for an id that was not registered.
\<close>

theorem janitor_sweep_refines:
  assumes "mgr_reachable cfg hasRepo m"
  shows "map_of (m_rooms (mgr_runCleanup now m)) rid =
    (case map_of (m_rooms m) rid of None \<Rightarrow> None | Some r \<Rightarrow> janitor_room (m_cfg m) now r)"
  using mgr_runCleanup_lookup [OF mgr_reachable_mgr_wf [OF assms]] by (simp split: option.splits)
theorem janitor_sweep_refines_witness:
  "mgr_reachable manager_config_Default True ex_manager
   \<and> map_of (m_rooms (mgr_runCleanup 2000 ex_manager)) ''nowhere'' = None
   \<and> (\<exists>r. map_of (m_rooms ex_manager) ''room-1'' = Some r
        \<and> map_of (m_rooms (mgr_runCleanup (3600 * Second) ex_manager)) ''room-1'' =
            janitor_room (m_cfg ex_manager) (3600 * Second) r)"
proof -
  have reach: "mgr_reachable manager_config_Default True ex_manager"
    unfolding ex_manager_def by (rule reach_Create [OF reach_New])
  show ?thesis
    using janitor_sweep_refines [OF reach, of 2000 "''nowhere''"]
      janitor_sweep_refines [OF reach, of "3600 * Second" "''room-1''"] reach
    by (simp add: ex_manager_rooms)
qed

section \<open>Abandoned rooms are collected\<close>

text \<open>The eviction loop: every listed member goes when each is disconnected and past the timeout.\<close>

lemma cleanup_evict1_participants:
  assumes "\<not> p_Connected p \<and> recovery_IsExpired (p_LastSeen p) timeout now"
  shows "r_participants (fst (cleanup_evict1 timeout now p st)) = AList.delete (p_UserID p) (r_participants (fst st))"
proof (cases "room_Leave (p_UserID p) now (fst st)")
  case (Inl e)
  then have "\<not> gm_has (r_participants (fst st)) (p_UserID p)"
    using room_remove_eq [of "p_UserID p" now "fst st"] by (auto simp: room_Leave_def)
  then show ?thesis using assms Inl
    by (auto simp: cleanup_evict1_def gm_has_def map_of_eq_None_iff split: prod.splits)
next
  case (Inr x)
  then show ?thesis using assms room_remove_Inr(1) [of "p_UserID p" now "fst st" "fst x" "snd x"]
    by (auto simp: cleanup_evict1_def room_Leave_def split: prod.splits)
qed

lemma cleanup_evict1_frame:
  "r_cfg (fst (cleanup_evict1 t now p st)) = r_cfg (fst st)"
  "r_lastActivity (fst (cleanup_evict1 t now p st)) \<in> {r_lastActivity (fst st), now}"
proof -
  have "r_cfg r' = r_cfg r" if "room_remove u now r = Inr (r', res)" for u r r' res
    using that by (auto simp: room_remove_def room_transition_def Let_def split: option.splits if_splits sum.splits)
  then show "r_cfg (fst (cleanup_evict1 t now p st)) = r_cfg (fst st)"
    by (auto simp: cleanup_evict1_def room_Leave_def split: prod.splits sum.splits)
qed (auto simp: cleanup_evict1_def room_Leave_def dest: room_remove_Inr(4) split: prod.splits sum.splits)

lemma cleanup_evict_all:
  assumes ok: "room_ok rid r"
    and all: "\<forall>u p. map_of (r_participants r) u = Some p
               \<longrightarrow> \<not> p_Connected p \<and> recovery_IsExpired (p_LastSeen p) (RecoveryTimeout (r_cfg r)) now"
  shows "r_participants (fst (cleanup_evict now r)) = []" "r_cfg (fst (cleanup_evict now r)) = r_cfg r"
    "r_lastActivity (fst (cleanup_evict now r)) \<in> {r_lastActivity r, now}"
proof -
  let ?t = "RecoveryTimeout (r_cfg r)"
  have wf: "gm_wf (r_participants r)" "\<And>u p. (u, p) \<in> set (r_participants r) \<Longrightarrow> p_UserID p = u"
    "\<And>u p. (u, p) \<in> set (r_participants r) \<Longrightarrow> map_of (r_participants r) u = Some p"
    using ok by (auto simp: room_ok_def room_wf_def gm_wf_def)
  have fold: "r_participants (fst (fold (cleanup_evict1 ?t now) ps st)) =
      filter (\<lambda>x. fst x \<notin> p_UserID ` set ps) (r_participants (fst st))"
    if "\<forall>p\<in>set ps. \<not> p_Connected p \<and> recovery_IsExpired (p_LastSeen p) ?t now" for ps st
    using that
    by (induction ps arbitrary: st) (auto simp: cleanup_evict1_participants AList.delete_eq intro!: filter_cong)
  have "\<forall>p\<in>set (room_Participants r). \<not> p_Connected p \<and> recovery_IsExpired (p_LastSeen p) ?t now"
    using all wf(3) unfolding room_Participants_def by fastforce
  from fold [OF this, of "(r, [])"] show "r_participants (fst (cleanup_evict now r)) = []"
    using wf(2) by (force simp: cleanup_evict_def room_Participants_def filter_empty_conv)
  have frame: "r_cfg (fst (fold (cleanup_evict1 t now) ps st)) = r_cfg (fst st)
      \<and> r_lastActivity (fst (fold (cleanup_evict1 t now) ps st)) \<in> {r_lastActivity (fst st), now}" for t ps st
  proof (induction ps arbitrary: st)
    case (Cons p ps)
    show ?case using Cons [of "cleanup_evict1 t now p st"] cleanup_evict1_frame [of t now p st] by auto
  qed simp
  show "r_cfg (fst (cleanup_evict now r)) = r_cfg r"
    "r_lastActivity (fst (cleanup_evict now r)) \<in> {r_lastActivity r, now}"
    using frame [of ?t "room_Participants r" "(r, [])"] by (simp_all add: cleanup_evict_def)
qed

text \<open>How many sweeps a memberless room still has before it.\<close>

fun janitor_rank :: "room_state \<Rightarrow> nat" where
  "janitor_rank StateActive = 4"
| "janitor_rank StateIdle = 4"
| "janitor_rank StateWaiting = 3"
| "janitor_rank StateExpiring = 2"
| "janitor_rank StateClosed = 1"
| "janitor_rank _ = 0"

lemma janitor_room_memberless:
  assumes "room_ok rid r" and "r_participants r = []"
    and "now - r_lastActivity r > ExpireTimeout (r_cfg r)" "now - r_lastActivity r > cleanup_retention cfg"
  shows "janitor_room cfg now r = None \<or>
    (\<exists>r'. janitor_room cfg now r = Some r' \<and> r_participants r' = [] \<and> r_cfg r' = r_cfg r
      \<and> r_lastActivity r' = r_lastActivity r \<and> Suc (janitor_rank (r_state r')) = janitor_rank (r_state r))"
  using assms
  by (cases "r_state r")
    (auto simp: janitor_room_def cleanup_evict_def room_Participants_def janitor_target_def Let_def
      room_connectedCount_def gm_count_def room_ok_def room_wf_def)

lemma mgr_runCleanup_cfg [simp]: "m_cfg (mgr_runCleanup now m) = m_cfg m"
proof -
  have "m_cfg (fold (mgr_cleanupRoom now) ks m) = m_cfg m" for ks m
    by (induction ks arbitrary: m) simp_all
  then show ?thesis by (simp add: mgr_runCleanup_def)
qed

lemma janitor_collects_memberless:
  assumes "mgr_wf m"
    and "\<And>r. map_of (m_rooms m) rid = Some r \<Longrightarrow> r_participants r = [] \<and> janitor_rank (r_state r) \<le> length ts
      \<and> (\<forall>t\<in>set ts. ExpireTimeout (r_cfg r) < t - r_lastActivity r \<and> cleanup_retention (m_cfg m) < t - r_lastActivity r)"
  shows "map_of (m_rooms (fold mgr_runCleanup ts m)) rid = None"
  using assms
proof (induction ts arbitrary: m)
  case Nil
  have "janitor_rank (r_state r) \<noteq> 0" if "room_ok rid r" for r
    using that by (cases "r_state r") (simp_all add: room_ok_def room_wf_def)
  then show ?case using Nil mgr_wf_Get [of m rid] by (metis length_0_conv le_zero_eq list.size(3) not_None_eq fold_simps(1))
next
  case (Cons t ts)
  show ?case
  proof (cases "map_of (m_rooms m) rid")
    case None
    then show ?thesis using Cons.IH [OF mgr_runCleanup_wf [OF Cons.prems(1)], of t]
      by (simp add: mgr_runCleanup_lookup [OF Cons.prems(1)])
  next
    case (Some r)
    from Cons.prems(2) [OF Some] janitor_room_memberless [OF mgr_wf_Get [OF Cons.prems(1) Some], of t "m_cfg m"]
    show ?thesis
      using Cons.IH [OF mgr_runCleanup_wf [OF Cons.prems(1)], of t]
      by (auto simp: mgr_runCleanup_lookup [OF Cons.prems(1)] Some)
  qed
qed

text \<open>
  C10. A room every member of which disconnected longer than the recovery timeout ago is
  collected: the sweep at \<open>t0\<close> evicts the members, and any four later sweeps that fall after the
  expiry timeout and the retention time, counted from the last activity or from \<open>t0\<close>, have
  deregistered it, provided nobody touches the room in between.
\<close>

theorem janitor_collects_abandoned:
  assumes "mgr_reachable cfg hasRepo m" and room: "map_of (m_rooms m) rid = Some r"
    and gone: "\<forall>u p. map_of (r_participants r) u = Some p
      \<longrightarrow> \<not> p_Connected p \<and> recovery_IsExpired (p_LastSeen p) (RecoveryTimeout (r_cfg r)) t0"
    and len: "4 \<le> length ts"
    and late: "\<forall>t\<in>set ts. t > max (r_lastActivity r) t0 + max (ExpireTimeout (r_cfg r)) (cleanup_retention (m_cfg m))"
  shows "map_of (m_rooms (fold mgr_runCleanup ts (mgr_runCleanup t0 m))) rid = None"
proof (rule janitor_collects_memberless)
  have wf: "mgr_wf m" by (rule mgr_reachable_mgr_wf [OF assms(1)])
  then show "mgr_wf (mgr_runCleanup t0 m)" by (rule mgr_runCleanup_wf)
  fix r' assume "map_of (m_rooms (mgr_runCleanup t0 m)) rid = Some r'"
  then have j: "janitor_room (m_cfg m) t0 r = Some r'" by (simp add: mgr_runCleanup_lookup [OF wf] room)
  note E = cleanup_evict_all [OF mgr_wf_Get [OF wf room] gone]
  have eq: "r_participants r' = []" "r_cfg r' = r_cfg r" "r_lastActivity r' \<in> {r_lastActivity r, t0}"
    using j E by (auto simp: janitor_room_def Let_def split: option.splits if_splits)
  have "janitor_rank s \<le> 4" for s by (cases s) simp_all
  moreover have "\<forall>t\<in>set ts. ExpireTimeout (r_cfg r') < t - r_lastActivity r'
      \<and> cleanup_retention (m_cfg m) < t - r_lastActivity r'"
    using late eq by fastforce
  ultimately show "r_participants r' = [] \<and> janitor_rank (r_state r') \<le> length ts
      \<and> (\<forall>t\<in>set ts. ExpireTimeout (r_cfg r') < t - r_lastActivity r'
        \<and> cleanup_retention (m_cfg (mgr_runCleanup t0 m)) < t - r_lastActivity r')"
    using eq len order_trans by fastforce
qed

definition ex_abandoned :: room_manager where
  "ex_abandoned = fst (mgr_SetConnected ''room-1'' ''alice'' False '''' '''' 2000 ex_manager)"

theorem janitor_collects_abandoned_witness:
  "map fst (m_rooms ex_abandoned) = [''room-1'']
   \<and> map_of (m_rooms (fold mgr_runCleanup [3600 * Second, 3630 * Second, 3660 * Second, 3690 * Second]
        (mgr_runCleanup (120 * Second) ex_abandoned))) ''room-1'' = None"
proof -
  have reach: "mgr_reachable manager_config_Default True ex_abandoned"
    unfolding ex_abandoned_def ex_manager_def by (rule reach_SetConnected [OF reach_Create [OF reach_New]])
  have cfg: "m_cfg ex_abandoned = manager_config_Default"
    by (simp add: ex_abandoned_def ex_manager_def mgr_SetConnected_def reg_Get_def reg_Register_def mgr_CreateRoom_def
        manager_New_def Let_def split: option.splits prod.splits sum.splits)
  have rooms: "\<exists>r. m_rooms ex_abandoned = [(''room-1'', r)] \<and> r_lastActivity r = 1000
      \<and> (\<exists>p. r_participants r = [(''alice'', p)] \<and> \<not> p_Connected p \<and> p_LastSeen p = 2000)
      \<and> RecoveryTimeout (r_cfg r) = Minute \<and> ExpireTimeout (r_cfg r) = 10 * Minute"
    by (simp add: ex_abandoned_def mgr_SetConnected_rooms ex_manager_rooms room_set_connected_def
      room_SetConnected_def room_New_def gm_has_def gm_count_def room_connectedCount_def Let_def)
  then obtain r p where r: "m_rooms ex_abandoned = [(''room-1'', r)]" "r_lastActivity r = 1000"
    "r_participants r = [(''alice'', p)]" "\<not> p_Connected p" "p_LastSeen p = 2000"
    "RecoveryTimeout (r_cfg r) = Minute" "ExpireTimeout (r_cfg r) = 10 * Minute" by blast
  show ?thesis
    using janitor_collects_abandoned [OF reach, of "''room-1''" r "120 * Second"
        "[3600 * Second, 3630 * Second, 3660 * Second, 3690 * Second]"]
    by (simp add: r cfg recovery_IsExpired_def cleanup_retention_def manager_config_Default_def)
qed

end
