(* ===== verification/Room_Persistence.thy ===== *)
theory Room_Persistence
  imports Room_Janitor
begin

text \<open>
  The persistence goroutines of \<open>rooms/membership\<close> and \<open>rooms/manager.go\<close> against the
  in-memory repository of \<open>rooms/storage\<close>: the repository is a \<open>kv_store\<close>; as long as the
  goroutines of one room run in the order they were started in, the repository holds a snapshot
  of exactly the registered rooms. Nothing in the source enforces that order: the last lemma
  shows a destroyed room coming back when it is not kept.
\<close>

section \<open>Draining the goroutines\<close>

text \<open>Errors of \<open>Save\<close> and \<open>Delete\<close> are logged and dropped.\<close>

definition repo_put :: "snapshot \<Rightarrow> repo \<Rightarrow> repo" where
  "repo_put s m = (case repo_Save False s m of Inl _ \<Rightarrow> m | Inr m' \<Rightarrow> m')"

definition repo_del :: "string \<Rightarrow> repo \<Rightarrow> repo" where
  "repo_del rid m = (case repo_Delete False rid m of Inl _ \<Rightarrow> m | Inr m' \<Rightarrow> m')"

definition repo_get :: "repo \<Rightarrow> string \<Rightarrow> snapshot option" where
  "repo_get m rid = (case repo_Load False rid m of Inl _ \<Rightarrow> None | Inr s \<Rightarrow> Some s)"

definition repo_drain :: "repo_op list \<Rightarrow> repo \<Rightarrow> repo" where
  "repo_drain ops m = fold (kv_exec repo_put repo_del) ops m"

lemma repo_get_eq: "repo_get m k = map_of m k"
  by (simp add: repo_get_def repo_Load_def split: option.splits)

interpretation repo: kv_store sn_ID repo_get repo_put repo_del
  by unfold_locales
    (auto simp: repo_get_eq repo_put_def repo_del_def repo_Save_def repo_Delete_def split: option.splits)

section \<open>The repository mirrors the registry\<close>

definition mgr_mirrors :: "room_manager \<Rightarrow> bool" where
  "mgr_mirrors m \<longleftrightarrow> m_hasRepo m
     \<and> dom (repo_get (repo_drain (m_pending m) [])) = dom (map_of (m_rooms m))"

lemma repo_drain_snoc:
  "repo_get (repo_drain (ops @ [Put s]) m) = (repo_get (repo_drain ops m))(sn_ID s \<mapsto> s)"
  "repo_get (repo_drain (ops @ [Del k]) m) = (repo_get (repo_drain ops m))(k := None)"
  by (auto simp: repo_drain_def repo.lookup_put repo.lookup_del)

lemma mgr_mirrors_same:
  "mgr_mirrors m \<Longrightarrow> dom (map_of (m_rooms m')) = dom (map_of (m_rooms m)) \<Longrightarrow> m_pending m' = m_pending m
    \<Longrightarrow> m_hasRepo m' = m_hasRepo m \<Longrightarrow> mgr_mirrors m'"
  by (simp add: mgr_mirrors_def)

text \<open>Every handler that changes a room ends in \<open>saveRoomSnapshot\<close>.\<close>

lemma mgr_mirrors_save:
  assumes "mgr_mirrors m" and "room_ok rid r"
    and "dom (map_of (m_rooms m')) = insert rid (dom (map_of (m_rooms m)))"
    and "m_pending m' = m_pending m" "m_hasRepo m' = m_hasRepo m"
  shows "mgr_mirrors (saveRoomSnapshot r m')"
  using assms
  by (simp add: mgr_mirrors_def saveRoomSnapshot_def repo_drain_snoc snapshot_of_def room_View_def room_ok_def)

lemma memb_Join_mirrors: "mgr_wf m \<Longrightarrow> mgr_mirrors m \<Longrightarrow> mgr_mirrors (fst (memb_Join rid req now m))"
  by (auto simp: memb_Join_def memb_op_simps dest: mgr_wf_Get room_Join_ok
      intro!: mgr_mirrors_save [where m = m and rid = rid] split: option.splits sum.splits)

lemma memb_Leave_mirrors: "mgr_wf m \<Longrightarrow> mgr_mirrors m \<Longrightarrow> mgr_mirrors (fst (memb_Leave rid u now m))"
  by (auto simp: memb_Leave_def room_Leave_def memb_op_simps dest: mgr_wf_Get room_remove_ok
      intro!: mgr_mirrors_save [where m = m and rid = rid] split: option.splits sum.splits)

lemma memb_Kick_mirrors: "mgr_wf m \<Longrightarrow> mgr_mirrors m \<Longrightarrow> mgr_mirrors (fst (memb_Kick rid a t now m))"
  by (auto simp: memb_Kick_def memb_op_simps dest: mgr_wf_Get room_Remove_Inr(1) room_remove_ok
      intro!: mgr_mirrors_save [where m = m and rid = rid] split: option.splits sum.splits)

lemma memb_Transfer_mirrors:
  "mgr_wf m \<Longrightarrow> mgr_mirrors m \<Longrightarrow> mgr_mirrors (fst (memb_TransferOwnership rid a t now m))"
  by (auto simp: memb_TransferOwnership_def memb_op_simps dest: mgr_wf_Get room_Transfer_ok
      intro!: mgr_mirrors_save [where m = m and rid = rid] split: option.splits sum.splits)

lemma mgr_CloseRoom_mirrors: "mgr_wf m \<Longrightarrow> mgr_mirrors m \<Longrightarrow> mgr_mirrors (fst (mgr_CloseRoom rid a now m))"
  by (auto simp: mgr_CloseRoom_def memb_op_simps dest: mgr_wf_Get room_transition_ok
      intro!: mgr_mirrors_save [where m = m and rid = rid] split: option.splits sum.splits)

lemma mgr_CreateRoom_mirrors:
  assumes "mgr_mirrors m"
  shows "mgr_mirrors (fst (mgr_CreateRoom rid nm owner custom meta now m))"
proof -
  let ?ps = "\<lambda>cfg. \<lparr>rp_ID = rid, rp_Name = nm, rp_OwnerID = owner, rp_Config = cfg, rp_Policy = policy_Default,
    rp_Metadata = meta, rp_OwnerSessionID = '''', rp_OwnerConnID = '''', rp_Now = now\<rparr>"
  have "\<exists>r. room_Transition StateWaiting now (room_New (?ps cfg)) = Inr r \<and> room_ok rid r" for cfg
    using room_New_Waiting [of now "?ps cfg"] by simp
  then obtain r where r: "\<And>cfg. room_Transition StateWaiting now (room_New (?ps cfg)) = Inr (r cfg)"
    "\<And>cfg. room_ok rid (r cfg)" by metis
  have "r_id (r cfg) = rid" for cfg using r(2) [of cfg] by (simp add: room_ok_def)
  then show ?thesis
    using assms r(2)
    by (auto simp: mgr_CreateRoom_def reg_Register_def Let_def r(1)
        intro!: mgr_mirrors_save [where m = m and rid = rid] split: option.splits)
qed

lemma mgr_mirrors_put:
  assumes "mgr_mirrors m" and "m_pending m' = m_pending m @ [Put s]"
    and "dom (map_of (m_rooms m')) = insert (sn_ID s) (dom (map_of (m_rooms m)))" and "m_hasRepo m' = m_hasRepo m"
  shows "mgr_mirrors m'"
  using assms by (simp add: mgr_mirrors_def repo_drain_snoc)

lemma mgr_SetConnected_pending:
  assumes "m_hasRepo m"
  shows "m_hasRepo (fst (mgr_SetConnected rid u c conn sess now m))"
    "m_pending (fst (mgr_SetConnected rid u c conn sess now m)) =
      (case map_of (m_rooms m) rid of
         None \<Rightarrow> m_pending m
       | Some r \<Rightarrow> m_pending m @ (if gm_has (r_participants r) u
            then [Put (snapshot_of (room_View (room_set_connected u c conn sess now r)))] else []))"
proof (atomize (full), cases "map_of (m_rooms m) rid")
  case (Some r0)
  obtain r p ok ne where s: "room_SetConnected u c conn sess now r0 = (r, p, ok, ne)"
    by (metis prod_cases4)
  show "m_hasRepo (fst (mgr_SetConnected rid u c conn sess now m)) \<and>
    m_pending (fst (mgr_SetConnected rid u c conn sess now m)) =
      (case map_of (m_rooms m) rid of
         None \<Rightarrow> m_pending m
       | Some r \<Rightarrow> m_pending m @ (if gm_has (r_participants r) u
            then [Put (snapshot_of (room_View (room_set_connected u c conn sess now r)))] else []))"
    using room_SetConnected_cases(1) [OF s] assms
    by (auto simp: mgr_SetConnected_def room_set_connected_def reg_Get_def Some s Let_def saveRoomSnapshot_def
        split: sum.splits prod.splits)
qed (simp add: mgr_SetConnected_def reg_Get_def assms)

lemma snapshot_of_id [simp]: "sn_ID (snapshot_of (room_View r)) = r_id r"
  by (simp add: snapshot_of_def room_View_def)

lemma mgr_SetConnected_mirrors:
  assumes "mgr_wf m" and "mgr_mirrors m"
  shows "mgr_mirrors (fst (mgr_SetConnected rid u c conn sess now m))"
proof -
  have repo: "m_hasRepo m" using assms by (simp add: mgr_mirrors_def)
  show ?thesis
  proof (cases "\<exists>r. map_of (m_rooms m) rid = Some r \<and> gm_has (r_participants r) u")
    case True
    then obtain r where r: "map_of (m_rooms m) rid = Some r" "gm_has (r_participants r) u" by blast
    then have "r_id (room_set_connected u c conn sess now r) = rid"
      using room_set_connected_ok [OF mgr_wf_Get [OF assms(1) r(1)] r(2)] by (simp add: room_ok_def)
    then show ?thesis using r
      by (intro mgr_mirrors_put [OF assms(2), where s = "snapshot_of (room_View (room_set_connected u c conn sess now r))"])
        (simp_all add: mgr_SetConnected_rooms mgr_SetConnected_pending repo)
  next
    case False
    then show ?thesis
      by (intro mgr_mirrors_same [OF assms(2)])
        (auto simp: mgr_SetConnected_rooms mgr_SetConnected_pending repo split: option.splits)
  qed
qed

lemma cleanup_states_pending:
  assumes "m_hasRepo m"
  shows "m_hasRepo (cleanup_states r now m) \<and> m_pending (cleanup_states r now m) = m_pending m @
    (case janitor_target (m_cfg m) now r of
       None \<Rightarrow> []
     | Some t \<Rightarrow> if t = StateDestroyed then [Del (r_id r)]
                else [Put (snapshot_of (room_View (r\<lparr>r_state := t\<rparr>)))])"
proof -
  have shift: "cleanup_shift t now evs r m =
      saveRoomSnapshot (r\<lparr>r_state := t\<rparr>) (fold m_publish evs (m_set_room (r_id r) (r\<lparr>r_state := t\<rparr>) m))"
    if "room_CanTransition (r_state r) t" "room_state_Valid (r_state r)" "room_state_Valid t"
      "r_state r \<noteq> t" "t \<noteq> StateActive" for t evs
    using that by (simp add: cleanup_shift_def room_Transition_def room_transition_def room_Validate_def Let_def)
  show ?thesis
    using assms
    by (cases "r_state r")
      (auto simp: cleanup_states_def janitor_target_def Let_def shift saveRoomSnapshot_def room_CanTransition_iff
        reg_Deregister_def room_Transition_def room_transition_def room_Validate_def)
qed

lemma mgr_cleanupRoom_mirrors:
  assumes wf: "mgr_wf m" and mir: "mgr_mirrors m"
  shows "mgr_mirrors (mgr_cleanupRoom now rid m)"
proof (cases "map_of (m_rooms m) rid")
  case (Some r0)
  obtain r evs where e: "cleanup_evict now r0 = (r, evs)" by (cases "cleanup_evict now r0")
  let ?m = "fold m_publish evs (m_set_room rid r m)"
  have id: "r_id r = rid" using cleanup_evict_ok [OF mgr_wf_Get [OF wf Some], of now] e by (simp add: room_ok_def)
  have m: "mgr_mirrors ?m" using Some by (intro mgr_mirrors_same [OF mir]) auto
  then have repo: "m_hasRepo ?m" by (simp only: mgr_mirrors_def)
  note P = cleanup_states_pending [OF repo, of r now] and R = cleanup_states_rooms [of r now ?m]
  have "mgr_mirrors (cleanup_states r now ?m)"
    using m P R id by (auto simp: mgr_mirrors_def repo_drain_snoc split: option.splits if_splits)
  then show ?thesis by (simp add: mgr_cleanupRoom_def Some e)
qed (simp add: mgr_cleanupRoom_def mir)

lemma mgr_runCleanup_mirrors:
  assumes "mgr_wf m" and "mgr_mirrors m"
  shows "mgr_mirrors (mgr_runCleanup now m)"
proof -
  have "mgr_mirrors (fold (mgr_cleanupRoom now) ks m)" if "mgr_wf m" "mgr_mirrors m" for ks m
    using that
    by (induction ks arbitrary: m) (simp_all add: mgr_cleanupRoom_wf mgr_cleanupRoom_mirrors)
  then show ?thesis using assms by (simp add: mgr_runCleanup_def)
qed

lemmas mgr_op_mirrors = mgr_CreateRoom_mirrors memb_Join_mirrors memb_Leave_mirrors memb_Kick_mirrors
  memb_Transfer_mirrors mgr_SetConnected_mirrors mgr_CloseRoom_mirrors mgr_runCleanup_mirrors

lemma mgr_reachable_mirrors: "mgr_reachable cfg True m \<Longrightarrow> mgr_mirrors m"
proof (induction rule: mgr_reachable.induct)
  case reach_New
  then show ?case by (auto simp: mgr_mirrors_def manager_New_def repo_drain_def repo_get_eq)
qed (auto intro: mgr_op_mirrors mgr_reachable_mgr_wf)



text \<open>
  The order is not enforced: when the goroutine that saves the closed room runs after the one
  that deletes the destroyed room, the snapshot of the destroyed room stays in the repository.
\<close>

lemma repo_reorder_resurrects:
  "repo_Load False (sn_ID s) (repo_drain [Put s, Del (sn_ID s)] []) = Inl ErrNotFound"
  "repo_Load False (sn_ID s) (repo_drain [Del (sn_ID s), Put s] []) = Inr s"
  by (simp_all add: repo_drain_def repo_put_def repo_del_def repo_Save_def repo_Delete_def repo_Load_def)

end
