(* ===== verification/Go_Sets.thy ===== *)
theory Go_Sets
  imports CPIP_Prelude
begin

text \<open>
  The loops with which both key-value stores (\<open>coordination/backend/memory.go\<close> and the Redis
  emulator of \<open>cache/redis\<close>) add members to a \<open>map[string]struct{}\<close> and remove them, counting what
  changed. A set is the list of its keys.
\<close>

fun set_add :: "string list \<Rightarrow> string list \<Rightarrow> int \<Rightarrow> string list \<times> int" where
  "set_add [] s n = (s, n)"
| "set_add (x # xs) s n = (if x \<in> set s then set_add xs s n else set_add xs (s @ [x]) (n + 1))"

fun set_rem :: "string list \<Rightarrow> string list \<Rightarrow> int \<Rightarrow> string list \<times> int" where
  "set_rem [] s n = (s, n)"
| "set_rem (x # xs) s n = (if x \<in> set s then set_rem xs (removeAll x s) (n + 1) else set_rem xs s n)"

lemma set_add_eval:
  "distinct s \<Longrightarrow> set_add xs s n = (s', n') \<Longrightarrow>
     distinct s' \<and> set s' = set s \<union> set xs \<and> n' = n + int (length s') - int (length s)"
proof (induction xs arbitrary: s n)
  case (Cons x xs)
  show ?case
  proof (cases "x \<in> set s")
    case True
    then show ?thesis using Cons.IH [of s n] Cons.prems by auto
  next
    case False
    then show ?thesis using Cons.IH [of "s @ [x]" "n + 1"] Cons.prems by simp
  qed
qed simp

lemma set_rem_eval:
  "distinct s \<Longrightarrow> set_rem xs s n = (s', n') \<Longrightarrow>
     distinct s' \<and> set s' = set s - set xs \<and> n' = n + int (length s) - int (length s')"
proof (induction xs arbitrary: s n)
  case (Cons x xs)
  show ?case
  proof (cases "x \<in> set s")
    case True
    then have len: "Suc (length (removeAll x s)) = length s"
      using Cons.prems(1) length_pos_if_in_set [OF True]
      by (simp add: distinct_remove1_removeAll [symmetric] length_remove1)
    show ?thesis using Cons.IH [of "removeAll x s" "n + 1"] Cons.prems True len
      by (auto simp: distinct_removeAll)
  next
    case False
    then show ?thesis using Cons.IH [of s n] Cons.prems by auto
  qed
qed simp

lemma set_add_card:
  assumes "distinct s"
  shows "\<exists>s' n. set_add xs s 0 = (s', n) \<and> distinct s' \<and> set s' = set s \<union> set xs \<and> n = int (card (set xs - set s))"
proof -
  obtain s' n where r: "set_add xs s 0 = (s', n)" by fastforce
  note E = set_add_eval [OF assms r]
  have "length s' = card (set s \<union> (set xs - set s))" using E by (simp add: distinct_card [symmetric])
  also have "\<dots> = length s + card (set xs - set s)" using assms by (subst card_Un_disjoint) (auto simp: distinct_card)
  finally show ?thesis using r E by simp
qed

lemma set_rem_card:
  assumes "distinct s"
  shows "\<exists>s' n. set_rem xs s 0 = (s', n) \<and> distinct s' \<and> set s' = set s - set xs \<and> n = int (card (set xs \<inter> set s))"
proof -
  obtain s' n where r: "set_rem xs s 0 = (s', n)" by fastforce
  note E = set_rem_eval [OF assms r]
  have "(set s - set xs) \<union> (set xs \<inter> set s) = set s" by blast
  then have "length s = card ((set s - set xs) \<union> (set xs \<inter> set s))" using assms by (simp only: distinct_card)
  also have "\<dots> = length s' + card (set xs \<inter> set s)" using E by (subst card_Un_disjoint) (auto simp: distinct_card [symmetric])
  finally show ?thesis using r E by simp
qed

end
