(* ===== verification/Cache_Glob.thy ===== *)
theory Cache_Glob
  imports Main "HOL-Library.Sublist"
begin

text \<open>
  Redis-style glob patterns, \<open>cache/redis/emulator_pubsub.go\<close>: the iterative backtracking matcher
  \<open>globMatch\<close> and its character classes, by index into the pattern and the name as in the source
  (a Go string is a sequence of bytes). The reference is the declarative relation \<open>glob_matches\<close>
  on the tokens of the pattern; the matcher decides it.
\<close>

section \<open>The matcher\<close>

function matchClass_loop :: "string \<Rightarrow> char \<Rightarrow> nat \<Rightarrow> bool \<Rightarrow> nat \<times> bool" where
  "matchClass_loop pat c i matched =
    (if i < length pat \<and> pat ! i \<noteq> CHR '']'' then
       if pat ! i = CHR 0x5C \<and> i + 1 < length pat then matchClass_loop pat c (i + 2) (matched \<or> pat ! (i + 1) = c)
       else if i + 2 < length pat \<and> pat ! (i + 1) = CHR ''-'' \<and> pat ! (i + 2) \<noteq> CHR '']'' then
         matchClass_loop pat c (i + 3)
           (matched \<or> (of_char (pat ! i) :: nat) \<le> of_char c \<and> (of_char c :: nat) \<le> of_char (pat ! (i + 2)))
       else matchClass_loop pat c (i + 1) (matched \<or> pat ! i = c)
     else (i, matched))"
  by pat_completeness auto
termination by (relation "measure (\<lambda>(pat, c, i, matched). length pat - i)") auto

declare matchClass_loop.simps [simp del]

definition matchClass :: "string \<Rightarrow> nat \<Rightarrow> char \<Rightarrow> nat \<times> bool" where
  "matchClass pat px c =
    (let negate = (px + 1 < length pat \<and> pat ! (px + 1) = CHR ''^'')
     in case matchClass_loop pat c (if negate then px + 2 else px + 1) False of
          (i, matched) \<Rightarrow>
            if length pat \<le> i then (px + 1, pat ! px = c)
            else (i + 1, matched \<noteq> negate))"

text \<open>The cases of the \<open>switch\<close> in which the pattern at \<open>px\<close> consumes one byte: the index it goes on at.\<close>

definition glob_one :: "string \<Rightarrow> nat \<Rightarrow> char \<Rightarrow> nat option" where
  "glob_one pat px c =
    (if length pat \<le> px then None
     else if pat ! px = CHR ''?'' then Some (px + 1)
     else if pat ! px = CHR ''*'' then None
     else if pat ! px = CHR ''['' then (case matchClass pat px c of (e, ok) \<Rightarrow> if ok then Some e else None)
     else if pat ! px = CHR 0x5C then (if px + 1 < length pat \<and> pat ! (px + 1) = c then Some (px + 2) else None)
     else if pat ! px = c then Some (px + 1)
     else None)"

text \<open>
  \<open>star\<close> holds \<open>starPx\<close> and \<open>starSx\<close>; \<open>None\<close> is the initial \<open>-1\<close>. The states the termination proof
  sees include those with \<open>sx\<close> before \<open>starSx\<close>, which no run reaches and which every step leaves
  for good.
\<close>

function globMatch_loop :: "string \<Rightarrow> string \<Rightarrow> nat \<Rightarrow> nat \<Rightarrow> (nat \<times> nat) option \<Rightarrow> bool" where
  "globMatch_loop pat s px sx star =
    (if sx < length s then
       if px < length pat \<and> pat ! px = CHR ''*'' then globMatch_loop pat s (px + 1) sx (Some (px, sx))
       else
         (case glob_one pat px (s ! sx) of
            Some px' \<Rightarrow> globMatch_loop pat s px' (sx + 1) star
          | None \<Rightarrow>
              (case star of
                 Some (starPx, starSx) \<Rightarrow> globMatch_loop pat s (starPx + 1) (starSx + 1) (Some (starPx, starSx + 1))
               | None \<Rightarrow> False))
     else px + length (takeWhile (\<lambda>c. c = CHR ''*'') (drop px pat)) = length pat)"
  by pat_completeness auto
termination
  by (relation "measures
      [\<lambda>(pat, s, px, sx, star). case star of Some (p, q) \<Rightarrow> (if sx < q then 1 else 0) | None \<Rightarrow> 0,
       \<lambda>(pat, s, px, sx, star). case star of Some (p, q) \<Rightarrow> length s - q | None \<Rightarrow> Suc (length s),
       \<lambda>(pat, s, px, sx, star). length s - sx,
       \<lambda>(pat, s, px, sx, star). length pat - px]") (auto split: option.splits)

declare globMatch_loop.simps [simp del]

definition MatchGlob :: "string \<Rightarrow> string \<Rightarrow> bool" where
  "MatchGlob pattern name = globMatch_loop pattern name 0 0 None"

section \<open>The reference\<close>

datatype glob_tok = GStar | GOne "char \<Rightarrow> bool"

inductive glob_matches :: "glob_tok list \<Rightarrow> string \<Rightarrow> bool" where
  gm_end: "glob_matches [] []"
| gm_one: "p c \<Longrightarrow> glob_matches ts s \<Longrightarrow> glob_matches (GOne p # ts) (c # s)"
| gm_star: "glob_matches ts s \<Longrightarrow> glob_matches (GStar # ts) (r @ s)"

inductive_simps glob_matches_Nil [simp]: "glob_matches [] s"
inductive_simps glob_matches_One: "glob_matches (GOne p # ts) s"
inductive_simps glob_matches_Star: "glob_matches (GStar # ts) s"

text \<open>How far one turn of the class loop moves.\<close>

definition class_step :: "string \<Rightarrow> nat \<Rightarrow> nat" where
  "class_step pat i =
    (if pat ! i = CHR 0x5C \<and> i + 1 < length pat then 2
     else if i + 2 < length pat \<and> pat ! (i + 1) = CHR ''-'' \<and> pat ! (i + 2) \<noteq> CHR '']'' then 3 else 1)"

lemma matchClass_loop_step:
  "\<exists>m'. matchClass_loop pat c i m =
     (if i < length pat \<and> pat ! i \<noteq> CHR '']'' then matchClass_loop pat c (i + class_step pat i) m' else (i, m'))"
  by (subst matchClass_loop.simps) (auto simp: class_step_def numeral_3_eq_3)

lemma matchClass_loop_fst: "fst (matchClass_loop pat c i m) = fst (matchClass_loop pat d i m')"
proof (induction "length pat - i" arbitrary: i m m' rule: less_induct)
  case less
  obtain n n' where e:
    "matchClass_loop pat c i m = (if i < length pat \<and> pat ! i \<noteq> CHR '']'' then matchClass_loop pat c (i + class_step pat i) n else (i, n))"
    "matchClass_loop pat d i m' = (if i < length pat \<and> pat ! i \<noteq> CHR '']'' then matchClass_loop pat d (i + class_step pat i) n' else (i, n'))"
    using matchClass_loop_step by meson
  have "length pat - (i + class_step pat i) < length pat - i" if "i < length pat" using that by (auto simp: class_step_def)
  then show ?case using less [of "i + class_step pat i" n n'] e by auto
qed

lemma matchClass_loop_ge: "i \<le> fst (matchClass_loop pat c i m)"
proof (induction "length pat - i" arbitrary: i m rule: less_induct)
  case less
  obtain n where e:
    "matchClass_loop pat c i m = (if i < length pat \<and> pat ! i \<noteq> CHR '']'' then matchClass_loop pat c (i + class_step pat i) n else (i, n))"
    using matchClass_loop_step by meson
  have "length pat - (i + class_step pat i) < length pat - i" if "i < length pat" using that by (auto simp: class_step_def)
  then show ?case using less [of "i + class_step pat i" n] e by auto
qed

text \<open>Where a class ends does not depend on the byte it is tried on.\<close>

definition class_end :: "string \<Rightarrow> nat \<Rightarrow> nat" where
  "class_end pat px = fst (matchClass pat px (CHR 0x00))"

lemma matchClass_fst_eq:
  "fst (matchClass pat px c) =
    (let i = fst (matchClass_loop pat c (if px + 1 < length pat \<and> pat ! (px + 1) = CHR ''^'' then px + 2 else px + 1) False)
     in if length pat \<le> i then px + 1 else i + 1)"
  by (simp only: matchClass_def Let_def case_prod_beta) simp

lemma matchClass_fst: "fst (matchClass pat px c) = class_end pat px"
  unfolding class_end_def matchClass_fst_eq matchClass_loop_fst [of pat c _ False "CHR 0x00" False] ..

lemma class_end_bounds:
  assumes "px < length pat"
  shows "px < class_end pat px" "class_end pat px \<le> length pat"
  using assms matchClass_loop_ge [of "if px + 1 < length pat \<and> pat ! (px + 1) = CHR ''^'' then px + 2 else px + 1" pat "CHR 0x00" False]
  unfolding class_end_def matchClass_fst_eq Let_def by (auto split: if_splits)

function glob_tokens :: "string \<Rightarrow> nat \<Rightarrow> glob_tok list" where
  "glob_tokens pat px =
    (if length pat \<le> px then []
     else if pat ! px = CHR ''?'' then GOne (\<lambda>_. True) # glob_tokens pat (px + 1)
     else if pat ! px = CHR ''*'' then GStar # glob_tokens pat (px + 1)
     else if pat ! px = CHR ''['' then GOne (\<lambda>c. snd (matchClass pat px c)) # glob_tokens pat (class_end pat px)
     else if pat ! px = CHR 0x5C then
       (if px + 1 < length pat then GOne (\<lambda>c. pat ! (px + 1) = c) # glob_tokens pat (px + 2) else [GOne (\<lambda>_. False)])
     else GOne (\<lambda>c. pat ! px = c) # glob_tokens pat (px + 1))"
  by pat_completeness auto
termination
  by (relation "measure (\<lambda>(pat, px). length pat - px)") (simp_all add: class_end_bounds diff_less_mono2)

declare glob_tokens.simps [simp del]

section \<open>The matcher decides the reference\<close>

lemma glob_tokens_end: "length pat \<le> px \<Longrightarrow> glob_tokens pat px = []"
  by (simp add: glob_tokens.simps)

lemma glob_tokens_star:
  "px < length pat \<Longrightarrow> pat ! px = CHR ''*'' \<Longrightarrow> glob_tokens pat px = GStar # glob_tokens pat (px + 1)"
  by (subst glob_tokens.simps) simp

text \<open>Any other token stands for one byte, and \<open>glob_one\<close> says which bytes and where to go on.\<close>

lemma glob_tokens_one:
  assumes "px < length pat" "pat ! px \<noteq> CHR ''*''"
  obtains P ts where "glob_tokens pat px = GOne P # ts" "\<And>c. P c \<longleftrightarrow> glob_one pat px c \<noteq> None"
    "\<And>c px'. glob_one pat px c = Some px' \<Longrightarrow> px' \<le> length pat \<and> glob_tokens pat px' = ts"
proof -
  note d = glob_one_def case_prod_beta matchClass_fst class_end_bounds [OF assms(1)]
  consider "pat ! px = CHR ''?''" | "pat ! px = CHR ''[''" | "pat ! px = CHR 0x5C" "px + 1 < length pat"
    | "pat ! px = CHR 0x5C" "px + 1 = length pat" | "pat ! px \<notin> {CHR ''?'', CHR ''['', CHR 0x5C}"
    using assms(1) by fastforce
  then show thesis
  proof cases
    case 1
    show thesis by (rule that [of "\<lambda>_. True" "glob_tokens pat (px + 1)"]) (use assms 1 in \<open>simp_all add: glob_tokens.simps [of pat px] d\<close>)
  next
    case 2
    show thesis
      by (rule that [of "\<lambda>c. snd (matchClass pat px c)" "glob_tokens pat (class_end pat px)"])
        (use assms 2 in \<open>auto simp: glob_tokens.simps [of pat px] d split: if_splits\<close>)
  next
    case 3
    show thesis
      by (rule that [of "\<lambda>c. pat ! (px + 1) = c" "glob_tokens pat (px + 2)"])
        (use assms 3 in \<open>auto simp: glob_tokens.simps [of pat px] d split: if_splits\<close>)
  next
    case 4
    show thesis by (rule that [of "\<lambda>_. False" "[]"]) (use assms 4 in \<open>simp_all add: glob_tokens.simps [of pat px] d\<close>)
  next
    case 5
    show thesis
      by (rule that [of "\<lambda>c. pat ! px = c" "glob_tokens pat (px + 1)"])
        (use assms 5 in \<open>auto simp: glob_tokens.simps [of pat px] d split: if_splits\<close>)
  qed
qed

lemma glob_matches_skip:
  "GStar \<notin> set us \<Longrightarrow> glob_matches (us @ ts) s \<Longrightarrow> length us \<le> length s \<and> glob_matches ts (drop (length us) s)"
proof (induction us arbitrary: s)
  case (Cons u us)
  then show ?case by (cases u) (auto simp: glob_matches_One)
qed simp

lemma glob_matches_star_unfold:
  "glob_matches (GStar # ts) s \<longleftrightarrow> glob_matches ts s \<or> s \<noteq> [] \<and> glob_matches (GStar # ts) (tl s)"
proof
  assume "glob_matches (GStar # ts) s"
  then obtain r s' where "s = r @ s'" "glob_matches ts s'" by (auto simp: glob_matches_Star)
  then show "glob_matches ts s \<or> s \<noteq> [] \<and> glob_matches (GStar # ts) (tl s)" by (cases r) (auto intro: gm_star)
next
  assume "glob_matches ts s \<or> s \<noteq> [] \<and> glob_matches (GStar # ts) (tl s)"
  moreover have "glob_matches (GStar # ts) s" if "s \<noteq> []" "tl s = r @ s'" "glob_matches ts s'" for r s'
    using gm_star [OF that(3), of "hd s # r"] that(1,2) by (metis append_Cons list.collapse)
  ultimately show "glob_matches (GStar # ts) s" using gm_star [of ts s "[]"] by (auto simp: glob_matches_Star)
qed

lemma glob_matches_star_earlier:
  assumes "glob_matches (GStar # ts) (drop j s)" "i \<le> j"
  shows "glob_matches (GStar # ts) (drop i s)"
proof -
  obtain r s' where rs: "drop j s = r @ s'" "glob_matches ts s'" using assms(1) by (auto simp: glob_matches_Star)
  have "drop i s = take (j - i) (drop i s) @ drop j s" using assms(2) by (metis append_take_drop_id drop_drop le_add_diff_inverse2)
  then show ?thesis using gm_star [OF rs(2), of "take (j - i) (drop i s) @ r"] rs(1) by simp
qed

lemma glob_matches_only_stars:
  "px \<le> length pat \<Longrightarrow>
     glob_matches (glob_tokens pat px) [] \<longleftrightarrow> px + length (takeWhile (\<lambda>c. c = CHR ''*'') (drop px pat)) = length pat"
proof (induction "length pat - px" arbitrary: px)
  case 0
  then show ?case by (simp add: glob_tokens_end)
next
  case (Suc n)
  then have px: "px < length pat" by simp
  then have d: "drop px pat = pat ! px # drop (px + 1) pat" by (simp add: Cons_nth_drop_Suc)
  show ?case
  proof (cases "pat ! px = CHR ''*''")
    case True
    have "glob_matches (glob_tokens pat px) [] \<longleftrightarrow> glob_matches (glob_tokens pat (px + 1)) []"
      unfolding glob_tokens_star [OF px True] by (subst glob_matches_star_unfold) simp
    then show ?thesis using Suc(1) [of "px + 1"] Suc(2) px True d by simp
  next
    case False
    obtain P ts where "glob_tokens pat px = GOne P # ts" by (rule glob_tokens_one [OF px False])
    then show ?thesis using px d False by (simp add: glob_matches_One)
  qed
qed

text \<open>
  What the matcher remembers of the last star: everything between it and \<open>px\<close> stands for one
  byte each, so an alternative that an earlier star still had is one the last star has too.
\<close>

definition star_ok :: "string \<Rightarrow> nat \<Rightarrow> nat \<Rightarrow> (nat \<times> nat) option \<Rightarrow> bool" where
  "star_ok pat px sx star = (case star of None \<Rightarrow> True | Some (p, q) \<Rightarrow> p < length pat \<and>
     (\<exists>us. glob_tokens pat (p + 1) = us @ glob_tokens pat px \<and> GStar \<notin> set us \<and> length us + q = sx))"

definition star_later :: "string \<Rightarrow> string \<Rightarrow> (nat \<times> nat) option \<Rightarrow> bool" where
  "star_later pat s star = (case star of None \<Rightarrow> False | Some (p, q) \<Rightarrow>
     q < length s \<and> glob_matches (GStar # glob_tokens pat (p + 1)) (drop (q + 1) s))"

lemma star_later_subsumed:
  assumes "star_ok pat px sx star" "star_later pat s star"
  shows "sx < length s \<and> (\<exists>j > sx. glob_matches (glob_tokens pat px) (drop j s))"
proof -
  obtain p q us where pq: "star = Some (p, q)" "glob_tokens pat (p + 1) = us @ glob_tokens pat px"
      "GStar \<notin> set us" "length us + q = sx" "q < length s" "glob_matches (GStar # us @ glob_tokens pat px) (drop (q + 1) s)"
    using assms by (auto simp: star_ok_def star_later_def split: option.splits)
  then obtain r s' where rs: "drop (q + 1) s = r @ s'" "glob_matches (us @ glob_tokens pat px) s'"
    by (auto simp: glob_matches_Star)
  note K = glob_matches_skip [OF pq(3) rs(2)]
  have s': "s' = drop (q + 1 + length r) s" using rs(1) by (metis append_eq_conv_conj drop_drop add.commute)
  have "length s - (q + 1) = length r + length s'" using arg_cong [OF rs(1), of length] by simp
  then have "sx < length s" using K pq(4,5) by linarith
  moreover have "glob_matches (glob_tokens pat px) (drop (sx + 1 + length r) s)"
    using K unfolding pq(4) [symmetric] by (simp add: s' drop_drop ac_simps)
  ultimately show ?thesis by (metis less_add_Suc1 add_Suc_shift add.assoc Suc_eq_plus1 add.commute)
qed

lemma glob_one_Some:
  assumes "glob_one pat px c = Some px'"
  obtains P where "glob_tokens pat px = GOne P # glob_tokens pat px'" "P c" "px' \<le> length pat"
proof -
  have px: "px < length pat" "pat ! px \<noteq> CHR ''*''" using assms by (auto simp: glob_one_def split: if_splits)
  show thesis by (rule glob_tokens_one [OF px]) (use assms that in auto)
qed

lemma glob_one_None:
  assumes "glob_one pat px c = None" "\<not> (px < length pat \<and> pat ! px = CHR ''*'')"
  shows "\<not> glob_matches (glob_tokens pat px) (c # r)"
proof (cases "px < length pat")
  case True
  then have ne: "pat ! px \<noteq> CHR ''*''" using assms(2) by simp
  obtain P ts where "glob_tokens pat px = GOne P # ts" "\<not> P c"
    by (rule glob_tokens_one [OF True ne]) (use assms(1) in auto)
  then show ?thesis by (simp add: glob_matches_One)
qed (simp add: glob_tokens_end)

lemma star_ok_one:
  assumes "star_ok pat px sx star" "glob_tokens pat px = GOne P # glob_tokens pat px'"
  shows "star_ok pat px' (sx + 1) star"
proof (cases star)
  case (Some pq)
  then obtain p q us where "star = Some (p, q)" "p < length pat" "glob_tokens pat (p + 1) = us @ glob_tokens pat px"
    "GStar \<notin> set us" "length us + q = sx" using assms(1) by (auto simp: star_ok_def)
  then show ?thesis using assms(2) by (auto simp: star_ok_def intro!: exI [of _ "us @ [GOne P]"])
qed (simp add: star_ok_def)

lemma globMatch_loop_correct:
  "px \<le> length pat \<Longrightarrow> sx \<le> length s \<Longrightarrow> star_ok pat px sx star \<Longrightarrow>
     globMatch_loop pat s px sx star \<longleftrightarrow> glob_matches (glob_tokens pat px) (drop sx s) \<or> star_later pat s star"
proof (induction pat s px sx star rule: globMatch_loop.induct)
  case (1 pat s px sx star)
  note sub = star_later_subsumed [OF 1(6), of s] and unf = globMatch_loop.simps [of pat s px sx star]
  show ?case
  proof (cases "sx < length s")
    case False
    then show ?thesis using sub glob_matches_only_stars [OF 1(4)] by (subst unf) auto
  next
    case sx: True
    then have d: "drop sx s = s ! sx # drop (sx + 1) s" by (simp add: Cons_nth_drop_Suc)
    consider (star) "px < length pat \<and> pat ! px = CHR ''*''"
      | (one) px' where "\<not> (px < length pat \<and> pat ! px = CHR ''*'')" "glob_one pat px (s ! sx) = Some px'"
      | (retreat) "\<not> (px < length pat \<and> pat ! px = CHR ''*'')" "glob_one pat px (s ! sx) = None" by fastforce
    then show ?thesis
    proof cases
      case star
      let ?T = "glob_tokens pat (px + 1)"
      have T: "glob_tokens pat px = GStar # ?T" using star by (simp add: glob_tokens_star)
      have "globMatch_loop pat s px sx star \<longleftrightarrow> globMatch_loop pat s (px + 1) sx (Some (px, sx))" using sx star by (subst unf) simp
      also have "\<dots> \<longleftrightarrow> glob_matches ?T (drop sx s) \<or> star_later pat s (Some (px, sx))"
        by (rule 1(1) [OF sx star]) (use sx star in \<open>simp_all add: star_ok_def\<close>)
      also have "\<dots> \<longleftrightarrow> glob_matches (glob_tokens pat px) (drop sx s)"
        unfolding T glob_matches_star_unfold [of ?T "drop sx s"] using sx by (simp add: star_later_def tl_drop drop_Suc)
      finally show ?thesis using sub glob_matches_star_earlier [of ?T _ s sx] T by (metis less_imp_le)
    next
      case (one px')
      obtain P where P: "glob_tokens pat px = GOne P # glob_tokens pat px'" "P (s ! sx)" "px' \<le> length pat"
        by (rule glob_one_Some [OF one(2)])
      have "globMatch_loop pat s px sx star \<longleftrightarrow> globMatch_loop pat s px' (sx + 1) star" using sx one by (subst unf) auto
      also have "\<dots> \<longleftrightarrow> glob_matches (glob_tokens pat px') (drop (sx + 1) s) \<or> star_later pat s star"
        using 1(3) [OF sx one P(3) _ star_ok_one [OF 1(6) P(1)]] sx by simp
      finally show ?thesis using P(1,2) d by (simp add: glob_matches_One)
    next
      case retreat
      have no: "\<not> glob_matches (glob_tokens pat px) (drop sx s)" unfolding d by (rule glob_one_None [OF retreat(2,1)])
      show ?thesis
      proof (cases star)
        case None
        then show ?thesis using sx retreat no by (subst unf) (auto simp: star_later_def)
      next
        case (Some pq)
        then obtain p q where pq: "star = Some (p, q)" "p < length pat" "q < length s" using 1(6) sx by (auto simp: star_ok_def)
        have "globMatch_loop pat s px sx star \<longleftrightarrow> globMatch_loop pat s (p + 1) (q + 1) (Some (p, q + 1))"
          using sx retreat pq by (subst unf) auto
        also have "\<dots> \<longleftrightarrow> glob_matches (glob_tokens pat (p + 1)) (drop (q + 1) s) \<or> star_later pat s (Some (p, q + 1))"
          by (rule 1(2) [OF sx retreat pq(1) refl]) (use pq in \<open>simp_all add: star_ok_def\<close>)
        also have "\<dots> \<longleftrightarrow> star_later pat s star"
          unfolding star_later_def pq option.case prod.case glob_matches_star_unfold [of _ "drop (q + 1) s"]
          using pq(3) by (auto simp: tl_drop drop_Suc)
        finally show ?thesis using no by simp
      qed
    qed
  qed
qed

lemma MatchGlob_iff: "MatchGlob pat s \<longleftrightarrow> glob_matches (glob_tokens pat 0) s"
  unfolding MatchGlob_def by (subst globMatch_loop_correct) (simp_all add: star_ok_def star_later_def)

text \<open>A pattern without special characters, followed by a star, selects by prefix.\<close>

definition glob_plain :: "string \<Rightarrow> bool" where
  "glob_plain p \<longleftrightarrow> set p \<inter> {CHR ''?'', CHR ''*'', CHR ''['', CHR 0x5C} = {}"

lemma glob_tokens_prefix:
  "glob_plain p \<Longrightarrow> i \<le> length p \<Longrightarrow> glob_tokens (p @ ''*'') i = map (\<lambda>c. GOne (\<lambda>d. c = d)) (drop i p) @ [GStar]"
proof (induction "length p - i" arbitrary: i)
  case 0
  then have "i = length p" by simp
  then show ?case by (simp add: glob_tokens_star nth_append glob_tokens_end)
next
  case (Suc n)
  then have i: "i < length p" by simp
  then have "p ! i \<in> set p" by simp
  then have c: "p ! i \<noteq> CHR ''?''" "p ! i \<noteq> CHR ''*''" "p ! i \<noteq> CHR ''[''" "p ! i \<noteq> CHR 0x5C"
    using Suc.prems(1) unfolding glob_plain_def by blast+
  have "glob_tokens (p @ ''*'') i = GOne (\<lambda>d. p ! i = d) # glob_tokens (p @ ''*'') (i + 1)"
    using i c by (subst glob_tokens.simps) (simp add: nth_append)
  then show ?case using Suc i by (simp add: Cons_nth_drop_Suc [symmetric])
qed

lemma glob_matches_prefix:
  "glob_matches (map (\<lambda>c. GOne (\<lambda>d. c = d)) p @ [GStar]) k \<longleftrightarrow> prefix p k"
proof (induction p arbitrary: k)
  case Nil
  have "glob_matches [GStar] k" using gm_star [OF gm_end, of k] by simp
  then show ?case by simp
next
  case (Cons c p)
  then show ?case by (cases k) (auto simp: glob_matches_One)
qed

lemma MatchGlob_prefix: "glob_plain p \<Longrightarrow> MatchGlob (p @ ''*'') k \<longleftrightarrow> prefix p k"
  by (simp add: MatchGlob_iff glob_tokens_prefix glob_matches_prefix)

section \<open>Property\<close>

text \<open>
  C12. The backtracking matcher behind pattern subscriptions and key scans decides the declarative
  meaning of a pattern, on every pattern and every name: it always returns, and it accepts exactly
  when the name splits into one byte for each single-byte token (a literal, an escape, \<open>?\<close>, a
  class) and an arbitrary run for each star. Remembering only the last star loses nothing.
\<close>

theorem MatchGlob_decides_glob: "MatchGlob pat name \<longleftrightarrow> glob_matches (glob_tokens pat 0) name"
  by (rule MatchGlob_iff)

end
