(* ===== verification/Cache_Emulator.thy ===== *)
theory Cache_Emulator
  imports Go_Sets Cache_Glob
begin

text \<open>
  The in-memory Redis client of the distributed cache, \<open>cache/redis/emulator.go\<close> and
  \<open>emulator_pubsub.go\<close>: one keyspace of strings, hashes and sets with lazy expiry per key, the
  atomic compare-and-* commands, and publish/subscribe by channel and by pattern.

  Every command runs under the emulator's mutex and takes the instant at which it runs (the
  reading of the replaceable clock \<open>now\<close>); \<open>TTL\<close> takes its second reading as well. A closed
  emulator answers every command with \<open>ErrRedisUnavailable\<close>. Subscriptions have addresses in
  \<open>re_store\<close>; \<open>re_subs\<close> is the set of those registered.
\<close>

section \<open>State\<close>

datatype cache_error = ErrNil | ErrRedisUnavailable | ErrClosed

datatype kv_val = KStr string | KHash "(string, string) gomap" | KSet "string list"

text \<open>A zero expiry instant means none.\<close>

datatype kv = KV (kv_val: kv_val) (kv_expireAt: time)

record redis_msg =
  rm_Channel :: string
  rm_Pattern :: string
  rm_Payload :: string

record re_sub =
  rs_channels :: "string list"
  rs_patterns :: "string list"
  rs_out :: "redis_msg list"
  rs_closed :: bool

record redis_emulator =
  re_data :: "(string, kv) gomap"
  re_subs :: "nat list"
  re_store :: "re_sub list"
  re_closed :: bool

definition re_New :: redis_emulator where
  "re_New = \<lparr>re_data = [], re_subs = [], re_store = [], re_closed = False\<rparr>"

definition re_live :: "string \<Rightarrow> time \<Rightarrow> redis_emulator \<Rightarrow> redis_emulator \<times> kv option" where
  "re_live key now e =
    (case map_of (re_data e) key of
       None \<Rightarrow> (e, None)
     | Some v \<Rightarrow>
         if kv_expireAt v \<noteq> 0 \<and> \<not> now < kv_expireAt v
         then (e\<lparr>re_data := AList.delete key (re_data e)\<rparr>, None)
         else (e, Some v))"

definition re_expiry :: "duration \<Rightarrow> time \<Rightarrow> time" where
  "re_expiry ttl now = (if ttl \<le> 0 then 0 else now + ttl)"

section \<open>Strings\<close>

definition re_Get :: "string \<Rightarrow> time \<Rightarrow> redis_emulator \<Rightarrow> redis_emulator \<times> (cache_error + string)" where
  "re_Get key now e =
    (if re_closed e then (e, Inl ErrRedisUnavailable)
     else case re_live key now e of
       (e, Some (KV (KStr s) _)) \<Rightarrow> (e, Inr s)
     | (e, _) \<Rightarrow> (e, Inl ErrNil))"

abbreviation (input) KeepTTL :: duration where "KeepTTL \<equiv> - 1"

definition re_Set :: "string \<Rightarrow> string \<Rightarrow> duration \<Rightarrow> time \<Rightarrow> redis_emulator \<Rightarrow> redis_emulator \<times> cache_error option" where
  "re_Set key v ttl now e =
    (if re_closed e then (e, Some ErrRedisUnavailable)
     else
       let (e, x) = (if ttl = KeepTTL
                     then (case re_live key now e of (e, Some cur) \<Rightarrow> (e, kv_expireAt cur) | (e, None) \<Rightarrow> (e, 0))
                     else (e, re_expiry ttl now))
       in (e\<lparr>re_data := AList.update key (KV (KStr v) x) (re_data e)\<rparr>, None))"

definition re_SetNX :: "string \<Rightarrow> string \<Rightarrow> duration \<Rightarrow> time \<Rightarrow> redis_emulator \<Rightarrow> redis_emulator \<times> (cache_error + bool)" where
  "re_SetNX key v ttl now e =
    (if re_closed e then (e, Inl ErrRedisUnavailable)
     else case re_live key now e of
       (e, Some _) \<Rightarrow> (e, Inr False)
     | (e, None) \<Rightarrow>
         (e\<lparr>re_data := AList.update key (KV (KStr v) (re_expiry ttl now)) (re_data e)\<rparr>, Inr True))"

definition re_Del :: "string list \<Rightarrow> time \<Rightarrow> redis_emulator \<Rightarrow> redis_emulator \<times> (cache_error + int)" where
  "re_Del keys now e =
    (if re_closed e then (e, Inl ErrRedisUnavailable)
     else case foldl (\<lambda>(e, n) k. case re_live k now e of
                                   (e, Some _) \<Rightarrow> (e\<lparr>re_data := AList.delete k (re_data e)\<rparr>, n + 1)
                                 | (e, None) \<Rightarrow> (e, n)) (e, 0) keys
          of (e, n) \<Rightarrow> (e, Inr n))"

definition re_Exists :: "string list \<Rightarrow> time \<Rightarrow> redis_emulator \<Rightarrow> redis_emulator \<times> (cache_error + int)" where
  "re_Exists keys now e =
    (if re_closed e then (e, Inl ErrRedisUnavailable)
     else case foldl (\<lambda>(e, n) k. case re_live k now e of (e, Some _) \<Rightarrow> (e, n + 1) | (e, None) \<Rightarrow> (e, n)) (e, 0) keys
          of (e, n) \<Rightarrow> (e, Inr n))"

definition re_Expire :: "string \<Rightarrow> duration \<Rightarrow> time \<Rightarrow> redis_emulator \<Rightarrow> redis_emulator \<times> (cache_error + bool)" where
  "re_Expire key ttl now e =
    (if re_closed e then (e, Inl ErrRedisUnavailable)
     else case re_live key now e of
       (e, None) \<Rightarrow> (e, Inr False)
     | (e, Some v) \<Rightarrow> (e\<lparr>re_data := AList.update key (KV (kv_val v) (re_expiry ttl now)) (re_data e)\<rparr>, Inr True))"

definition re_TTL :: "string \<Rightarrow> time \<Rightarrow> time \<Rightarrow> redis_emulator \<Rightarrow> redis_emulator \<times> (cache_error + duration)" where
  "re_TTL key now until e =
    (if re_closed e then (e, Inl ErrRedisUnavailable)
     else case re_live key now e of
       (e, None) \<Rightarrow> (e, Inr (- 2 * Second))
     | (e, Some v) \<Rightarrow> (e, Inr (if kv_expireAt v = 0 then - 1 * Second else kv_expireAt v - until)))"

definition re_Persist :: "string \<Rightarrow> time \<Rightarrow> redis_emulator \<Rightarrow> redis_emulator \<times> (cache_error + bool)" where
  "re_Persist key now e =
    (if re_closed e then (e, Inl ErrRedisUnavailable)
     else case re_live key now e of
       (e, None) \<Rightarrow> (e, Inr False)
     | (e, Some v) \<Rightarrow>
         if kv_expireAt v = 0 then (e, Inr False)
         else (e\<lparr>re_data := AList.update key (KV (kv_val v) 0) (re_data e)\<rparr>, Inr True))"

text \<open>
  The number \<open>strconv.ParseInt(s, 10, 64)\<close> returns beside its error: 0 for text that is not a
  decimal number, the nearest bound for one out of range.
\<close>

definition dec_value :: "string \<Rightarrow> int" where
  "dec_value ds = foldl (\<lambda>n d. 10 * n + (of_char d - 48)) 0 ds"

definition parseInt64 :: "string \<Rightarrow> int" where
  "parseInt64 s =
    (let neg = (take 1 s = ''-''); ds = (if neg \<or> take 1 s = ''+'' then drop 1 s else s)
     in if ds = [] \<or> \<not> list_all (\<lambda>d. (48 :: nat) \<le> of_char d \<and> (of_char d :: nat) \<le> 57) ds then 0
        else max (- (2 ^ 63)) (min (2 ^ 63 - 1) (if neg then - dec_value ds else dec_value ds)))"

definition re_Incr :: "string \<Rightarrow> time \<Rightarrow> redis_emulator \<Rightarrow> redis_emulator \<times> (cache_error + int)" where
  "re_Incr key now e =
    (if re_closed e then (e, Inl ErrRedisUnavailable)
     else case re_live key now e of
       (e, v) \<Rightarrow>
         let n = (case v of Some (KV (KStr s) _) \<Rightarrow> parseInt64 s | _ \<Rightarrow> 0);
             n = wrap64 (n + 1);
             x = (case v of Some v \<Rightarrow> kv_expireAt v | None \<Rightarrow> 0)
         in (e\<lparr>re_data := AList.update key (KV (KStr (dec_int n)) x) (re_data e)\<rparr>, Inr n))"

section \<open>Compare and act\<close>

definition re_CompareAndDelete :: "string \<Rightarrow> string \<Rightarrow> time \<Rightarrow> redis_emulator \<Rightarrow> redis_emulator \<times> (cache_error + bool)" where
  "re_CompareAndDelete key expected now e =
    (if re_closed e then (e, Inl ErrRedisUnavailable)
     else case re_live key now e of
       (e, None) \<Rightarrow> (e, Inr False)
     | (e, Some v) \<Rightarrow>
         if kv_val v \<noteq> KStr expected then (e, Inr False)
         else (e\<lparr>re_data := AList.delete key (re_data e)\<rparr>, Inr True))"

definition re_CompareAndExtend ::
  "string \<Rightarrow> string \<Rightarrow> duration \<Rightarrow> time \<Rightarrow> redis_emulator \<Rightarrow> redis_emulator \<times> (cache_error + bool)" where
  "re_CompareAndExtend key expected ttl now e =
    (if re_closed e then (e, Inl ErrRedisUnavailable)
     else case re_live key now e of
       (e, None) \<Rightarrow> (e, Inr False)
     | (e, Some v) \<Rightarrow>
         if kv_val v \<noteq> KStr expected then (e, Inr False)
         else (e\<lparr>re_data := AList.update key (KV (kv_val v) (re_expiry ttl now)) (re_data e)\<rparr>, Inr True))"

definition re_CompareAndSet ::
  "string \<Rightarrow> string \<Rightarrow> string \<Rightarrow> duration \<Rightarrow> time \<Rightarrow> redis_emulator \<Rightarrow> redis_emulator \<times> (cache_error + bool)" where
  "re_CompareAndSet key expected newValue ttl now e =
    (if re_closed e then (e, Inl ErrRedisUnavailable)
     else case re_live key now e of
       (e, v) \<Rightarrow>
         if (if expected = '''' then v \<noteq> None else map_option kv_val v \<noteq> Some (KStr expected)) then (e, Inr False)
         else (e\<lparr>re_data := AList.update key (KV (KStr newValue) (re_expiry ttl now)) (re_data e)\<rparr>,
               Inr True))"

section \<open>Bulk commands and scans\<close>

text \<open>\<open>SetMany\<close> ranges over a Go map and \<open>ScanKeys\<close> over the keyspace, which the liveness check shrinks
  while the range goes on.\<close>

definition re_MGet :: "string list \<Rightarrow> time \<Rightarrow> redis_emulator \<Rightarrow> redis_emulator \<times> (cache_error + string option list)" where
  "re_MGet keys now e =
    (if re_closed e then (e, Inl ErrRedisUnavailable)
     else case foldl (\<lambda>(e, out) k. case re_live k now e of
                                     (e, Some (KV (KStr s) _)) \<Rightarrow> (e, out @ [Some s])
                                   | (e, _) \<Rightarrow> (e, out @ [None])) (e, []) keys
          of (e, out) \<Rightarrow> (e, Inr out))"

definition re_SetMany :: "(string, string) gomap \<Rightarrow> duration \<Rightarrow> time \<Rightarrow> redis_emulator \<Rightarrow> redis_emulator \<times> cache_error option" where
  "re_SetMany pairs ttl now e =
    (if re_closed e then (e, Some ErrRedisUnavailable)
     else
       let x = re_expiry ttl now
       in (foldl (\<lambda>e (k, v). e\<lparr>re_data := AList.update k (KV (KStr v) x) (re_data e)\<rparr>) e pairs, None))"

definition re_ScanKeys :: "string \<Rightarrow> time \<Rightarrow> redis_emulator \<Rightarrow> redis_emulator \<times> (cache_error + string list)" where
  "re_ScanKeys pat now e =
    (if re_closed e then (e, Inl ErrRedisUnavailable)
     else case foldl (\<lambda>(e, out) k. case re_live k now e of
                         (e, None) \<Rightarrow> (e, out)
                       | (e, Some _) \<Rightarrow> (e, if pat = '''' \<or> pat = ''*'' \<or> MatchGlob pat k then out @ [k] else out))
                (e, []) (map fst (re_data e))
          of (e, out) \<Rightarrow> (e, Inr out))"

section \<open>Hashes\<close>

definition re_HSet :: "string \<Rightarrow> (string, string) gomap \<Rightarrow> time \<Rightarrow> redis_emulator \<Rightarrow> redis_emulator \<times> cache_error option" where
  "re_HSet key hfields now e =
    (if re_closed e then (e, Some ErrRedisUnavailable)
     else case re_live key now e of
       (e, v) \<Rightarrow>
         let (h, x) = (case v of Some (KV (KHash h) x) \<Rightarrow> (h, x) | _ \<Rightarrow> ([], 0));
             h = foldl (\<lambda>h (f, val). AList.update f val h) h hfields
         in (e\<lparr>re_data := AList.update key (KV (KHash h) x) (re_data e)\<rparr>, None))"

definition re_HGet :: "string \<Rightarrow> string \<Rightarrow> time \<Rightarrow> redis_emulator \<Rightarrow> redis_emulator \<times> (cache_error + string)" where
  "re_HGet key field now e =
    (if re_closed e then (e, Inl ErrRedisUnavailable)
     else case re_live key now e of
       (e, Some (KV (KHash h) _)) \<Rightarrow>
         (e, case map_of h field of None \<Rightarrow> Inl ErrNil | Some val \<Rightarrow> Inr val)
     | (e, _) \<Rightarrow> (e, Inl ErrNil))"

definition re_HGetAll :: "string \<Rightarrow> time \<Rightarrow> redis_emulator \<Rightarrow> redis_emulator \<times> (cache_error + (string, string) gomap)" where
  "re_HGetAll key now e =
    (if re_closed e then (e, Inl ErrRedisUnavailable)
     else case re_live key now e of
       (e, Some (KV (KHash h) _)) \<Rightarrow> (e, Inr h)
     | (e, _) \<Rightarrow> (e, Inr []))"

definition re_HDel :: "string \<Rightarrow> string list \<Rightarrow> time \<Rightarrow> redis_emulator \<Rightarrow> redis_emulator \<times> (cache_error + int)" where
  "re_HDel key hfields now e =
    (if re_closed e then (e, Inl ErrRedisUnavailable)
     else case re_live key now e of
       (e, Some (KV (KHash h) x)) \<Rightarrow>
         (case foldl (\<lambda>(h, n) f. if gm_has h f then (AList.delete f h, n + 1) else (h, n)) (h, 0) hfields of
            (h, n) \<Rightarrow>
              (e\<lparr>re_data := (if h = [] then AList.delete key (re_data e)
                             else AList.update key (KV (KHash h) x) (re_data e))\<rparr>, Inr n))
     | (e, _) \<Rightarrow> (e, Inr 0))"

section \<open>Sets\<close>

definition re_SAdd :: "string \<Rightarrow> string list \<Rightarrow> time \<Rightarrow> redis_emulator \<Rightarrow> redis_emulator \<times> (cache_error + int)" where
  "re_SAdd key members now e =
    (if re_closed e then (e, Inl ErrRedisUnavailable)
     else case re_live key now e of
       (e, v) \<Rightarrow>
         let (s, x) = (case v of Some (KV (KSet s) x) \<Rightarrow> (s, x) | _ \<Rightarrow> ([], 0))
         in case set_add members s 0 of
              (s, n) \<Rightarrow> (e\<lparr>re_data := AList.update key (KV (KSet s) x) (re_data e)\<rparr>, Inr n))"

definition re_SRem :: "string \<Rightarrow> string list \<Rightarrow> time \<Rightarrow> redis_emulator \<Rightarrow> redis_emulator \<times> (cache_error + int)" where
  "re_SRem key members now e =
    (if re_closed e then (e, Inl ErrRedisUnavailable)
     else case re_live key now e of
       (e, Some (KV (KSet s) x)) \<Rightarrow>
         (case set_rem members s 0 of
            (s, n) \<Rightarrow>
              (e\<lparr>re_data := (if s = [] then AList.delete key (re_data e)
                             else AList.update key (KV (KSet s) x) (re_data e))\<rparr>, Inr n))
     | (e, _) \<Rightarrow> (e, Inr 0))"

definition re_SMembers :: "string \<Rightarrow> time \<Rightarrow> redis_emulator \<Rightarrow> redis_emulator \<times> (cache_error + string list)" where
  "re_SMembers key now e =
    (if re_closed e then (e, Inl ErrRedisUnavailable)
     else case re_live key now e of
       (e, Some (KV (KSet s) _)) \<Rightarrow> (e, Inr s)
     | (e, _) \<Rightarrow> (e, Inr []))"

definition re_SIsMember :: "string \<Rightarrow> string \<Rightarrow> time \<Rightarrow> redis_emulator \<Rightarrow> redis_emulator \<times> (cache_error + bool)" where
  "re_SIsMember key m now e =
    (if re_closed e then (e, Inl ErrRedisUnavailable)
     else case re_live key now e of
       (e, Some (KV (KSet s) _)) \<Rightarrow> (e, Inr (m \<in> set s))
     | (e, _) \<Rightarrow> (e, Inr False))"

section \<open>Publish and subscribe\<close>

definition re_newSub :: "string list \<Rightarrow> string list \<Rightarrow> re_sub" where
  "re_newSub channels patterns =
     \<lparr>rs_channels = remdups channels, rs_patterns = remdups patterns, rs_out = [], rs_closed = False\<rparr>"

definition re_Subscribe :: "string list \<Rightarrow> redis_emulator \<Rightarrow> redis_emulator \<times> (cache_error + nat)" where
  "re_Subscribe channels e =
    (if re_closed e then (e, Inl ErrRedisUnavailable)
     else (e\<lparr>re_store := re_store e @ [re_newSub channels []], re_subs := re_subs e @ [length (re_store e)]\<rparr>,
           Inr (length (re_store e))))"

definition re_PSubscribe :: "string list \<Rightarrow> redis_emulator \<Rightarrow> redis_emulator \<times> (cache_error + nat)" where
  "re_PSubscribe patterns e =
    (if re_closed e then (e, Inl ErrRedisUnavailable)
     else (e\<lparr>re_store := re_store e @ [re_newSub [] patterns], re_subs := re_subs e @ [length (re_store e)]\<rparr>,
           Inr (length (re_store e))))"

definition re_deliver :: "string \<Rightarrow> string \<Rightarrow> string \<Rightarrow> nat \<Rightarrow> redis_emulator \<Rightarrow> redis_emulator" where
  "re_deliver ch pat payload i e =
    (let s = re_store e ! i
     in if rs_closed s then e
        else if length (rs_out s) < 1024
        then e\<lparr>re_store := (re_store e)
               [i := s\<lparr>rs_out := rs_out s @ [\<lparr>rm_Channel = ch, rm_Pattern = pat, rm_Payload = payload\<rparr>]\<rparr>]\<rparr>
        else e)"

definition re_Publish :: "string \<Rightarrow> string \<Rightarrow> redis_emulator \<Rightarrow> redis_emulator \<times> (cache_error + int)" where
  "re_Publish ch payload e =
    (if re_closed e then (e, Inl ErrRedisUnavailable)
     else case foldl (\<lambda>(e, n) i.
                  if ch \<in> set (rs_channels (re_store e ! i)) then (re_deliver ch '''' payload i e, n + 1)
                  else (case find (\<lambda>p. MatchGlob p ch) (rs_patterns (re_store e ! i)) of
                          Some p \<Rightarrow> (re_deliver ch p payload i e, n + 1)
                        | None \<Rightarrow> (e, n)))
                (e, 0) (re_subs e)
          of (e, n) \<Rightarrow> (e, Inr n))"

definition re_closeLocked :: "nat \<Rightarrow> redis_emulator \<Rightarrow> redis_emulator" where
  "re_closeLocked i e = e\<lparr>re_store := (re_store e)[i := (re_store e ! i)\<lparr>rs_closed := True\<rparr>]\<rparr>"

definition re_sub_Close :: "nat \<Rightarrow> redis_emulator \<Rightarrow> redis_emulator" where
  "re_sub_Close i e = (re_closeLocked i e)\<lparr>re_subs := removeAll i (re_subs e)\<rparr>"

section \<open>Health and lifecycle\<close>

definition re_Ping :: "redis_emulator \<Rightarrow> cache_error option" where
  "re_Ping e = (if re_closed e then Some ErrRedisUnavailable else None)"

definition re_Close :: "redis_emulator \<Rightarrow> redis_emulator" where
  "re_Close e =
    (if re_closed e then e
     else (fold re_closeLocked (re_subs e) (e\<lparr>re_closed := True\<rparr>))\<lparr>re_subs := []\<rparr>)"

definition re_Flush :: "redis_emulator \<Rightarrow> redis_emulator" where
  "re_Flush e = e\<lparr>re_data := []\<rparr>"

definition re_KeyCount :: "time \<Rightarrow> redis_emulator \<Rightarrow> redis_emulator \<times> int" where
  "re_KeyCount now e =
     foldl (\<lambda>(e, n) k. case re_live k now e of (e, Some _) \<Rightarrow> (e, n + 1) | (e, None) \<Rightarrow> (e, n)) (e, 0) (map fst (re_data e))"

section \<open>The live keyspace\<close>

text \<open>What a command at instant \<open>now\<close> finds under a key. Lazy eviction never shows in it.\<close>

definition kv_live :: "time \<Rightarrow> kv \<Rightarrow> bool" where
  "kv_live now v \<longleftrightarrow> kv_expireAt v = 0 \<or> now < kv_expireAt v"

definition re_look :: "time \<Rightarrow> redis_emulator \<Rightarrow> string \<Rightarrow> kv option" where
  "re_look now e k = (case map_of (re_data e) k of None \<Rightarrow> None | Some v \<Rightarrow> if kv_live now v then Some v else None)"

lemma kv_live_expiry [simp]: "kv_live now (KV v (re_expiry ttl now))"
  by (simp add: kv_live_def re_expiry_def)

lemma kv_live_zero [simp]: "kv_live now (KV v 0)"
  by (simp add: kv_live_def)

lemma re_look_live: "re_look now e k = Some v \<Longrightarrow> kv_live now v"
  by (auto simp: re_look_def split: option.splits if_splits)

lemma re_look_update [simp]:
  "re_look now (e\<lparr>re_data := AList.update k v (re_data e)\<rparr>) = (re_look now e)(k := (if kv_live now v then Some v else None))"
  by (rule ext) (simp add: re_look_def)

lemma re_look_delete [simp]:
  "re_look now (e\<lparr>re_data := AList.delete k (re_data e)\<rparr>) = (re_look now e)(k := None)"
  by (rule ext) (simp add: re_look_def)

lemma re_live_cases:
  obtains (live) v where "re_live k now e = (e, Some v)" "re_look now e k = Some v" "kv_live now v"
  | (dead) e' where "re_live k now e = (e', None)" "re_look now e k = None" "re_look now e' = re_look now e"
      "e' = e \<or> e' = e\<lparr>re_data := AList.delete k (re_data e)\<rparr>"
proof (cases "re_look now e k")
  case None
  show thesis
  proof (cases "map_of (re_data e) k")
    case N: None
    then show thesis by (intro dead [of e]) (use None in \<open>simp_all add: re_live_def\<close>)
  next
    case (Some v)
    have "(re_look now e)(k := None) = re_look now e" using None by (simp add: fun_upd_idem)
    then show thesis using None Some
      by (intro dead [of "e\<lparr>re_data := AList.delete k (re_data e)\<rparr>"]) (auto simp: re_live_def re_look_def [of now e k] kv_live_def split: if_splits)
  qed
next
  case (Some v)
  then show thesis
    by (intro live [of v]) (auto simp: re_live_def re_look_def kv_live_def split: option.splits if_splits)
qed

text \<open>The loops over keys. Whatever survives the removal of a key survives them.\<close>

lemma re_live_keeps:
  assumes "re_live k now e = (e', r)" "P e" "\<And>e k. P e \<Longrightarrow> P (e\<lparr>re_data := AList.delete k (re_data e)\<rparr>)"
  shows "P e'"
  using assms by (cases rule: re_live_cases [of k now e]) auto

definition re_del_step :: "time \<Rightarrow> redis_emulator \<times> int \<Rightarrow> string \<Rightarrow> redis_emulator \<times> int" where
  "re_del_step now = (\<lambda>(e, n) k. case re_live k now e of
     (e, Some _) \<Rightarrow> (e\<lparr>re_data := AList.delete k (re_data e)\<rparr>, n + 1) | (e, None) \<Rightarrow> (e, n))"

lemma re_del_loop:
  "foldl (re_del_step now) (e, n) ks = (e', n') \<Longrightarrow>
     re_look now e' = (\<lambda>k. if k \<in> set ks then None else re_look now e k)
     \<and> n' = n + int (card {k \<in> set ks. re_look now e k \<noteq> None})"
proof (induction ks arbitrary: e n)
  case (Cons k ks)
  let ?L = "\<lambda>e ks. {k \<in> set ks. re_look now e k \<noteq> None}"
  show ?case
  proof (cases rule: re_live_cases [of k now e])
    case (live v)
    let ?e = "e\<lparr>re_data := AList.delete k (re_data e)\<rparr>"
    have "?L e (k # ks) = insert k (?L ?e ks)" "k \<notin> ?L ?e ks" using live by auto
    moreover have "finite (?L ?e ks)" by simp
    ultimately have "card (?L e (k # ks)) = Suc (card (?L ?e ks))" by simp
    then show ?thesis using Cons.IH [of ?e "n + 1"] Cons.prems live by (auto simp: re_del_step_def fun_eq_iff)
  next
    case (dead e1)
    have "?L e (k # ks) = ?L e1 ks" using dead by auto
    then show ?thesis using Cons.IH [of e1 n] Cons.prems dead by (auto simp: re_del_step_def fun_eq_iff)
  qed
qed simp

lemma re_del_loop_keeps:
  assumes "\<And>e k. P e \<Longrightarrow> P (e\<lparr>re_data := AList.delete k (re_data e)\<rparr>)"
  shows "foldl (re_del_step now) (e, n) ks = (e', n') \<Longrightarrow> P e \<Longrightarrow> P e'"
proof (induction ks arbitrary: e n)
  case (Cons k ks)
  then show ?case using assms by (cases rule: re_live_cases [of k now e]) (auto simp: re_del_step_def)
qed simp

definition re_scan_step :: "(string \<Rightarrow> bool) \<Rightarrow> time \<Rightarrow> redis_emulator \<times> string list \<Rightarrow> string \<Rightarrow> redis_emulator \<times> string list" where
  "re_scan_step Q now = (\<lambda>(e, out) k. case re_live k now e of
     (e, None) \<Rightarrow> (e, out) | (e, Some _) \<Rightarrow> (e, if Q k then out @ [k] else out))"

lemma re_scan_loop:
  "foldl (re_scan_step Q now) (e, out) ks = (e', out') \<Longrightarrow>
     re_look now e' = re_look now e \<and> out' = out @ filter (\<lambda>k. Q k \<and> re_look now e k \<noteq> None) ks"
proof (induction ks arbitrary: e out)
  case (Cons k ks)
  show ?case
  proof (cases rule: re_live_cases [of k now e])
    case (live v)
    then show ?thesis using Cons.IH [of e "if Q k then out @ [k] else out"] Cons.prems by (auto simp: re_scan_step_def)
  next
    case (dead e1)
    then show ?thesis using Cons.IH [of e1 out] Cons.prems by (auto simp: re_scan_step_def)
  qed
qed simp

lemma re_scan_loop_keeps:
  assumes "\<And>e k. P e \<Longrightarrow> P (e\<lparr>re_data := AList.delete k (re_data e)\<rparr>)"
  shows "foldl (re_scan_step Q now) (e, out) ks = (e', out') \<Longrightarrow> P e \<Longrightarrow> P e'"
proof (induction ks arbitrary: e out)
  case (Cons k ks)
  then show ?case using assms by (cases rule: re_live_cases [of k now e]) (auto simp: re_scan_step_def)
qed simp

lemma re_Del_eval:
  assumes "\<not> re_closed e"
  shows "re_look now (fst (re_Del ks now e)) = (\<lambda>k. if k \<in> set ks then None else re_look now e k)"
    "snd (re_Del ks now e) = Inr (int (card {k \<in> set ks. re_look now e k \<noteq> None}))"
  using assms re_del_loop [of now e 0 ks]
  by (cases "foldl (re_del_step now) (e, 0) ks"; simp add: re_Del_def re_del_step_def [symmetric])+

lemma re_ScanKeys_eval:
  assumes "\<not> re_closed e" "gm_wf (re_data e)"
  shows "re_look now (fst (re_ScanKeys pat now e)) = re_look now e"
    "\<exists>out. snd (re_ScanKeys pat now e) = Inr out \<and> distinct out
       \<and> set out = {k. (pat = '''' \<or> pat = ''*'' \<or> MatchGlob pat k) \<and> re_look now e k \<noteq> None}"
proof -
  let ?Q = "\<lambda>k. pat = '''' \<or> pat = ''*'' \<or> MatchGlob pat k"
  obtain e' out where r: "foldl (re_scan_step ?Q now) (e, []) (map fst (re_data e)) = (e', out)" by fastforce
  then have R: "re_ScanKeys pat now e = (e', Inr out)" using assms(1) by (simp add: re_ScanKeys_def re_scan_step_def [symmetric])
  note L = re_scan_loop [OF r]
  have "k \<in> set (map fst (re_data e))" if "re_look now e k \<noteq> None" for k
    using that by (auto simp: re_look_def dest: map_of_SomeD intro: rev_image_eqI split: option.splits)
  then have "set out = {k. ?Q k \<and> re_look now e k \<noteq> None}" using L by auto
  moreover have "distinct out" using L assms(2) by (auto simp: gm_wf_def)
  ultimately show "\<exists>out. snd (re_ScanKeys pat now e) = Inr out \<and> distinct out \<and> set out = {k. ?Q k \<and> re_look now e k \<noteq> None}"
    by (simp add: R)
  show "re_look now (fst (re_ScanKeys pat now e)) = re_look now e" using L by (simp add: R)
qed

section \<open>Delivery of publications\<close>

text \<open>The pattern under which a subscription takes messages of a channel; the empty one for the channel itself.\<close>

definition re_route :: "string \<Rightarrow> re_sub \<Rightarrow> string option" where
  "re_route ch s = (if ch \<in> set (rs_channels s) then Some '''' else find (\<lambda>p. MatchGlob p ch) (rs_patterns s))"

definition re_receive :: "string \<Rightarrow> string \<Rightarrow> re_sub \<Rightarrow> re_sub" where
  "re_receive ch payload s =
    (case re_route ch s of
       None \<Rightarrow> s
     | Some p \<Rightarrow>
         if length (rs_out s) < 1024
         then s\<lparr>rs_out := rs_out s @ [\<lparr>rm_Channel = ch, rm_Pattern = p, rm_Payload = payload\<rparr>]\<rparr> else s)"

definition re_subs_ok :: "redis_emulator \<Rightarrow> bool" where
  "re_subs_ok e \<longleftrightarrow> distinct (re_subs e) \<and> (\<forall>i\<in>set (re_subs e). i < length (re_store e) \<and> \<not> rs_closed (re_store e ! i))"

definition re_pub_step :: "string \<Rightarrow> string \<Rightarrow> redis_emulator \<times> int \<Rightarrow> nat \<Rightarrow> redis_emulator \<times> int" where
  "re_pub_step ch payload = (\<lambda>(e, n) i.
     if ch \<in> set (rs_channels (re_store e ! i)) then (re_deliver ch '''' payload i e, n + 1)
     else (case find (\<lambda>p. MatchGlob p ch) (rs_patterns (re_store e ! i)) of
             Some p \<Rightarrow> (re_deliver ch p payload i e, n + 1)
           | None \<Rightarrow> (e, n)))"

lemma re_pub_step_eq:
  assumes "i < length (re_store e)" "\<not> rs_closed (re_store e ! i)"
  shows "re_pub_step ch p (e, n) i =
    (e\<lparr>re_store := (re_store e)[i := re_receive ch p (re_store e ! i)]\<rparr>,
     if re_route ch (re_store e ! i) = None then n else n + 1)"
  using assms by (auto simp: re_pub_step_def re_receive_def re_route_def re_deliver_def Let_def split: option.splits)

lemma re_pub_loop:
  "foldl (re_pub_step ch p) (e, n) js = (e', n') \<Longrightarrow> distinct js \<Longrightarrow>
     \<forall>i\<in>set js. i < length (re_store e) \<and> \<not> rs_closed (re_store e ! i) \<Longrightarrow>
   (\<exists>st. e' = e\<lparr>re_store := st\<rparr> \<and> length st = length (re_store e)
      \<and> (\<forall>j < length (re_store e). st ! j = (if j \<in> set js then re_receive ch p (re_store e ! j) else re_store e ! j)))
   \<and> n' = n + int (length (filter (\<lambda>i. re_route ch (re_store e ! i) \<noteq> None) js))"
proof (induction js arbitrary: e n)
  case Nil
  then show ?case by (auto intro: exI [of _ "re_store e"])
next
  case (Cons i js)
  let ?e = "e\<lparr>re_store := (re_store e)[i := re_receive ch p (re_store e ! i)]\<rparr>"
  let ?n = "if re_route ch (re_store e ! i) = None then n else n + 1"
  have i: "i < length (re_store e)" "\<not> rs_closed (re_store e ! i)" "i \<notin> set js" using Cons.prems by auto
  have r: "foldl (re_pub_step ch p) (?e, ?n) js = (e', n')"
    using Cons.prems(1) unfolding foldl_Cons re_pub_step_eq [OF i(1,2)] .
  have same: "re_store ?e ! j = re_store e ! j" if "j \<in> set js" for j using that i(3) by (metis nth_list_update_neq redis_emulator.select_convs(3) redis_emulator.surjective redis_emulator.update_convs(3))
  have ok: "\<forall>j\<in>set js. j < length (re_store ?e) \<and> \<not> rs_closed (re_store ?e ! j)"
    using Cons.prems(3) same by simp
  have f: "filter (\<lambda>j. re_route ch (re_store ?e ! j) \<noteq> None) js = filter (\<lambda>j. re_route ch (re_store e ! j) \<noteq> None) js"
    using same by (intro filter_cong) auto
  from Cons.IH [OF r _ ok] Cons.prems(2) obtain st where st: "e' = ?e\<lparr>re_store := st\<rparr>" "length st = length (re_store ?e)"
    "\<forall>j < length (re_store ?e). st ! j = (if j \<in> set js then re_receive ch p (re_store ?e ! j) else re_store ?e ! j)"
    "n' = ?n + int (length (filter (\<lambda>j. re_route ch (re_store e ! j) \<noteq> None) js))" unfolding f by auto
  then show ?case using i same by (intro conjI exI [of _ st]) (auto simp: nth_list_update)
qed

lemma re_Publish_delivers:
  assumes "re_subs_ok e" "re_Publish ch p e = (e', Inr n)"
  shows "\<And>j. j < length (re_store e) \<Longrightarrow>
      re_store e' ! j = (if j \<in> set (re_subs e) then re_receive ch p (re_store e ! j) else re_store e ! j)"
    "n = int (length (filter (\<lambda>i. re_route ch (re_store e ! i) \<noteq> None) (re_subs e)))"
    "re_data e' = re_data e" "re_subs_ok e'"
proof -
  obtain e1 n1 where r: "foldl (re_pub_step ch p) (e, 0) (re_subs e) = (e1, n1)" by fastforce
  then have "e' = e1" "n = n1" using assms(2) by (auto simp: re_Publish_def re_pub_step_def [symmetric] split: if_splits)
  with re_pub_loop [OF r] assms(1) obtain st where st: "e' = e\<lparr>re_store := st\<rparr>" "length st = length (re_store e)"
      "\<forall>j < length (re_store e). st ! j = (if j \<in> set (re_subs e) then re_receive ch p (re_store e ! j) else re_store e ! j)"
      "n = int (length (filter (\<lambda>i. re_route ch (re_store e ! i) \<noteq> None) (re_subs e)))"
    by (auto simp: re_subs_ok_def)
  have c: "rs_closed (re_receive ch p s) = rs_closed s" for s by (simp add: re_receive_def split: option.splits)
  show "re_store e' ! j = (if j \<in> set (re_subs e) then re_receive ch p (re_store e ! j) else re_store e ! j)"
    if "j < length (re_store e)" for j using st(1,3) that by simp
  show "re_subs_ok e'" using assms(1) st by (auto simp: re_subs_ok_def c)
  show "n = int (length (filter (\<lambda>i. re_route ch (re_store e ! i) \<noteq> None) (re_subs e)))" "re_data e' = re_data e"
    using st(1,4) by simp_all
qed

lemma re_subs_ok_ops:
  "re_subs_ok re_New"
  "re_subs_ok e \<Longrightarrow> re_subs_ok (fst (re_Subscribe chs e))"
  "re_subs_ok e \<Longrightarrow> re_subs_ok (fst (re_PSubscribe ps e))"
  "re_subs_ok e \<Longrightarrow> re_subs_ok (re_sub_Close i e)"
  "re_subs_ok e \<Longrightarrow> re_subs_ok (re_Close e)"
  by (auto simp: re_subs_ok_def re_New_def re_Subscribe_def re_PSubscribe_def re_newSub_def nth_append
      re_sub_Close_def re_closeLocked_def re_Close_def nth_list_update distinct_removeAll)

end
