(* ===== verification/Expiring_Store.thy ===== *)
theory Expiring_Store
  imports CPIP_Prelude
begin

text \<open>
  Traces of commands on a store whose entries expire, and the lifting of a refinement by single
  commands to traces. A concrete store has lazily evicted entries; its abstraction is a map whose
  entries fade as time goes by.
\<close>

text \<open>What is left at instant \<open>t\<close> of an entry that was live earlier; the zero instant stands for no expiry.\<close>

definition view_at :: "time \<Rightarrow> ('v \<times> time) option \<Rightarrow> ('v \<times> time) option" where
  "view_at t x = (case x of None \<Rightarrow> None | Some (v, e) \<Rightarrow> if e \<noteq> 0 \<and> e \<le> t then None else Some (v, e))"

lemma view_at_None [simp]: "view_at t None = None"
  by (simp add: view_at_def)

lemma view_at_later: "t \<le> t' \<Longrightarrow> view_at t' (view_at t x) = view_at t' x"
  by (auto simp: view_at_def split: option.splits)

fun store_run :: "('c \<Rightarrow> time \<Rightarrow> 's \<Rightarrow> 's \<times> 'r) \<Rightarrow> (time \<times> 'c) list \<Rightarrow> 's \<Rightarrow> 'r list" where
  "store_run exec [] s = []"
| "store_run exec ((t, c) # cs) s = (case exec c t s of (s', r) \<Rightarrow> r # store_run exec cs s')"

fun fading_run ::
  "(time \<Rightarrow> 'v option \<Rightarrow> 'v option) \<Rightarrow> ('c \<Rightarrow> time \<Rightarrow> ('k \<Rightarrow> 'v option) \<Rightarrow> ('k \<Rightarrow> 'v option) \<times> 'r)
   \<Rightarrow> (time \<times> 'c) list \<Rightarrow> ('k \<Rightarrow> 'v option) \<Rightarrow> 'r list" where
  "fading_run fade aexec [] V = []"
| "fading_run fade aexec ((t, c) # cs) V =
    (case aexec c t (\<lambda>k. fade t (V k)) of (V', r) \<Rightarrow> r # fading_run fade aexec cs V')"

text \<open>
  The store refines the fading map command by command, on the states \<open>inv\<close> and for the commands
  \<open>cmd_ok\<close>; then it does so for every trace.
\<close>

locale store_refinement =
  fixes exec :: "'c \<Rightarrow> time \<Rightarrow> 's \<Rightarrow> 's \<times> 'r"
    and aexec :: "'c \<Rightarrow> time \<Rightarrow> ('k \<Rightarrow> 'v option) \<Rightarrow> ('k \<Rightarrow> 'v option) \<times> 'r"
    and fade :: "time \<Rightarrow> 'v option \<Rightarrow> 'v option"
    and view :: "time \<Rightarrow> 's \<Rightarrow> 'k \<Rightarrow> 'v option"
    and inv :: "'s \<Rightarrow> bool" and cmd_ok :: "'c \<Rightarrow> bool"
  assumes later: "t \<le> t' \<Longrightarrow> view t' s k = fade t' (view t s k)"
    and exec_inv: "inv s \<Longrightarrow> cmd_ok c \<Longrightarrow> inv (fst (exec c now s))"
    and exec_refines: "inv s \<Longrightarrow> cmd_ok c \<Longrightarrow>
      view now (fst (exec c now s)) = fst (aexec c now (view now s)) \<and> snd (exec c now s) = snd (aexec c now (view now s))"
begin

lemma run_refines:
  assumes "inv s" "sorted (map fst cs)" "\<And>t c. (t, c) \<in> set cs \<Longrightarrow> cmd_ok c"
    and "\<And>t. t \<in> fst ` set cs \<Longrightarrow> view t s = (\<lambda>k. fade t (V k))"
  shows "store_run exec cs s = fading_run fade aexec cs V"
  using assms
proof (induction cs arbitrary: s V)
  case (Cons tc cs)
  obtain t c where tc: "tc = (t, c)" by (cases tc)
  obtain s' r where s': "exec c t s = (s', r)" by (cases "exec c t s")
  have c: "cmd_ok c" using Cons.prems(3) [of t c] tc by simp
  have V: "(\<lambda>k. fade t (V k)) = view t s" using Cons.prems(4) [of t] tc by simp
  note R = exec_refines [OF Cons.prems(1) c, of t]
  have "store_run exec cs s' = fading_run fade aexec cs (view t s')"
  proof (rule Cons.IH)
    show "inv s'" using exec_inv [OF Cons.prems(1) c, of t] s' by simp
    show "sorted (map fst cs)" using Cons.prems(2) tc by simp
    show "cmd_ok c'" if "(t', c') \<in> set cs" for t' c' using Cons.prems(3) that by auto
    fix t' assume "t' \<in> fst ` set cs"
    then have "t \<le> t'" using Cons.prems(2) tc by auto
    then show "view t' s' = (\<lambda>k. fade t' (view t s' k))" by (intro ext later)
  qed
  then show ?case using R by (auto simp: tc s' V split: prod.splits)
qed simp

end

end
