(* ===== verification/Cache_Keyspace.thy ===== *)
theory Cache_Keyspace
  imports Cache_Emulator Expiring_Store
begin

text \<open>
  What the Redis emulator promises its clients: a keyspace of typed values, each with an expiry
  instant, in which an expired key does not exist. Hashes are maps and sets are sets. Every data
  command is specified on this keyspace, and the emulator's traces are those of the specification.
\<close>

section \<open>The specification\<close>

datatype aval = AStr string | AHash "string \<rightharpoonup> string" | ASet "string set"

type_synonym keyspace = "string \<Rightarrow> (aval \<times> time) option"

datatype re_cmd =
    KGet string | KSetTo string string duration | KSetNX string string duration | KDel "string list" | KExists "string list"
  | KExpire string duration | KTTL string | KPersist string | KIncr string
  | KCompareDelete string string | KCompareExtend string string duration | KCompareSet string string string duration
  | KMGet "string list" | KSetMany "(string, string) gomap" duration | KScan string
  | KHSet string "(string, string) gomap" | KHGet string string | KHGetAll string | KHDel string "string list"
  | KSAdd string "string list" | KSRem string "string list" | KSMembers string | KSIsMember string string | KCount

datatype re_res =
    ResStr "string option" | ResOk | ResBool bool | ResInt int | ResDur duration | ResVals "string option list"
  | ResKeys "string set" | ResHash "string \<rightharpoonup> string" | ResErr cache_error

definition ks_str :: "(aval \<times> time) option \<Rightarrow> string option" where
  "ks_str x = (case x of Some (AStr s, _) \<Rightarrow> Some s | _ \<Rightarrow> None)"

definition ks_expiry :: "(aval \<times> time) option \<Rightarrow> time" where
  "ks_expiry x = (case x of Some (_, e) \<Rightarrow> e | None \<Rightarrow> 0)"

definition ks_hash :: "(aval \<times> time) option \<Rightarrow> (string \<rightharpoonup> string) \<times> time" where
  "ks_hash x = (case x of Some (AHash h, e) \<Rightarrow> (h, e) | _ \<Rightarrow> (Map.empty, 0))"

definition ks_set :: "(aval \<times> time) option \<Rightarrow> string set \<times> time" where
  "ks_set x = (case x of Some (ASet s, e) \<Rightarrow> (s, e) | _ \<Rightarrow> ({}, 0))"

fun ks_exec :: "re_cmd \<Rightarrow> time \<Rightarrow> keyspace \<Rightarrow> keyspace \<times> re_res" where
  "ks_exec (KGet k) now V = (V, case ks_str (V k) of Some s \<Rightarrow> ResStr (Some s) | None \<Rightarrow> ResErr ErrNil)"
| "ks_exec (KSetTo k v ttl) now V =
    (V(k \<mapsto> (AStr v, if ttl = KeepTTL then ks_expiry (V k) else re_expiry ttl now)), ResOk)"
| "ks_exec (KSetNX k v ttl) now V =
    (if V k = None then (V(k \<mapsto> (AStr v, re_expiry ttl now)), ResBool True) else (V, ResBool False))"
| "ks_exec (KDel ks) now V =
    (\<lambda>k. if k \<in> set ks then None else V k, ResInt (int (card {k \<in> set ks. V k \<noteq> None})))"
| "ks_exec (KExists ks) now V = (V, ResInt (int (length (filter (\<lambda>k. V k \<noteq> None) ks))))"
| "ks_exec (KExpire k ttl) now V =
    (case V k of None \<Rightarrow> (V, ResBool False) | Some (v, _) \<Rightarrow> (V(k \<mapsto> (v, re_expiry ttl now)), ResBool True))"
| "ks_exec (KTTL k) now V =
    (V, ResDur (case V k of None \<Rightarrow> - 2 * Second | Some (_, e) \<Rightarrow> if e = 0 then - 1 * Second else e - now))"
| "ks_exec (KPersist k) now V =
    (case V k of None \<Rightarrow> (V, ResBool False)
     | Some (v, e) \<Rightarrow> if e = 0 then (V, ResBool False) else (V(k \<mapsto> (v, 0)), ResBool True))"
| "ks_exec (KIncr k) now V =
    (let n = wrap64 ((case ks_str (V k) of Some s \<Rightarrow> parseInt64 s | None \<Rightarrow> 0) + 1)
     in (V(k \<mapsto> (AStr (dec_int n), ks_expiry (V k))), ResInt n))"
| "ks_exec (KCompareDelete k x) now V =
    (if ks_str (V k) = Some x then (V(k := None), ResBool True) else (V, ResBool False))"
| "ks_exec (KCompareExtend k x ttl) now V =
    (if ks_str (V k) = Some x then (V(k \<mapsto> (AStr x, re_expiry ttl now)), ResBool True) else (V, ResBool False))"
| "ks_exec (KCompareSet k x v ttl) now V =
    (if (if x = '''' then V k = None else ks_str (V k) = Some x)
     then (V(k \<mapsto> (AStr v, re_expiry ttl now)), ResBool True) else (V, ResBool False))"
| "ks_exec (KMGet ks) now V = (V, ResVals (map (\<lambda>k. ks_str (V k)) ks))"
| "ks_exec (KSetMany kvs ttl) now V =
    (\<lambda>k. case map_of kvs k of Some v \<Rightarrow> Some (AStr v, re_expiry ttl now) | None \<Rightarrow> V k, ResOk)"
| "ks_exec (KScan pat) now V =
    (V, ResKeys {k. (pat = '''' \<or> pat = ''*'' \<or> glob_matches (glob_tokens pat 0) k) \<and> V k \<noteq> None})"
| "ks_exec (KHSet k fs) now V =
    (case ks_hash (V k) of (h, e) \<Rightarrow> (V(k \<mapsto> (AHash (h ++ map_of fs), e)), ResOk))"
| "ks_exec (KHGet k f) now V =
    (V, case fst (ks_hash (V k)) f of Some v \<Rightarrow> ResStr (Some v) | None \<Rightarrow> ResErr ErrNil)"
| "ks_exec (KHGetAll k) now V = (V, ResHash (fst (ks_hash (V k))))"
| "ks_exec (KHDel k fs) now V =
    (case V k of
       Some (AHash h, e) \<Rightarrow>
         let h' = h |` (- set fs)
         in (V(k := (if h' = Map.empty then None else Some (AHash h', e))), ResInt (int (card (set fs \<inter> dom h))))
     | _ \<Rightarrow> (V, ResInt 0))"
| "ks_exec (KSAdd k ms) now V =
    (case ks_set (V k) of (s, e) \<Rightarrow> (V(k \<mapsto> (ASet (s \<union> set ms), e)), ResInt (int (card (set ms - s)))))"
| "ks_exec (KSRem k ms) now V =
    (case V k of
       Some (ASet s, e) \<Rightarrow>
         (V(k := (if s \<subseteq> set ms then None else Some (ASet (s - set ms), e))), ResInt (int (card (set ms \<inter> s))))
     | _ \<Rightarrow> (V, ResInt 0))"
| "ks_exec (KSMembers k) now V = (V, ResKeys (fst (ks_set (V k))))"
| "ks_exec (KSIsMember k m) now V = (V, ResBool (m \<in> fst (ks_set (V k))))"
| "ks_exec KCount now V = (V, ResInt (int (card (dom V))))"

section \<open>The emulator's commands\<close>

definition re_out :: "('a \<Rightarrow> re_res) \<Rightarrow> redis_emulator \<times> (cache_error + 'a) \<Rightarrow> redis_emulator \<times> re_res" where
  "re_out f x = (fst x, case snd x of Inl err \<Rightarrow> ResErr err | Inr r \<Rightarrow> f r)"

definition re_done :: "redis_emulator \<times> cache_error option \<Rightarrow> redis_emulator \<times> re_res" where
  "re_done x = (fst x, case snd x of Some err \<Rightarrow> ResErr err | None \<Rightarrow> ResOk)"

fun re_exec :: "re_cmd \<Rightarrow> time \<Rightarrow> redis_emulator \<Rightarrow> redis_emulator \<times> re_res" where
  "re_exec (KGet k) now e = re_out (ResStr \<circ> Some) (re_Get k now e)"
| "re_exec (KSetTo k v ttl) now e = re_done (re_Set k v ttl now e)"
| "re_exec (KSetNX k v ttl) now e = re_out ResBool (re_SetNX k v ttl now e)"
| "re_exec (KDel ks) now e = re_out ResInt (re_Del ks now e)"
| "re_exec (KExists ks) now e = re_out ResInt (re_Exists ks now e)"
| "re_exec (KExpire k ttl) now e = re_out ResBool (re_Expire k ttl now e)"
| "re_exec (KTTL k) now e = re_out ResDur (re_TTL k now now e)"
| "re_exec (KPersist k) now e = re_out ResBool (re_Persist k now e)"
| "re_exec (KIncr k) now e = re_out ResInt (re_Incr k now e)"
| "re_exec (KCompareDelete k x) now e = re_out ResBool (re_CompareAndDelete k x now e)"
| "re_exec (KCompareExtend k x ttl) now e = re_out ResBool (re_CompareAndExtend k x ttl now e)"
| "re_exec (KCompareSet k x v ttl) now e = re_out ResBool (re_CompareAndSet k x v ttl now e)"
| "re_exec (KMGet ks) now e = re_out ResVals (re_MGet ks now e)"
| "re_exec (KSetMany kvs ttl) now e = re_done (re_SetMany kvs ttl now e)"
| "re_exec (KScan pat) now e = re_out (ResKeys \<circ> set) (re_ScanKeys pat now e)"
| "re_exec (KHSet k fs) now e = re_done (re_HSet k fs now e)"
| "re_exec (KHGet k f) now e = re_out (ResStr \<circ> Some) (re_HGet k f now e)"
| "re_exec (KHGetAll k) now e = re_out (ResHash \<circ> map_of) (re_HGetAll k now e)"
| "re_exec (KHDel k fs) now e = re_out ResInt (re_HDel k fs now e)"
| "re_exec (KSAdd k ms) now e = re_out ResInt (re_SAdd k ms now e)"
| "re_exec (KSRem k ms) now e = re_out ResInt (re_SRem k ms now e)"
| "re_exec (KSMembers k) now e = re_out (ResKeys \<circ> set) (re_SMembers k now e)"
| "re_exec (KSIsMember k m) now e = re_out ResBool (re_SIsMember k m now e)"
| "re_exec KCount now e = (case re_KeyCount now e of (e, n) \<Rightarrow> (e, ResInt n))"

section \<open>Abstraction\<close>

fun absv :: "kv_val \<Rightarrow> aval" where
  "absv (KStr s) = AStr s"
| "absv (KHash h) = AHash (map_of h)"
| "absv (KSet s) = ASet (set s)"

definition abs_kv :: "kv option \<Rightarrow> (aval \<times> time) option" where
  "abs_kv = map_option (\<lambda>v. (absv (kv_val v), kv_expireAt v))"

definition re_abs :: "time \<Rightarrow> redis_emulator \<Rightarrow> keyspace" where
  "re_abs now e k = abs_kv (re_look now e k)"

text \<open>Hashes hold each field once and sets each member once.\<close>

fun val_ok :: "kv_val \<Rightarrow> bool" where
  "val_ok (KStr s) \<longleftrightarrow> True"
| "val_ok (KHash h) \<longleftrightarrow> gm_wf h"
| "val_ok (KSet s) \<longleftrightarrow> distinct s"

definition re_ok :: "redis_emulator \<Rightarrow> bool" where
  "re_ok e \<longleftrightarrow> \<not> re_closed e \<and> gm_wf (re_data e) \<and> (\<forall>k v. map_of (re_data e) k = Some v \<longrightarrow> val_ok (kv_val v))"

fun re_cmd_ok :: "re_cmd \<Rightarrow> bool" where
  "re_cmd_ok (KSetMany kvs ttl) \<longleftrightarrow> gm_wf kvs"
| "re_cmd_ok (KHSet k fs) \<longleftrightarrow> gm_wf fs"
| "re_cmd_ok _ \<longleftrightarrow> True"

section \<open>Refinement\<close>

lemma abs_kv_simps [simp]:
  "abs_kv None = None" "abs_kv (Some v) = Some (absv (kv_val v), kv_expireAt v)" "abs_kv x = None \<longleftrightarrow> x = None"
  by (simp_all add: abs_kv_def)

lemma ks_simps [simp]:
  "ks_str None = None" "ks_str (Some (AStr s, x)) = Some s" "ks_str (Some (AHash h, x)) = None" "ks_str (Some (ASet m, x)) = None"
  "ks_expiry None = 0" "ks_expiry (Some (v, x)) = x"
  "ks_hash None = (Map.empty, 0)" "ks_hash (Some (AHash h, x)) = (h, x)" "ks_hash (Some (AStr s, x)) = (Map.empty, 0)"
  "ks_hash (Some (ASet m, x)) = (Map.empty, 0)"
  "ks_set None = ({}, 0)" "ks_set (Some (ASet m, x)) = (m, x)" "ks_set (Some (AStr s, x)) = ({}, 0)" "ks_set (Some (AHash h, x)) = ({}, 0)"
  by (simp_all add: ks_str_def ks_expiry_def ks_hash_def ks_set_def)

lemma re_abs_update:
  "re_abs now (e\<lparr>re_data := AList.update k v (re_data e)\<rparr>) = (re_abs now e)(k := (if kv_live now v then abs_kv (Some v) else None))"
  by (rule ext) (simp add: re_abs_def)

lemma re_abs_delete: "re_abs now (e\<lparr>re_data := AList.delete k (re_data e)\<rparr>) = (re_abs now e)(k := None)"
  by (rule ext) (simp add: re_abs_def)

lemma re_ok_update: "re_ok e \<Longrightarrow> val_ok (kv_val v) \<Longrightarrow> re_ok (e\<lparr>re_data := AList.update k v (re_data e)\<rparr>)"
  by (auto simp: re_ok_def)

lemma re_ok_delete: "re_ok e \<Longrightarrow> re_ok (e\<lparr>re_data := AList.delete k (re_data e)\<rparr>)"
  by (auto simp: re_ok_def)

lemmas re_ok_intros = re_ok_update re_ok_delete
lemmas re_abs_simps = re_abs_update re_abs_delete kv_live_def

lemma re_abs_later: "t \<le> t' \<Longrightarrow> re_abs t' e k = view_at t' (re_abs t e k)"
  by (auto simp: re_abs_def re_look_def kv_live_def view_at_def split: option.splits)

lemma re_ok_live:
  assumes "re_ok e"
  obtains (string) s x where "re_live k now e = (e, Some (KV (KStr s) x))" "re_abs now e k = Some (AStr s, x)" "x = 0 \<or> now < x"
  | (hash) h x where "re_live k now e = (e, Some (KV (KHash h) x))" "re_abs now e k = Some (AHash (map_of h), x)"
      "x = 0 \<or> now < x" "gm_wf h"
  | (mset) m x where "re_live k now e = (e, Some (KV (KSet m) x))" "re_abs now e k = Some (ASet (set m), x)"
      "x = 0 \<or> now < x" "distinct m"
  | (dead) e' where "re_live k now e = (e', None)" "re_abs now e k = None" "re_ok e'" "re_abs now e' = re_abs now e"
proof (cases rule: re_live_cases [of k now e])
  case (live w)
  have "map_of (re_data e) k = Some w" using live(2) by (auto simp: re_look_def split: option.splits if_splits)
  then have "val_ok (kv_val w)" using assms by (auto simp: re_ok_def)
  moreover have "re_abs now e k = Some (absv (kv_val w), kv_expireAt w)" using live(2) by (simp add: re_abs_def)
  moreover have "kv_expireAt w = 0 \<or> now < kv_expireAt w" using live(3) by (simp add: kv_live_def)
  moreover have "re_live k now e = (e, Some (KV (kv_val w) (kv_expireAt w)))" using live(1) by simp
  ultimately show thesis by (cases "kv_val w") (auto intro: string hash mset)
next
  case dead': (dead e')
  then show thesis using assms
    by (intro dead [of e']) (auto simp: re_abs_def fun_eq_iff re_ok_delete)
qed

definition re_sim :: "time \<Rightarrow> redis_emulator \<Rightarrow> re_cmd \<Rightarrow> bool" where
  "re_sim now e c \<longleftrightarrow> re_ok (fst (re_exec c now e))
     \<and> re_abs now (fst (re_exec c now e)) = fst (ks_exec c now (re_abs now e))
     \<and> snd (re_exec c now e) = snd (ks_exec c now (re_abs now e))"

lemmas re_sim_simps = re_sim_def re_out_def re_done_def Let_def re_abs_simps re_expiry_def

lemma re_sim_strings:
  assumes "re_ok e"
  shows "re_sim now e (KGet k)" "re_sim now e (KSetNX k v ttl)" "re_sim now e (KExpire k ttl)" "re_sim now e (KTTL k)"
    "re_sim now e (KPersist k)" "re_sim now e (KIncr k)"
proof -
  have opn: "\<not> re_closed e" using assms by (simp add: re_ok_def)
  note go = re_ok_live [OF assms, of k now]
  show "re_sim now e (KGet k)"
    by (rule go) (auto simp: re_sim_simps re_Get_def opn assms)
  show "re_sim now e (KSetNX k v ttl)"
    by (rule go) (auto simp: re_sim_simps re_SetNX_def opn assms intro: re_ok_intros)
  show "re_sim now e (KExpire k ttl)"
    by (rule go) (auto simp: re_sim_simps re_Expire_def opn assms intro: re_ok_intros)
  show "re_sim now e (KTTL k)"
    by (rule go) (auto simp: re_sim_simps re_TTL_def opn assms)
  show "re_sim now e (KPersist k)"
    by (rule go) (auto simp: re_sim_simps re_Persist_def opn assms intro: re_ok_intros)
  show "re_sim now e (KIncr k)"
    by (rule go) (auto simp: re_sim_simps re_Incr_def opn assms intro!: re_ok_intros)
qed

lemma re_sim_compare:
  assumes "re_ok e"
  shows "re_sim now e (KSetTo k v ttl)" "re_sim now e (KCompareDelete k x)" "re_sim now e (KCompareExtend k x ttl)"
    "re_sim now e (KCompareSet k x v ttl)"
proof -
  have opn: "\<not> re_closed e" using assms by (simp add: re_ok_def)
  note go = re_ok_live [OF assms, of k now]
  show "re_sim now e (KSetTo k v ttl)"
    by (rule go) (auto simp: re_sim_simps re_Set_def opn assms intro: re_ok_intros)
  show "re_sim now e (KCompareDelete k x)"
    by (rule go) (auto simp: re_sim_simps re_CompareAndDelete_def opn assms intro: re_ok_intros)
  show "re_sim now e (KCompareExtend k x ttl)"
    by (rule go) (auto simp: re_sim_simps re_CompareAndExtend_def opn assms intro: re_ok_intros)
  show "re_sim now e (KCompareSet k x v ttl)"
    by (rule go) (auto simp: re_sim_simps re_CompareAndSet_def opn assms intro: re_ok_intros)
qed

text \<open>Hashes.\<close>

lemma hash_fill:
  "gm_wf fs \<Longrightarrow> map_of (foldl (\<lambda>h (f, val). AList.update f val h) h fs) k = (map_of h ++ map_of fs) k"
proof (induction fs arbitrary: h)
  case (Cons fv fs)
  obtain f v where fv: "fv = (f, v)" by (cases fv)
  have "map_of fs f = None" "gm_wf fs" using Cons.prems fv by (auto simp: gm_wf_def map_of_eq_None_iff)
  then show ?case using Cons.IH [of "AList.update f v h"] fv by (auto simp: map_add_def split: option.splits)
qed simp

lemma hash_fill_wf: "gm_wf h \<Longrightarrow> gm_wf (foldl (\<lambda>h (f, val). AList.update f val h) h fs)"
  by (induction fs arbitrary: h) auto

lemma hash_drop:
  "foldl (\<lambda>(h, n) f. if gm_has h f then (AList.delete f h, n + 1) else (h, n)) (h, n :: int) fs = (h', n') \<Longrightarrow>
     (\<forall>k. map_of h' k = (if k \<in> set fs then None else map_of h k)) \<and> (gm_wf h \<longrightarrow> gm_wf h')
     \<and> n' = n + int (card {f \<in> set fs. gm_has h f})"
proof (induction fs arbitrary: h n)
  case (Cons f fs)
  show ?case
  proof (cases "gm_has h f")
    case True
    have "{f' \<in> set (f # fs). gm_has h f'} = insert f {f' \<in> set fs. gm_has (AList.delete f h) f'}" using True by auto
    then have "card {f' \<in> set (f # fs). gm_has h f'} = Suc (card {f' \<in> set fs. gm_has (AList.delete f h) f'})" by simp
    then show ?thesis using Cons.IH [of "AList.delete f h" "n + 1"] Cons.prems True by auto
  next
    case False
    then have "{f' \<in> set (f # fs). gm_has h f'} = {f' \<in> set fs. gm_has h f'}" "map_of h f = None" by (auto simp: gm_has_def)
    then show ?thesis using Cons.IH [of h n] Cons.prems False by auto
  qed
qed simp

lemma re_sim_hashes:
  assumes "re_ok e"
  shows "gm_wf fs \<Longrightarrow> re_sim now e (KHSet k fs)" "re_sim now e (KHGet k f)" "re_sim now e (KHGetAll k)" "re_sim now e (KHDel k fs')"
proof -
  have opn: "\<not> re_closed e" using assms by (simp add: re_ok_def)
  note go = re_ok_live [OF assms, of k now]
  show "re_sim now e (KHSet k fs)" if "gm_wf fs"
    by (rule go) (auto simp: re_sim_simps re_HSet_def opn assms hash_fill [OF that, abs_def] hash_fill_wf intro: re_ok_intros)
  show "re_sim now e (KHGet k f)"
    by (rule go) (auto simp: re_sim_simps re_HGet_def opn assms split: option.splits)
  show "re_sim now e (KHGetAll k)"
    by (rule go) (auto simp: re_sim_simps re_HGetAll_def opn assms)
  show "re_sim now e (KHDel k fs')"
  proof (rule go)
    fix h x assume l: "re_live k now e = (e, Some (KV (KHash h) x))" "re_abs now e k = Some (AHash (map_of h), x)"
      "x = 0 \<or> now < x" "gm_wf h"
    obtain h' n where r: "foldl (\<lambda>(h, n) f. if gm_has h f then (AList.delete f h, n + 1) else (h, n)) (h, 0 :: int) fs' = (h', n)" by fastforce
    note D = hash_drop [OF r]
    have h': "map_of h' = map_of h |` (- set fs')" using D by (auto simp: fun_eq_iff restrict_map_def)
    have n: "n = int (card (set fs' \<inter> dom (map_of h)))" using D by (auto simp: gm_has_def dom_def Int_def)
    have "map_of h |` (- set fs') = Map.empty \<longleftrightarrow> h' = []" unfolding h' [symmetric] by (cases h') (auto simp: fun_eq_iff)
    then show ?thesis using l h' n D
      by (auto simp: re_sim_simps re_HDel_def opn assms r intro: re_ok_intros)
  qed (auto simp: re_sim_simps re_HDel_def opn assms)
qed

text \<open>Sets.\<close>

lemma re_sim_sets:
  assumes "re_ok e"
  shows "re_sim now e (KSAdd k ms)" "re_sim now e (KSRem k ms)" "re_sim now e (KSMembers k)" "re_sim now e (KSIsMember k m)"
proof -
  have opn: "\<not> re_closed e" using assms by (simp add: re_ok_def)
  note go = re_ok_live [OF assms, of k now]
  show "re_sim now e (KSAdd k ms)"
  proof (rule go)
    fix s x assume l: "re_live k now e = (e, Some (KV (KSet s) x))" "re_abs now e k = Some (ASet (set s), x)" "x = 0 \<or> now < x" "distinct s"
    then show ?thesis using set_add_card [OF l(4), of ms] by (auto simp: re_sim_simps re_SAdd_def opn assms intro!: re_ok_intros)
  qed (use set_add_card [of "[]" ms] in \<open>auto simp: re_sim_simps re_SAdd_def opn assms intro!: re_ok_intros\<close>)
  show "re_sim now e (KSRem k ms)"
  proof (rule go)
    fix s x assume l: "re_live k now e = (e, Some (KV (KSet s) x))" "re_abs now e k = Some (ASet (set s), x)" "x = 0 \<or> now < x" "distinct s"
    obtain s' n where s': "set_rem ms s 0 = (s', n)" "distinct s'" "set s' = set s - set ms" "n = int (card (set ms \<inter> set s))"
      using set_rem_card [OF l(4)] by blast
    have "s' = [] \<longleftrightarrow> set s \<subseteq> set ms" using s'(3) by (metis Diff_eq_empty_iff set_empty)
    then show ?thesis using l s' by (auto simp: re_sim_simps re_SRem_def opn assms intro!: re_ok_intros)
  qed (auto simp: re_sim_simps re_SRem_def opn assms)
  show "re_sim now e (KSMembers k)" by (rule go) (auto simp: re_sim_simps re_SMembers_def opn assms)
  show "re_sim now e (KSIsMember k m)" by (rule go) (auto simp: re_sim_simps re_SIsMember_def opn assms)
qed

text \<open>Commands over several keys.\<close>

lemma count_loop:
  "re_ok e \<Longrightarrow> foldl (\<lambda>(e, n) k. case re_live k now e of (e, Some _) \<Rightarrow> (e, n + 1) | (e, None) \<Rightarrow> (e, n)) (e, n :: int) ks = (e', n') \<Longrightarrow>
     re_ok e' \<and> re_abs now e' = re_abs now e \<and> n' = n + int (length (filter (\<lambda>k. re_abs now e k \<noteq> None) ks))"
proof (induction ks arbitrary: e n)
  case (Cons k ks)
  show ?case
  proof (rule re_ok_live [OF Cons.prems(1), of k now])
    fix e1 assume "re_live k now e = (e1, None)" "re_abs now e k = None" "re_ok e1" "re_abs now e1 = re_abs now e"
    then show ?thesis using Cons.IH [of e1 n] Cons.prems(2) by auto
  qed (use Cons.IH [of e "n + 1"] Cons.prems in auto)
qed simp

lemma mget_loop:
  "re_ok e \<Longrightarrow> foldl (\<lambda>(e, out) k. case re_live k now e of (e, Some (KV (KStr s) _)) \<Rightarrow> (e, out @ [Some s])
        | (e, _) \<Rightarrow> (e, out @ [None])) (e, out) ks = (e', out') \<Longrightarrow>
     re_ok e' \<and> re_abs now e' = re_abs now e \<and> out' = out @ map (\<lambda>k. ks_str (re_abs now e k)) ks"
proof (induction ks arbitrary: e out)
  case (Cons k ks)
  show ?case
  proof (rule re_ok_live [OF Cons.prems(1), of k now])
    fix s x assume "re_live k now e = (e, Some (KV (KStr s) x))" "re_abs now e k = Some (AStr s, x)"
    then show ?thesis using Cons.IH [of e "out @ [Some s]"] Cons.prems by auto
  next
    fix e1 assume "re_live k now e = (e1, None)" "re_abs now e k = None" "re_ok e1" "re_abs now e1 = re_abs now e"
    then show ?thesis using Cons.IH [of e1 "out @ [None]"] Cons.prems(2) by auto
  qed (use Cons.IH [of e "out @ [None]"] Cons.prems in auto)
qed simp

lemma setmany_loop:
  assumes "gm_wf kvs" "re_ok e" "x = 0 \<or> now < x"
  shows "re_ok (foldl (\<lambda>e (k, v). e\<lparr>re_data := AList.update k (KV (KStr v) x) (re_data e)\<rparr>) e kvs)
    \<and> re_abs now (foldl (\<lambda>e (k, v). e\<lparr>re_data := AList.update k (KV (KStr v) x) (re_data e)\<rparr>) e kvs)
      = (\<lambda>k. case map_of kvs k of Some v \<Rightarrow> Some (AStr v, x) | None \<Rightarrow> re_abs now e k)"
  using assms(1,2)
proof (induction kvs arbitrary: e)
  case (Cons kv kvs)
  obtain k v where kv: "kv = (k, v)" by (cases kv)
  let ?e = "e\<lparr>re_data := AList.update k (KV (KStr v) x) (re_data e)\<rparr>"
  have "map_of kvs k = None" "gm_wf kvs" using Cons.prems(1) kv by (auto simp: gm_wf_def map_of_eq_None_iff)
  moreover have "re_abs now ?e = (re_abs now e)(k \<mapsto> (AStr v, x))" using assms(3) by (simp add: re_abs_simps)
  moreover have "re_ok ?e" by (rule re_ok_update) (use Cons.prems(2) in simp_all)
  ultimately show ?case using Cons.IH [of ?e] kv by (auto simp: fun_eq_iff split: option.splits)
qed (simp add: fun_eq_iff)

lemma re_dom: "re_abs now e k \<noteq> None \<Longrightarrow> k \<in> fst ` set (re_data e)"
  by (auto simp: re_abs_def re_look_def dest: map_of_SomeD intro: rev_image_eqI split: option.splits)

lemma re_count:
  assumes "gm_wf (re_data e)"
  shows "length (filter (\<lambda>k. re_abs now e k \<noteq> None) (map fst (re_data e))) = card (dom (re_abs now e))"
proof -
  have "set (filter (\<lambda>k. re_abs now e k \<noteq> None) (map fst (re_data e))) = dom (re_abs now e)" using re_dom [of now e] by (auto simp: dom_def)
  moreover have "distinct (filter (\<lambda>k. re_abs now e k \<noteq> None) (map fst (re_data e)))" using assms by (simp add: gm_wf_def)
  ultimately show ?thesis by (metis distinct_card)
qed

lemma re_abs_None: "re_look now e k \<noteq> None \<longleftrightarrow> re_abs now e k \<noteq> None"
  by (simp add: re_abs_def)

lemma re_sim_bulk:
  assumes "re_ok e"
  shows "re_sim now e (KDel ks)" "re_sim now e (KExists ks)" "re_sim now e (KMGet ks)" "gm_wf kvs \<Longrightarrow> re_sim now e (KSetMany kvs ttl)"
    "re_sim now e (KScan pat)" "re_sim now e KCount"
proof -
  have opn: "\<not> re_closed e" and wf: "gm_wf (re_data e)" using assms by (simp_all add: re_ok_def)
  obtain e' n where d: "foldl (re_del_step now) (e, 0) ks = (e', n)" by fastforce
  have "re_abs now e' = (\<lambda>k. if k \<in> set ks then None else re_abs now e k)"
    "n = int (card {k \<in> set ks. re_abs now e k \<noteq> None})"
    using re_del_loop [OF d] by (auto simp: re_abs_def)
  moreover have "re_ok e'" by (rule re_del_loop_keeps [OF re_ok_delete d assms])
  ultimately show "re_sim now e (KDel ks)" by (simp add: re_sim_simps re_Del_def opn re_del_step_def [symmetric] d)
  show "re_sim now e (KExists ks)"
    using count_loop [OF assms, of now 0 ks] by (auto simp: re_sim_simps re_Exists_def opn split: prod.splits)
  show "re_sim now e (KMGet ks)"
    using mget_loop [OF assms, of now "[]" ks] by (auto simp: re_sim_simps re_MGet_def opn split: prod.splits)
  show "re_sim now e (KSetMany kvs ttl)" if "gm_wf kvs"
    using setmany_loop [OF that assms, of "re_expiry ttl now" now] by (auto simp: re_sim_simps re_SetMany_def opn)
  let ?Q = "\<lambda>k. pat = '''' \<or> pat = ''*'' \<or> MatchGlob pat k"
  obtain e'' out where s: "foldl (re_scan_step ?Q now) (e, []) (map fst (re_data e)) = (e'', out)" by fastforce
  have "re_abs now e'' = re_abs now e" using re_scan_loop [OF s] by (simp add: re_abs_def fun_eq_iff)
  moreover have "set out = {k. ?Q k \<and> re_abs now e k \<noteq> None}"
    using re_scan_loop [OF s] re_dom [of now e] unfolding re_abs_None by auto
  moreover have "re_ok e''" by (rule re_scan_loop_keeps [OF re_ok_delete s assms])
  moreover have "re_ScanKeys pat now e = (e'', Inr out)" using s by (simp add: re_ScanKeys_def opn re_scan_step_def [symmetric])
  ultimately show "re_sim now e (KScan pat)" by (simp add: re_sim_simps MatchGlob_iff)
  show "re_sim now e KCount"
    using count_loop [OF assms, of now 0 "map fst (re_data e)"] re_count [OF wf, of now] by (auto simp: re_sim_simps re_KeyCount_def split: prod.splits)
qed

section \<open>Property\<close>

interpretation emul: store_refinement re_exec ks_exec view_at re_abs re_ok re_cmd_ok
proof (unfold_locales, goal_cases)
  case (1 t t' s k)
  then show ?case by (rule re_abs_later)
next
  case (2 s c now)
  then have "re_sim now s c"
    by (cases c) (simp_all add: re_sim_strings re_sim_compare re_sim_hashes re_sim_sets re_sim_bulk)
  then show ?case by (simp add: re_sim_def)
next
  case (3 s c now)
  then have "re_sim now s c"
    by (cases c) (simp_all add: re_sim_strings re_sim_compare re_sim_hashes re_sim_sets re_sim_bulk)
  then show ?case by (simp add: re_sim_def)
qed

text \<open>
  C13. The Redis emulator is observationally a typed keyspace with expiry: for every sequence of its
  data commands (strings, counters, compare-and-*, bulk reads and writes, scans, hashes and sets)
  at non-decreasing instants, the answers of a new emulator are those of the specification, in
  which a key is gone from its expiry instant on, a hash or set that loses its last element
  disappears, and every count is the number of elements that changed. The Go maps passed as
  arguments hold each key once.
\<close>

theorem emulator_refines_keyspace:
  assumes "sorted (map fst cs)" "\<And>t c. (t, c) \<in> set cs \<Longrightarrow> re_cmd_ok c"
  shows "store_run re_exec cs re_New = fading_run view_at ks_exec cs (\<lambda>_. None)"
proof (rule emul.run_refines)
  show "re_ok re_New" by (simp add: re_ok_def re_New_def)
  show "re_abs t re_New = (\<lambda>k. view_at t None)" for t by (simp add: fun_eq_iff re_abs_def re_look_def re_New_def)
qed (use assms in auto)

theorem emulator_refines_keyspace_witness:
  "store_run re_exec [(1, KHSet ''s'' [(''a'', ''x'')]), (2, KExpire ''s'' 5), (4, KHGet ''s'' ''a''), (5, KSAdd ''m'' [''u'', ''v'', ''u'']),
      (7, KHGet ''s'' ''a''), (8, KIncr ''n''), (9, KSRem ''m'' [''v'', ''u'']), (10, KExists [''m'', ''n''])] re_New
   = [ResOk, ResBool True, ResStr (Some ''x''), ResInt 2, ResErr ErrNil, ResInt 1, ResInt 2, ResInt 1]"
  by (subst emulator_refines_keyspace) (auto simp: view_at_def re_expiry_def wrap64_small ks_hash_def ks_set_def card_insert_if)

end
