(* ===== verification/Coord_Backend.thy ===== *)
theory Coord_Backend
  imports Go_Sets Expiring_Store "HOL-Library.Sublist"
begin

text \<open>
  The coordination backend (\<open>coordination/backend\<close>): the interface \<open>Backend\<close> as a record of
  operations over a backend state, and the in-memory implementation \<open>Memory\<close>.

  Every operation takes the instant at which the backend executes it. The contract the cluster
  services rely on is the locale \<open>backend_contract\<close>: it speaks about the live contents of the
  store (\<open>view\<close>: key to value and expiry instant) and is discharged here for \<open>Memory\<close>. Its
  commands refine those of a map with expiring entries.
\<close>

section \<open>The interface\<close>

text \<open>\<open>ErrBackendNil\<close> is the cache's \<open>ErrNil\<close>, which the Redis adapter passes on as it is.\<close>

datatype be_error = ErrBackendUnavailable | ErrBackendContext | ErrBackendClosed | ErrBackendNil

record 's backend_ops =
  be_Get :: "string \<Rightarrow> time \<Rightarrow> 's \<Rightarrow> 's \<times> (be_error + string option)"
  be_Set :: "string \<Rightarrow> string \<Rightarrow> duration \<Rightarrow> time \<Rightarrow> 's \<Rightarrow> 's \<times> be_error option"
  be_SetNX :: "string \<Rightarrow> string \<Rightarrow> duration \<Rightarrow> time \<Rightarrow> 's \<Rightarrow> 's \<times> (be_error + bool)"
  be_Delete :: "string list \<Rightarrow> time \<Rightarrow> 's \<Rightarrow> 's \<times> (be_error + int)"
  be_CompareAndSwap :: "string \<Rightarrow> string \<Rightarrow> string \<Rightarrow> duration \<Rightarrow> time \<Rightarrow> 's \<Rightarrow> 's \<times> (be_error + bool)"
  be_CompareAndDelete :: "string \<Rightarrow> string \<Rightarrow> time \<Rightarrow> 's \<Rightarrow> 's \<times> (be_error + bool)"
  be_CompareAndExpire :: "string \<Rightarrow> string \<Rightarrow> duration \<Rightarrow> time \<Rightarrow> 's \<Rightarrow> 's \<times> (be_error + bool)"
  be_Expire :: "string \<Rightarrow> duration \<Rightarrow> time \<Rightarrow> 's \<Rightarrow> 's \<times> (be_error + bool)"
  be_TTL :: "string \<Rightarrow> time \<Rightarrow> time \<Rightarrow> 's \<Rightarrow> 's \<times> (be_error + duration)"
  be_SAdd :: "string \<Rightarrow> string list \<Rightarrow> time \<Rightarrow> 's \<Rightarrow> 's \<times> (be_error + int)"
  be_SRem :: "string \<Rightarrow> string list \<Rightarrow> time \<Rightarrow> 's \<Rightarrow> 's \<times> (be_error + int)"
  be_SMembers :: "string \<Rightarrow> time \<Rightarrow> 's \<Rightarrow> 's \<times> (be_error + string list)"
  be_Scan :: "string \<Rightarrow> time \<Rightarrow> 's \<Rightarrow> 's \<times> (be_error + string list)"

section \<open>The in-memory store\<close>

record mem_entry =
  en_value :: string
  en_expireAt :: time  \<comment> \<open>zero: no expiry\<close>

text \<open>\<open>ms_closed\<close> is both the \<open>sync.Once\<close> and the closed flag of the subscription's channel.\<close>

record mem_sub =
  ms_channel :: string
  ms_buf :: "string list"
  ms_closed :: bool

record memory =
  mm_kv :: "(string, mem_entry) gomap"
  mm_sets :: "(string, string list) gomap"
  mm_subs :: "(string, nat list) gomap"
  mm_store :: "mem_sub list"  \<comment> \<open>the subscriptions handed out, by address\<close>
  mm_closed :: bool

definition mem_New :: memory where
  "mem_New = \<lparr>mm_kv = [], mm_sets = [], mm_subs = [], mm_store = [], mm_closed = False\<rparr>"

definition mem_live :: "string \<Rightarrow> time \<Rightarrow> memory \<Rightarrow> memory \<times> mem_entry option" where
  "mem_live key now m =
    (case map_of (mm_kv m) key of
       None \<Rightarrow> (m, None)
     | Some e \<Rightarrow>
         if en_expireAt e \<noteq> 0 \<and> \<not> now < en_expireAt e
         then (m\<lparr>mm_kv := AList.delete key (mm_kv m)\<rparr>, None)
         else (m, Some e))"

definition mem_expiry :: "duration \<Rightarrow> time \<Rightarrow> time" where
  "mem_expiry ttl now = (if ttl \<le> 0 then 0 else now + ttl)"

definition mem_Get :: "string \<Rightarrow> time \<Rightarrow> memory \<Rightarrow> memory \<times> (be_error + string option)" where
  "mem_Get key now m = (case mem_live key now m of (m, e) \<Rightarrow> (m, Inr (map_option en_value e)))"

definition mem_put :: "string \<Rightarrow> string \<Rightarrow> duration \<Rightarrow> time \<Rightarrow> memory \<Rightarrow> memory" where
  "mem_put key v ttl now m =
     m\<lparr>mm_kv := AList.update key \<lparr>en_value = v, en_expireAt = mem_expiry ttl now\<rparr> (mm_kv m)\<rparr>"

definition mem_Set :: "string \<Rightarrow> string \<Rightarrow> duration \<Rightarrow> time \<Rightarrow> memory \<Rightarrow> memory \<times> be_error option" where
  "mem_Set key v ttl now m = (mem_put key v ttl now m, None)"

definition mem_SetNX :: "string \<Rightarrow> string \<Rightarrow> duration \<Rightarrow> time \<Rightarrow> memory \<Rightarrow> memory \<times> (be_error + bool)" where
  "mem_SetNX key v ttl now m =
    (case mem_live key now m of
       (m, Some _) \<Rightarrow> (m, Inr False)
     | (m, None) \<Rightarrow> (mem_put key v ttl now m, Inr True))"

fun mem_Delete_loop :: "string list \<Rightarrow> time \<Rightarrow> memory \<Rightarrow> int \<Rightarrow> memory \<times> int" where
  "mem_Delete_loop [] now m n = (m, n)"
| "mem_Delete_loop (k # ks) now m n =
    (case mem_live k now m of
       (m, Some _) \<Rightarrow> mem_Delete_loop ks now (m\<lparr>mm_kv := AList.delete k (mm_kv m)\<rparr>) (n + 1)
     | (m, None) \<Rightarrow> mem_Delete_loop ks now m n)"

definition mem_Delete :: "string list \<Rightarrow> time \<Rightarrow> memory \<Rightarrow> memory \<times> (be_error + int)" where
  "mem_Delete ks now m = (case mem_Delete_loop ks now m 0 of (m, n) \<Rightarrow> (m, Inr n))"

definition mem_refresh :: "string \<Rightarrow> mem_entry \<Rightarrow> duration \<Rightarrow> time \<Rightarrow> memory \<Rightarrow> memory" where
  "mem_refresh key e ttl now m = m\<lparr>mm_kv := AList.update key (e\<lparr>en_expireAt := mem_expiry ttl now\<rparr>) (mm_kv m)\<rparr>"

definition mem_Expire :: "string \<Rightarrow> duration \<Rightarrow> time \<Rightarrow> memory \<Rightarrow> memory \<times> (be_error + bool)" where
  "mem_Expire key ttl now m =
    (case mem_live key now m of
       (m, None) \<Rightarrow> (m, Inr False)
     | (m, Some e) \<Rightarrow> (mem_refresh key e ttl now m, Inr True))"

text \<open>\<open>until\<close> is the instant \<open>time.Until\<close> reads, after the liveness check.\<close>

definition mem_TTL :: "string \<Rightarrow> time \<Rightarrow> time \<Rightarrow> memory \<Rightarrow> memory \<times> (be_error + duration)" where
  "mem_TTL key now until m =
    (case mem_live key now m of
       (m, None) \<Rightarrow> (m, Inr (- 2 * Second))
     | (m, Some e) \<Rightarrow> (m, Inr (if en_expireAt e = 0 then - 1 * Second else en_expireAt e - until)))"

definition mem_CompareAndSwap ::
  "string \<Rightarrow> string \<Rightarrow> string \<Rightarrow> duration \<Rightarrow> time \<Rightarrow> memory \<Rightarrow> memory \<times> (be_error + bool)" where
  "mem_CompareAndSwap key expected newValue ttl now m =
    (case mem_live key now m of
       (m, None) \<Rightarrow> if expected \<noteq> '''' then (m, Inr False) else (mem_put key newValue ttl now m, Inr True)
     | (m, Some e) \<Rightarrow> if en_value e \<noteq> expected then (m, Inr False)
                     else (mem_put key newValue ttl now m, Inr True))"

definition mem_CompareAndDelete :: "string \<Rightarrow> string \<Rightarrow> time \<Rightarrow> memory \<Rightarrow> memory \<times> (be_error + bool)" where
  "mem_CompareAndDelete key expected now m =
    (case mem_live key now m of
       (m, None) \<Rightarrow> (m, Inr False)
     | (m, Some e) \<Rightarrow> if en_value e \<noteq> expected then (m, Inr False)
                     else (m\<lparr>mm_kv := AList.delete key (mm_kv m)\<rparr>, Inr True))"

definition mem_CompareAndExpire ::
  "string \<Rightarrow> string \<Rightarrow> duration \<Rightarrow> time \<Rightarrow> memory \<Rightarrow> memory \<times> (be_error + bool)" where
  "mem_CompareAndExpire key expected ttl now m =
    (case mem_live key now m of
       (m, None) \<Rightarrow> (m, Inr False)
     | (m, Some e) \<Rightarrow> if en_value e \<noteq> expected then (m, Inr False)
                     else (mem_refresh key e ttl now m, Inr True))"

subsection \<open>Sets\<close>

definition mem_SAdd :: "string \<Rightarrow> string list \<Rightarrow> memory \<Rightarrow> memory \<times> (be_error + int)" where
  "mem_SAdd key members m =
    (let s = (case map_of (mm_sets m) key of None \<Rightarrow> [] | Some s \<Rightarrow> s)
     in case set_add members s 0 of (s, n) \<Rightarrow> (m\<lparr>mm_sets := AList.update key s (mm_sets m)\<rparr>, Inr n))"

definition mem_SRem :: "string \<Rightarrow> string list \<Rightarrow> memory \<Rightarrow> memory \<times> (be_error + int)" where
  "mem_SRem key members m =
    (case map_of (mm_sets m) key of
       None \<Rightarrow> (m, Inr 0)
     | Some s \<Rightarrow>
         (case set_rem members s 0 of (s, n) \<Rightarrow>
            (m\<lparr>mm_sets := (if s = [] then AList.delete key (mm_sets m)
                           else AList.update key s (mm_sets m))\<rparr>, Inr n)))"

definition mem_SMembers :: "string \<Rightarrow> memory \<Rightarrow> be_error + string list" where
  "mem_SMembers key m = Inr (case map_of (mm_sets m) key of None \<Rightarrow> [] | Some s \<Rightarrow> s)"

subsection \<open>Scan\<close>

text \<open>The scan evicts the expired entries it meets while it ranges over the map.\<close>

fun mem_Scan_loop :: "string list \<Rightarrow> string \<Rightarrow> time \<Rightarrow> memory \<Rightarrow> string list \<Rightarrow> memory \<times> string list" where
  "mem_Scan_loop [] pre now m out = (m, out)"
| "mem_Scan_loop (k # ks) pre now m out =
    (case mem_live k now m of
       (m, None) \<Rightarrow> mem_Scan_loop ks pre now m out
     | (m, Some _) \<Rightarrow> mem_Scan_loop ks pre now m (if prefix pre k then out @ [k] else out))"

definition mem_Scan :: "string \<Rightarrow> time \<Rightarrow> memory \<Rightarrow> memory \<times> (be_error + string list)" where
  "mem_Scan pre now m = (case mem_Scan_loop (map fst (mm_kv m)) pre now m [] of (m, out) \<Rightarrow> (m, Inr out))"

subsection \<open>Publish and subscribe\<close>

text \<open>
  A send on a closed channel panics (\<^const>\<open>None\<close>); a full buffer drops the payload. On a closed
  backend \<open>Subscribe\<close> returns a nil subscription and no error: \<open>None\<close> in the second place.
\<close>

fun mem_send :: "string \<Rightarrow> nat list \<Rightarrow> mem_sub list \<Rightarrow> mem_sub list option" where
  "mem_send payload [] st = Some st"
| "mem_send payload (i # is) st =
    (if ms_closed (st ! i) then None
     else mem_send payload is
       (if length (ms_buf (st ! i)) < 256
        then st[i := (st ! i)\<lparr>ms_buf := ms_buf (st ! i) @ [payload]\<rparr>] else st))"

definition mem_targets :: "string \<Rightarrow> memory \<Rightarrow> nat list" where
  "mem_targets ch m = (case map_of (mm_subs m) ch of None \<Rightarrow> [] | Some s \<Rightarrow> s)"

definition mem_Publish :: "string \<Rightarrow> string \<Rightarrow> memory \<Rightarrow> memory option" where
  "mem_Publish ch payload m =
    (if mm_closed m then Some m
     else map_option (\<lambda>st. m\<lparr>mm_store := st\<rparr>) (mem_send payload (mem_targets ch m) (mm_store m)))"

definition mem_Subscribe :: "string \<Rightarrow> memory \<Rightarrow> memory \<times> nat option" where
  "mem_Subscribe ch m =
    (if mm_closed m then (m, None)
     else let i = length (mm_store m)
          in (m\<lparr>mm_store := mm_store m @ [\<lparr>ms_channel = ch, ms_buf = [], ms_closed = False\<rparr>],
                mm_subs := AList.update ch (mem_targets ch m @ [i]) (mm_subs m)\<rparr>, Some i))"

definition mem_removeSub :: "nat \<Rightarrow> memory \<Rightarrow> memory" where
  "mem_removeSub i m =
    (let ch = ms_channel (mm_store m ! i)
     in case map_of (mm_subs m) ch of
          None \<Rightarrow> m
        | Some s \<Rightarrow>
            let s = removeAll i s
            in m\<lparr>mm_subs := (if s = [] then AList.delete ch (mm_subs m)
                             else AList.update ch s (mm_subs m))\<rparr>)"

definition mem_closeChan :: "nat \<Rightarrow> memory \<Rightarrow> memory" where
  "mem_closeChan i m = m\<lparr>mm_store := (mm_store m)[i := (mm_store m ! i)\<lparr>ms_closed := True\<rparr>]\<rparr>"

definition mem_sub_Close :: "nat \<Rightarrow> memory \<Rightarrow> memory" where
  "mem_sub_Close i m = mem_closeChan i (mem_removeSub i m)"

definition mem_Close :: "memory \<Rightarrow> memory" where
  "mem_Close m =
    (if mm_closed m then m
     else (fold mem_closeChan (concat (map snd (mm_subs m))) (m\<lparr>mm_closed := True\<rparr>))\<lparr>mm_subs := []\<rparr>)"

definition mem_ops :: "memory backend_ops" where
  "mem_ops = \<lparr>be_Get = mem_Get, be_Set = mem_Set, be_SetNX = mem_SetNX, be_Delete = mem_Delete,
     be_CompareAndSwap = mem_CompareAndSwap, be_CompareAndDelete = mem_CompareAndDelete,
     be_CompareAndExpire = mem_CompareAndExpire, be_Expire = mem_Expire, be_TTL = mem_TTL,
     be_SAdd = (\<lambda>k ms now. mem_SAdd k ms), be_SRem = (\<lambda>k ms now. mem_SRem k ms),
     be_SMembers = (\<lambda>k now m. (m, mem_SMembers k m)), be_Scan = mem_Scan\<rparr>"

section \<open>The contract of the key-value operations\<close>

type_synonym kv_view = "string \<Rightarrow> (string \<times> time) option"

locale backend_contract =
  fixes B :: "'s backend_ops" and view :: "time \<Rightarrow> 's \<Rightarrow> kv_view"
  assumes view_later: "t \<le> t' \<Longrightarrow> view t' s k = view_at t' (view t s k)"
    and Get_law: "be_Get B k now s = (s', Inr r) \<Longrightarrow> view now s' = view now s \<and> r = map_option fst (view now s k)"
    and Get_err: "be_Get B k now s = (s', Inl err) \<Longrightarrow> view now s' = view now s"
    and SetNX_law: "be_SetNX B k v ttl now s = (s', Inr ok) \<Longrightarrow>
      (ok \<longrightarrow> view now s k = None) \<and>
      view now s' = (if ok then (view now s)(k \<mapsto> (v, mem_expiry ttl now)) else view now s)"
    and SetNX_err: "be_SetNX B k v ttl now s = (s', Inl err) \<Longrightarrow> view now s' = view now s"
    and CAS_law: "be_CompareAndSwap B k x v ttl now s = (s', Inr ok) \<Longrightarrow>
      (ok \<longrightarrow> (case view now s k of None \<Rightarrow> x = '''' | Some (w, e) \<Rightarrow> w = x)) \<and>
      view now s' = (if ok then (view now s)(k \<mapsto> (v, mem_expiry ttl now)) else view now s)"
    and CAS_err: "be_CompareAndSwap B k x v ttl now s = (s', Inl err) \<Longrightarrow> view now s' = view now s"
    and CAD_law: "be_CompareAndDelete B k x now s = (s', Inr ok) \<Longrightarrow>
      (ok \<longleftrightarrow> (\<exists>e. view now s k = Some (x, e))) \<and>
      view now s' = (if ok then (view now s)(k := None) else view now s)"
    and CAD_err: "be_CompareAndDelete B k x now s = (s', Inl err) \<Longrightarrow> view now s' = view now s"
    and CAE_law: "be_CompareAndExpire B k x ttl now s = (s', Inr ok) \<Longrightarrow>
      (ok \<longleftrightarrow> (\<exists>e. view now s k = Some (x, e))) \<and>
      view now s' = (if ok then (view now s)(k \<mapsto> (x, mem_expiry ttl now)) else view now s)"
    and CAE_err: "be_CompareAndExpire B k x ttl now s = (s', Inl err) \<Longrightarrow> view now s' = view now s"
begin

lemmas op_laws = Get_law SetNX_law CAS_law CAD_law CAE_law
lemmas op_errs = Get_err SetNX_err CAS_err CAD_err CAE_err

text \<open>A lease: the key keeps its value until the expiry instant as long as nobody writes it.\<close>

lemma view_lasts: "view t s k = Some (v, e) \<Longrightarrow> t \<le> t' \<Longrightarrow> e = 0 \<or> t' < e \<Longrightarrow> view t' s k = Some (v, e)"
  using view_later [of t t' s k] by (auto simp: view_at_def)

lemma view_expires: "view t s k = Some (v, e) \<Longrightarrow> t \<le> t' \<Longrightarrow> e \<noteq> 0 \<Longrightarrow> e \<le> t' \<Longrightarrow> view t' s k = None"
  using view_later [of t t' s k] by (simp add: view_at_def)

end

section \<open>Memory implements the contract\<close>

definition mem_view :: "time \<Rightarrow> memory \<Rightarrow> kv_view" where
  "mem_view now m k = view_at now (map_option (\<lambda>e. (en_value e, en_expireAt e)) (map_of (mm_kv m) k))"

lemma mem_expiry_live [simp]: "view_at now (Some (v, mem_expiry ttl now)) = Some (v, mem_expiry ttl now)"
  by (simp add: view_at_def mem_expiry_def)

lemma mem_live_eq:
  "mem_live k now m =
    (case mem_view now m k of
       None \<Rightarrow> (m\<lparr>mm_kv := AList.delete k (mm_kv m)\<rparr>, None)
     | Some _ \<Rightarrow> (m, map_of (mm_kv m) k))"
proof (cases "map_of (mm_kv m) k")
  case None
  then have "AList.delete k (mm_kv m) = mm_kv m" by (simp add: map_of_eq_None_iff)
  with None show ?thesis by (simp add: mem_live_def mem_view_def)
next
  case (Some e)
  then show ?thesis by (simp add: mem_live_def mem_view_def view_at_def)
qed

lemma mem_view_Some:
  "mem_view now m k = Some (v, x) \<Longrightarrow> \<exists>e. map_of (mm_kv m) k = Some e \<and> en_value e = v \<and> en_expireAt e = x"
  by (auto simp: mem_view_def view_at_def split: option.splits if_splits)

lemma mem_delete_view: "mem_view now (m\<lparr>mm_kv := AList.delete k (mm_kv m)\<rparr>) = (mem_view now m)(k := None)"
  by (rule ext) (simp add: mem_view_def)

lemma mem_put_view: "mem_view now (mem_put k v ttl now m) = (mem_view now m)(k \<mapsto> (v, mem_expiry ttl now))"
  by (rule ext) (simp add: mem_put_def mem_view_def)

lemma mem_refresh_view:
  "mem_view now (mem_refresh k e ttl now m) = (mem_view now m)(k \<mapsto> (en_value e, mem_expiry ttl now))"
  by (rule ext) (simp add: mem_refresh_def mem_view_def)

lemmas mem_view_simps = mem_put_view mem_refresh_view mem_delete_view

lemma mem_live_cases:
  obtains (live) m' e where "mem_live k now m = (m', Some e)" "mem_view now m' = mem_view now m"
      "mem_view now m k = Some (en_value e, en_expireAt e)"
  | (dead) m' where "mem_live k now m = (m', None)" "mem_view now m' = mem_view now m" "mem_view now m k = None"
proof (cases "mem_view now m k")
  case None
  then have "(mem_view now m)(k := None) = mem_view now m" by (simp add: fun_upd_idem)
  with None show thesis by (intro dead [of "m\<lparr>mm_kv := AList.delete k (mm_kv m)\<rparr>"]) (simp_all add: mem_live_eq mem_delete_view)
next
  case (Some ve)
  then obtain e where "map_of (mm_kv m) k = Some e" "ve = (en_value e, en_expireAt e)"
    using mem_view_Some [of now m k "fst ve" "snd ve"] by (metis prod.collapse)
  with Some show thesis by (intro live [of m e]) (simp_all add: mem_live_eq)
qed

lemma mem_ops_eval:
  "snd (mem_Get k now m) = Inr (map_option fst (mem_view now m k))"
  "mem_view now (fst (mem_Get k now m)) = mem_view now m"
  "snd (mem_SetNX k v ttl now m) = Inr (mem_view now m k = None)"
  "mem_view now (fst (mem_SetNX k v ttl now m)) =
     (if mem_view now m k = None then (mem_view now m)(k \<mapsto> (v, mem_expiry ttl now)) else mem_view now m)"
  by (cases rule: mem_live_cases [of k now m], auto simp: mem_Get_def mem_SetNX_def mem_view_simps)+

lemma mem_cmp_eval:
  "snd (mem_CompareAndSwap k x v ttl now m) =
     Inr (case mem_view now m k of None \<Rightarrow> x = '''' | Some (w, e) \<Rightarrow> w = x)"
  "mem_view now (fst (mem_CompareAndSwap k x v ttl now m)) =
     (if (case mem_view now m k of None \<Rightarrow> x = '''' | Some (w, e) \<Rightarrow> w = x)
      then (mem_view now m)(k \<mapsto> (v, mem_expiry ttl now)) else mem_view now m)"
  "snd (mem_CompareAndDelete k x now m) = Inr (\<exists>e. mem_view now m k = Some (x, e))"
  "mem_view now (fst (mem_CompareAndDelete k x now m)) =
     (if \<exists>e. mem_view now m k = Some (x, e) then (mem_view now m)(k := None) else mem_view now m)"
  "snd (mem_CompareAndExpire k x ttl now m) = Inr (\<exists>e. mem_view now m k = Some (x, e))"
  "mem_view now (fst (mem_CompareAndExpire k x ttl now m)) =
     (if \<exists>e. mem_view now m k = Some (x, e)
      then (mem_view now m)(k \<mapsto> (x, mem_expiry ttl now)) else mem_view now m)"
  by (cases rule: mem_live_cases [of k now m],
      auto simp: mem_CompareAndSwap_def mem_CompareAndDelete_def mem_CompareAndExpire_def mem_view_simps)+

interpretation mem: backend_contract mem_ops mem_view
proof (unfold_locales, goal_cases)
  case (1 t t' s k)
  then show ?case by (simp add: mem_view_def view_at_later)
next
  case (2 k now s s' r)
  then show ?case using mem_ops_eval(1,2) [where k = k and now = now and m = s] by (simp add: mem_ops_def)
next
  case (3 k now s s' err)
  then show ?case using mem_ops_eval(1) [where k = k and now = now and m = s] by (simp add: mem_ops_def)
next
  case (4 k v ttl now s s' ok)
  then show ?case using mem_ops_eval(3,4) [where k = k and v = v and ttl = ttl and now = now and m = s] by (simp add: mem_ops_def)
next
  case (5 k v ttl now s s' err)
  then show ?case using mem_ops_eval(3) [where k = k and v = v and ttl = ttl and now = now and m = s] by (simp add: mem_ops_def)
next
  case (6 k x v ttl now s s' ok)
  then show ?case using mem_cmp_eval(1,2) [where k = k and x = x and v = v and ttl = ttl and now = now and m = s] by (simp add: mem_ops_def)
next
  case (7 k x v ttl now s s' err)
  then show ?case using mem_cmp_eval(1) [where k = k and x = x and v = v and ttl = ttl and now = now and m = s] by (simp add: mem_ops_def)
next
  case (8 k x now s s' ok)
  then show ?case using mem_cmp_eval(3,4) [where k = k and x = x and now = now and m = s] by (simp add: mem_ops_def)
next
  case (9 k x now s s' err)
  then show ?case using mem_cmp_eval(3) [where k = k and x = x and now = now and m = s] by (simp add: mem_ops_def)
next
  case (10 k x ttl now s s' ok)
  then show ?case using mem_cmp_eval(5,6) [where k = k and x = x and ttl = ttl and now = now and m = s] by (simp add: mem_ops_def)
next
  case (11 k x ttl now s s' err)
  then show ?case using mem_cmp_eval(5) [where k = k and x = x and ttl = ttl and now = now and m = s] by (simp add: mem_ops_def)
qed

lemma mem_expire_eval:
  "snd (mem_Expire k ttl now m) = Inr (mem_view now m k \<noteq> None)"
  "mem_view now (fst (mem_Expire k ttl now m)) =
     (case mem_view now m k of None \<Rightarrow> mem_view now m
      | Some (v, e) \<Rightarrow> (mem_view now m)(k \<mapsto> (v, mem_expiry ttl now)))"
  by (cases rule: mem_live_cases [of k now m], auto simp: mem_Expire_def mem_view_simps)+

lemma mem_Delete_loop_eval:
  "mem_Delete_loop ks now m n = (m', n') \<Longrightarrow>
     mem_view now m' = (\<lambda>k. if k \<in> set ks then None else mem_view now m k)
     \<and> n' = n + int (card {k \<in> set ks. mem_view now m k \<noteq> None})"
proof (induction ks arbitrary: m n)
  case (Cons k ks)
  let ?L = "\<lambda>m ks. {k \<in> set ks. mem_view now m k \<noteq> None}"
  show ?case
  proof (cases rule: mem_live_cases [of k now m])
    case (live m1 e)
    let ?m2 = "m1\<lparr>mm_kv := AList.delete k (mm_kv m1)\<rparr>"
    have v: "mem_view now ?m2 = (mem_view now m)(k := None)" by (simp add: mem_delete_view live)
    have "?L m (k # ks) = insert k (?L ?m2 ks)" "k \<notin> ?L ?m2 ks" unfolding v using live by auto
    moreover have "finite (?L ?m2 ks)" by simp
    ultimately have "card (?L m (k # ks)) = Suc (card (?L ?m2 ks))" by simp
    then show ?thesis using Cons.IH [of ?m2 "n + 1"] Cons.prems live(1) unfolding v
      by (auto simp: live(2) fun_eq_iff)
  next
    case (dead m1)
    have "?L m (k # ks) = ?L m1 ks" using dead by auto
    then show ?thesis using Cons.IH [of m1 n] Cons.prems dead by (auto simp: fun_eq_iff)
  qed
qed simp

lemma mem_Scan_loop_eval:
  "mem_Scan_loop ks pre now m out = (m', out') \<Longrightarrow>
     mem_view now m' = mem_view now m
     \<and> out' = out @ filter (\<lambda>k. prefix pre k \<and> mem_view now m k \<noteq> None) ks"
proof (induction ks arbitrary: m out)
  case (Cons k ks)
  show ?case
  proof (cases rule: mem_live_cases [of k now m])
    case (live m1 e)
    then show ?thesis using Cons.IH [of m1 "if prefix pre k then out @ [k] else out"] Cons.prems by auto
  next
    case (dead m1)
    then show ?thesis using Cons.IH [of m1 out] Cons.prems by auto
  qed
qed simp

lemma mem_Scan_eval:
  assumes "gm_wf (mm_kv m)"
  shows "mem_view now (fst (mem_Scan pre now m)) = mem_view now m"
    "\<exists>out. snd (mem_Scan pre now m) = Inr out \<and> distinct out \<and> set out = {k. prefix pre k \<and> mem_view now m k \<noteq> None}"
proof -
  obtain m' out where r: "mem_Scan_loop (map fst (mm_kv m)) pre now m [] = (m', out)"
    by (cases "mem_Scan_loop (map fst (mm_kv m)) pre now m []")
  note L = mem_Scan_loop_eval [OF r]
  have "k \<in> set (map fst (mm_kv m))" if "mem_view now m k \<noteq> None" for k
    using that by (cases "map_of (mm_kv m) k") (auto simp: mem_view_def dest: map_of_SomeD intro: rev_image_eqI)
  then have "set out = {k. prefix pre k \<and> mem_view now m k \<noteq> None}" using L by auto
  moreover have "distinct out" using L assms by (auto simp: gm_wf_def)
  ultimately show "\<exists>out. snd (mem_Scan pre now m) = Inr out \<and> distinct out
      \<and> set out = {k. prefix pre k \<and> mem_view now m k \<noteq> None}"
    by (simp add: mem_Scan_def r)
  show "mem_view now (fst (mem_Scan pre now m)) = mem_view now m" using L by (simp add: mem_Scan_def r)
qed

section \<open>Trace refinement\<close>

datatype kv_cmd =
    CGet string | CSet string string duration | CSetNX string string duration
  | CDelete "string list" | CExpire string duration | CTTL string
  | CSwap string string string duration | CCompareDelete string string
  | CCompareExpire string string duration | CScan string

datatype kv_res = RVal "string option" | RDone | RBool bool | RCount int | RDur duration | RKeys "string set" | RErr

definition res_of :: "('a \<Rightarrow> kv_res) \<Rightarrow> 's \<times> (be_error + 'a) \<Rightarrow> 's \<times> kv_res" where
  "res_of f x = (fst x, case snd x of Inl _ \<Rightarrow> RErr | Inr r \<Rightarrow> f r)"

fun be_exec :: "'s backend_ops \<Rightarrow> kv_cmd \<Rightarrow> time \<Rightarrow> 's \<Rightarrow> 's \<times> kv_res" where
  "be_exec B (CGet k) now s = res_of RVal (be_Get B k now s)"
| "be_exec B (CSet k v ttl) now s = (case be_Set B k v ttl now s of (s, err) \<Rightarrow> (s, if err = None then RDone else RErr))"
| "be_exec B (CSetNX k v ttl) now s = res_of RBool (be_SetNX B k v ttl now s)"
| "be_exec B (CDelete ks) now s = res_of RCount (be_Delete B ks now s)"
| "be_exec B (CExpire k ttl) now s = res_of RBool (be_Expire B k ttl now s)"
| "be_exec B (CTTL k) now s = res_of RDur (be_TTL B k now now s)"
| "be_exec B (CSwap k x v ttl) now s = res_of RBool (be_CompareAndSwap B k x v ttl now s)"
| "be_exec B (CCompareDelete k x) now s = res_of RBool (be_CompareAndDelete B k x now s)"
| "be_exec B (CCompareExpire k x ttl) now s = res_of RBool (be_CompareAndExpire B k x ttl now s)"
| "be_exec B (CScan pre) now s = res_of (RKeys \<circ> set) (be_Scan B pre now s)"

text \<open>The abstract store: a map whose entries disappear at their expiry instant.\<close>

fun abs_exec :: "kv_cmd \<Rightarrow> time \<Rightarrow> kv_view \<Rightarrow> kv_view \<times> kv_res" where
  "abs_exec (CGet k) now V = (V, RVal (map_option fst (V k)))"
| "abs_exec (CSet k v ttl) now V = (V(k \<mapsto> (v, mem_expiry ttl now)), RDone)"
| "abs_exec (CSetNX k v ttl) now V =
    (if V k = None then (V(k \<mapsto> (v, mem_expiry ttl now)), RBool True) else (V, RBool False))"
| "abs_exec (CDelete ks) now V =
    (\<lambda>k. if k \<in> set ks then None else V k, RCount (int (card {k \<in> set ks. V k \<noteq> None})))"
| "abs_exec (CExpire k ttl) now V =
    (case V k of None \<Rightarrow> (V, RBool False) | Some (v, e) \<Rightarrow> (V(k \<mapsto> (v, mem_expiry ttl now)), RBool True))"
| "abs_exec (CTTL k) now V =
    (V, RDur (case V k of None \<Rightarrow> - 2 * Second | Some (v, e) \<Rightarrow> if e = 0 then - 1 * Second else e - now))"
| "abs_exec (CSwap k x v ttl) now V =
    (if (case V k of None \<Rightarrow> x = '''' | Some (w, e) \<Rightarrow> w = x)
     then (V(k \<mapsto> (v, mem_expiry ttl now)), RBool True) else (V, RBool False))"
| "abs_exec (CCompareDelete k x) now V =
    (if map_option fst (V k) = Some x then (V(k := None), RBool True) else (V, RBool False))"
| "abs_exec (CCompareExpire k x ttl) now V =
    (if map_option fst (V k) = Some x then (V(k \<mapsto> (x, mem_expiry ttl now)), RBool True) else (V, RBool False))"
| "abs_exec (CScan pre) now V = (V, RKeys {k. prefix pre k \<and> V k \<noteq> None})"

lemma mem_live_wf: "gm_wf (mm_kv m) \<Longrightarrow> gm_wf (mm_kv (fst (mem_live k now m)))"
  by (auto simp: mem_live_eq split: option.splits)

lemma mem_live_wf': "mem_live k now m = (m', r) \<Longrightarrow> gm_wf (mm_kv m) \<Longrightarrow> gm_wf (mm_kv m')"
  using mem_live_wf [of m k now] by simp

lemma mem_Delete_loop_wf: "gm_wf (mm_kv m) \<Longrightarrow> gm_wf (mm_kv (fst (mem_Delete_loop ks now m n)))"
proof (induction ks arbitrary: m n)
  case (Cons k ks)
  show ?case using mem_live_wf [OF Cons.prems, of k now] by (auto intro!: Cons.IH split: prod.splits option.splits)
qed simp

lemma mem_Scan_loop_wf: "gm_wf (mm_kv m) \<Longrightarrow> gm_wf (mm_kv (fst (mem_Scan_loop ks pre now m out)))"
proof (induction ks arbitrary: m out)
  case (Cons k ks)
  show ?case using mem_live_wf [OF Cons.prems, of k now] by (auto intro!: Cons.IH split: prod.splits option.splits)
qed simp

lemmas mem_kv_ops_def = mem_Get_def mem_Set_def mem_SetNX_def mem_Expire_def mem_TTL_def
  mem_CompareAndSwap_def mem_CompareAndDelete_def mem_CompareAndExpire_def mem_put_def mem_refresh_def

lemma mem_exec_wf:
  assumes "gm_wf (mm_kv m)"
  shows "gm_wf (mm_kv (fst (be_exec mem_ops c now m)))"
proof (cases c)
  case (CDelete ks)
  then show ?thesis using mem_Delete_loop_wf [OF assms, of ks now 0]
    by (simp add: mem_ops_def res_of_def mem_Delete_def case_prod_beta')
next
  case (CScan pre)
  then show ?thesis using mem_Scan_loop_wf [OF assms, of "map fst (mm_kv m)" pre now "[]"]
    by (simp add: mem_ops_def res_of_def mem_Scan_def case_prod_beta')
qed (use assms in
      \<open>auto simp: mem_ops_def res_of_def mem_kv_ops_def dest: mem_live_wf' split: prod.splits option.splits\<close>)

lemma mem_TTL_eval:
  "mem_TTL k now now m = (fst (mem_Get k now m),
     Inr (case mem_view now m k of None \<Rightarrow> - 2 * Second | Some (v, e) \<Rightarrow> if e = 0 then - 1 * Second else e - now))"
  by (cases rule: mem_live_cases [of k now m]) (auto simp: mem_TTL_def mem_Get_def)

lemma mem_Delete_eval:
  "mem_view now (fst (mem_Delete ks now m)) = (\<lambda>k. if k \<in> set ks then None else mem_view now m k)"
  "snd (mem_Delete ks now m) = Inr (int (card {k \<in> set ks. mem_view now m k \<noteq> None}))"
  using mem_Delete_loop_eval [of ks now m 0] by (cases "mem_Delete_loop ks now m 0", simp add: mem_Delete_def)+

lemma ex_value_iff: "(\<exists>e. x = Some (v, e)) \<longleftrightarrow> map_option fst x = Some v"
  by (cases x) auto

lemmas mem_exec_eval = mem_ops_eval mem_cmp_eval [unfolded ex_value_iff] mem_expire_eval mem_TTL_eval mem_Delete_eval

interpretation memr: store_refinement "be_exec mem_ops" abs_exec view_at mem_view "\<lambda>m. gm_wf (mm_kv m)" "\<lambda>_. True"
proof (unfold_locales, goal_cases)
  case (1 t t' s k)
  then show ?case by (rule mem.view_later)
next
  case (2 s c now)
  then show ?case by (intro mem_exec_wf)
next
  case (3 s c now)
  show ?case
  proof (cases c)
    case (CScan pre)
    then show ?thesis using mem_Scan_eval [OF 3(1), where now = now and pre = pre] by (auto simp: mem_ops_def res_of_def)
  next
    case (CSet k v ttl)
    then show ?thesis by (simp add: mem_ops_def mem_Set_def mem_put_view)
  qed (auto simp: mem_ops_def res_of_def mem_exec_eval split: option.splits)
qed

section \<open>Subscriptions\<close>

text \<open>Every subscription a channel lists exists and is open, so a publication cannot panic.\<close>

definition mem_subs_ok :: "memory \<Rightarrow> bool" where
  "mem_subs_ok m \<longleftrightarrow> (\<forall>ch. \<forall>i\<in>set (mem_targets ch m).
     i < length (mm_store m) \<and> \<not> ms_closed (mm_store m ! i) \<and> ms_channel (mm_store m ! i) = ch)"

lemma mem_send_ok:
  "\<forall>i\<in>set js. i < length st \<and> \<not> ms_closed (st ! i) \<Longrightarrow>
     \<exists>st'. mem_send p js st = Some st' \<and> length st' = length st
       \<and> (\<forall>j < length st. ms_closed (st' ! j) = ms_closed (st ! j) \<and> ms_channel (st' ! j) = ms_channel (st ! j)
            \<and> (j \<notin> set js \<longrightarrow> st' ! j = st ! j))"
proof (induction js arbitrary: st)
  case (Cons i js)
  let ?st = "if length (ms_buf (st ! i)) < 256 then st[i := (st ! i)\<lparr>ms_buf := ms_buf (st ! i) @ [p]\<rparr>] else st"
  have same: "length ?st = length st" "\<And>j. j < length st \<Longrightarrow> ms_closed (?st ! j) = ms_closed (st ! j)
      \<and> ms_channel (?st ! j) = ms_channel (st ! j) \<and> (j \<noteq> i \<longrightarrow> ?st ! j = st ! j)"
    using Cons.prems by (auto simp: nth_list_update)
  then have "\<forall>i\<in>set js. i < length ?st \<and> \<not> ms_closed (?st ! i)" using Cons.prems by auto
  from Cons.IH [OF this] obtain st' where "mem_send p js ?st = Some st'" "length st' = length ?st"
    "\<forall>j < length ?st. ms_closed (st' ! j) = ms_closed (?st ! j) \<and> ms_channel (st' ! j) = ms_channel (?st ! j)
       \<and> (j \<notin> set js \<longrightarrow> st' ! j = ?st ! j)" by blast
  with same Cons.prems show ?case by auto
qed simp

lemma mem_targets_simps [simp]:
  "mem_targets ch (m\<lparr>mm_store := st\<rparr>) = mem_targets ch m"
  "mem_targets ch (m\<lparr>mm_subs := AList.update c s (mm_subs m)\<rparr>) = (if ch = c then s else mem_targets ch m)"
  "mem_targets ch (m\<lparr>mm_subs := AList.delete c (mm_subs m)\<rparr>) = (if ch = c then [] else mem_targets ch m)"
  "mem_targets ch (m\<lparr>mm_store := st, mm_subs := AList.update c s (mm_subs m)\<rparr>) = (if ch = c then s else mem_targets ch m)"
  "mem_targets ch (m\<lparr>mm_subs := AList.update c s (mm_subs m), mm_store := st\<rparr>) = (if ch = c then s else mem_targets ch m)"
  "mem_targets ch (m\<lparr>mm_subs := []\<rparr>) = []"
  by (simp_all add: mem_targets_def)

lemma mem_Publish_ok:
  assumes "mem_subs_ok m"
  shows "\<exists>m'. mem_Publish ch p m = Some m' \<and> mem_subs_ok m' \<and> mm_kv m' = mm_kv m"
proof (cases "mm_closed m")
  case False
  have "\<forall>i\<in>set (mem_targets ch m). i < length (mm_store m) \<and> \<not> ms_closed (mm_store m ! i)"
    using assms by (auto simp: mem_subs_ok_def)
  from mem_send_ok [OF this, of p] False assms show ?thesis
    by (auto simp: mem_Publish_def mem_subs_ok_def)
qed (use assms in \<open>simp add: mem_Publish_def\<close>)

lemma mem_Subscribe_ok: "mem_subs_ok m \<Longrightarrow> mem_subs_ok (fst (mem_Subscribe ch m))"
  by (auto simp: mem_Subscribe_def mem_subs_ok_def Let_def nth_append less_Suc_eq split: if_splits)

lemma mem_removeSub_targets:
  "mem_targets ch (mem_removeSub i m) =
     (if ch = ms_channel (mm_store m ! i) then removeAll i (mem_targets ch m) else mem_targets ch m)"
  "mm_store (mem_removeSub i m) = mm_store m"
  by (auto simp: mem_removeSub_def Let_def mem_targets_def split: option.splits)

lemma mem_sub_Close_ok:
  assumes "mem_subs_ok m"
  shows "mem_subs_ok (mem_sub_Close i m)"
  unfolding mem_subs_ok_def
proof (intro allI ballI)
  fix ch j assume "j \<in> set (mem_targets ch (mem_sub_Close i m))"
  then have j: "j \<in> set (mem_targets ch m)" "ch = ms_channel (mm_store m ! i) \<longrightarrow> j \<noteq> i"
    by (auto simp: mem_sub_Close_def mem_closeChan_def mem_removeSub_targets split: if_splits)
  then have "j \<noteq> i" using assms by (auto simp: mem_subs_ok_def)
  with assms j(1) show "j < length (mm_store (mem_sub_Close i m)) \<and> \<not> ms_closed (mm_store (mem_sub_Close i m) ! j)
      \<and> ms_channel (mm_store (mem_sub_Close i m) ! j) = ch"
    by (auto simp: mem_subs_ok_def mem_sub_Close_def mem_closeChan_def mem_removeSub_targets)
qed

lemma mem_Close_ok: "mem_subs_ok m \<Longrightarrow> mem_subs_ok (mem_Close m)"
  by (simp add: mem_Close_def mem_subs_ok_def)

lemma mem_subs_ok_New: "mem_subs_ok mem_New"
  by (simp add: mem_subs_ok_def mem_New_def mem_targets_def)

text \<open>
  The publication of the source takes its snapshot of the subscribers under the mutex and sends
  outside it: a subscription closed in between makes the send panic.
\<close>

lemma mem_publish_close_race:
  assumes "i < length (mm_store m)"
  shows "mem_send p (i # js) (mm_store (mem_sub_Close i m)) = None"
  using assms by (simp add: mem_sub_Close_def mem_closeChan_def mem_removeSub_targets)

end
