(* ===== verification/Coord_Redis.thy ===== *)
theory Coord_Redis
  imports Coord_Backend Cache_Emulator
begin

text \<open>
  The Redis backend of the coordination module, \<open>coordination/backend/redis.go\<close>: the adapter from
  the cache's Redis client to the interface \<open>Backend\<close>, over the emulator client. It fulfils the
  contract \<open>backend_contract\<close> the cluster services rely on, whatever else lives in the shared
  keyspace, and refines the expiring map of the in-memory backend on the commands on which the
  two backends agree.
\<close>

section \<open>The adapter\<close>

fun mapErr :: "cache_error \<Rightarrow> be_error" where
  "mapErr ErrRedisUnavailable = ErrBackendUnavailable"
| "mapErr ErrClosed = ErrBackendClosed"
| "mapErr ErrNil = ErrBackendNil"

definition redis_Get :: "string \<Rightarrow> time \<Rightarrow> redis_emulator \<Rightarrow> redis_emulator \<times> (be_error + string option)" where
  "redis_Get key now e =
    (case re_Get key now e of
       (e, Inl err) \<Rightarrow> if err = ErrNil then (e, Inr None) else (e, Inl (mapErr err))
     | (e, Inr v) \<Rightarrow> (e, Inr (Some v)))"

text \<open>The other methods pass their result through \<open>mapErr\<close>.\<close>

definition redis_pass :: "redis_emulator \<times> (cache_error + 'a) \<Rightarrow> redis_emulator \<times> (be_error + 'a)" where
  "redis_pass x = (fst x, map_sum mapErr id (snd x))"

definition redis_ops :: "redis_emulator backend_ops" where
  "redis_ops = \<lparr>be_Get = redis_Get,
     be_Set = (\<lambda>k v ttl now e. case re_Set k v ttl now e of (e, err) \<Rightarrow> (e, map_option mapErr err)),
     be_SetNX = (\<lambda>k v ttl now e. redis_pass (re_SetNX k v ttl now e)),
     be_Delete = (\<lambda>ks now e. redis_pass (re_Del ks now e)),
     be_CompareAndSwap = (\<lambda>k x v ttl now e. redis_pass (re_CompareAndSet k x v ttl now e)),
     be_CompareAndDelete = (\<lambda>k x now e. redis_pass (re_CompareAndDelete k x now e)),
     be_CompareAndExpire = (\<lambda>k x ttl now e. redis_pass (re_CompareAndExtend k x ttl now e)),
     be_Expire = (\<lambda>k ttl now e. redis_pass (re_Expire k ttl now e)),
     be_TTL = (\<lambda>k now until e. redis_pass (re_TTL k now until e)),
     be_SAdd = (\<lambda>k ms now e. redis_pass (re_SAdd k ms now e)),
     be_SRem = (\<lambda>k ms now e. redis_pass (re_SRem k ms now e)),
     be_SMembers = (\<lambda>k now e. redis_pass (re_SMembers k now e)),
     be_Scan = (\<lambda>pre now e. redis_pass (re_ScanKeys (pre @ ''*'') now e))\<rparr>"

section \<open>The contract\<close>

text \<open>The services see the live string entries; a hash or a set under a key is no entry.\<close>

fun kv_str :: "kv option \<Rightarrow> (string \<times> time) option" where
  "kv_str (Some (KV (KStr s) x)) = Some (s, x)"
| "kv_str _ = None"

definition re_view :: "time \<Rightarrow> redis_emulator \<Rightarrow> kv_view" where
  "re_view now e k = kv_str (re_look now e k)"

lemma re_expiry_eq [simp]: "re_expiry = mem_expiry"
  by (simp add: fun_eq_iff re_expiry_def mem_expiry_def)

lemma kv_live_mem_expiry [simp]: "kv_live now (KV v (mem_expiry ttl now))"
  using kv_live_expiry [of now v ttl] by simp

lemma kv_str_eq_Some: "kv_str v = Some (s, x) \<longleftrightarrow> v = Some (KV (KStr s) x)"
  by (cases v rule: kv_str.cases) auto

lemma re_view_upd: "re_look now e' = (re_look now e)(k := v) \<Longrightarrow> re_view now e' = (re_view now e)(k := kv_str v)"
  by (rule ext) (simp add: re_view_def)

lemma re_view_same: "re_look now e' = re_look now e \<Longrightarrow> re_view now e' = re_view now e"
  by (rule ext) (simp add: re_view_def)

lemma re_view_later: "t \<le> t' \<Longrightarrow> re_view t' e k = view_at t' (re_view t e k)"
  by (cases "map_of (re_data e) k" rule: kv_str.cases) (auto simp: re_view_def re_look_def kv_live_def view_at_def)

text \<open>What the commands answer on an open emulator and what they do to the keyspace.\<close>

lemma re_Get_eval:
  assumes "\<not> re_closed e"
  shows "snd (redis_Get k now e) = Inr (map_option fst (re_view now e k))"
    "re_look now (fst (redis_Get k now e)) = re_look now e"
  by (cases rule: re_live_cases [of k now e];
      auto simp: redis_Get_def re_Get_def re_view_def assms split: kv.splits kv_val.splits)+

lemma re_SetNX_eval:
  assumes "\<not> re_closed e"
  shows "snd (re_SetNX k v ttl now e) = Inr (re_look now e k = None)"
    "re_look now (fst (re_SetNX k v ttl now e)) =
       (if re_look now e k = None then (re_look now e)(k \<mapsto> KV (KStr v) (mem_expiry ttl now)) else re_look now e)"
  by (cases rule: re_live_cases [of k now e]; auto simp: re_SetNX_def assms)+

lemma re_CompareAndDelete_eval:
  assumes "\<not> re_closed e"
  shows "snd (re_CompareAndDelete k x now e) = Inr (map_option kv_val (re_look now e k) = Some (KStr x))"
    "re_look now (fst (re_CompareAndDelete k x now e)) =
       (if map_option kv_val (re_look now e k) = Some (KStr x) then (re_look now e)(k := None) else re_look now e)"
  by (cases rule: re_live_cases [of k now e]; auto simp: re_CompareAndDelete_def assms)+

lemma re_CompareAndExtend_eval:
  assumes "\<not> re_closed e"
  shows "snd (re_CompareAndExtend k x ttl now e) = Inr (map_option kv_val (re_look now e k) = Some (KStr x))"
    "re_look now (fst (re_CompareAndExtend k x ttl now e)) =
       (if map_option kv_val (re_look now e k) = Some (KStr x)
        then (re_look now e)(k \<mapsto> KV (KStr x) (mem_expiry ttl now)) else re_look now e)"
  by (cases rule: re_live_cases [of k now e]; auto simp: re_CompareAndExtend_def assms)+

definition cas_hits :: "string \<Rightarrow> kv option \<Rightarrow> bool" where
  "cas_hits x v \<longleftrightarrow> (if x = '''' then v = None else map_option kv_val v = Some (KStr x))"

lemma re_CompareAndSet_eval:
  assumes "\<not> re_closed e"
  shows "snd (re_CompareAndSet k x v ttl now e) = Inr (cas_hits x (re_look now e k))"
    "re_look now (fst (re_CompareAndSet k x v ttl now e)) =
       (if cas_hits x (re_look now e k) then (re_look now e)(k \<mapsto> KV (KStr v) (mem_expiry ttl now)) else re_look now e)"
  by (cases rule: re_live_cases [of k now e]; auto simp: re_CompareAndSet_def cas_hits_def assms)+

lemmas re_cmd_defs = re_Get_def re_SetNX_def re_CompareAndDelete_def re_CompareAndExtend_def re_CompareAndSet_def

text \<open>An answer comes from an open emulator; an error leaves the keyspace as it was.\<close>

lemma redis_answers:
  "redis_Get k now e = (e', Inr r) \<Longrightarrow> \<not> re_closed e"
  "redis_pass (re_SetNX k v ttl now e) = (e', Inr ok) \<Longrightarrow> \<not> re_closed e"
  "redis_pass (re_CompareAndSet k x v ttl now e) = (e', Inr ok) \<Longrightarrow> \<not> re_closed e"
  "redis_pass (re_CompareAndDelete k x now e) = (e', Inr ok) \<Longrightarrow> \<not> re_closed e"
  "redis_pass (re_CompareAndExtend k x ttl now e) = (e', Inr ok) \<Longrightarrow> \<not> re_closed e"
  by (auto simp: redis_Get_def redis_pass_def re_cmd_defs)

lemma redis_errors:
  "redis_Get k now e = (e', Inl err) \<Longrightarrow> e' = e"
  "redis_pass (re_SetNX k v ttl now e) = (e', Inl err) \<Longrightarrow> e' = e"
  "redis_pass (re_CompareAndSet k x v ttl now e) = (e', Inl err) \<Longrightarrow> e' = e"
  "redis_pass (re_CompareAndDelete k x now e) = (e', Inl err) \<Longrightarrow> e' = e"
  "redis_pass (re_CompareAndExtend k x ttl now e) = (e', Inl err) \<Longrightarrow> e' = e"
proof -
  assume *: "redis_Get k now e = (e', Inl err)"
  then have "re_closed e" using re_Get_eval(1) [of e k now] by (cases "re_closed e") auto
  with * show "e' = e" by (simp add: redis_Get_def re_Get_def split: if_splits)
qed (auto simp: redis_pass_def re_cmd_defs split: prod.splits option.splits if_splits)

interpretation red: backend_contract redis_ops re_view
proof (unfold_locales, goal_cases)
  case (1 t t' s k)
  then show ?case by (rule re_view_later)
next
  case (2 k now s s' r)
  then have r: "redis_Get k now s = (s', Inr r)" by (simp add: redis_ops_def)
  show ?case using re_Get_eval [OF redis_answers(1) [OF r], where k = k and now = now] r re_view_same [of now s' s] by simp
next
  case (3 k now s s' err)
  then show ?case using redis_errors(1) [of k now s s' err] by (simp add: redis_ops_def)
next
  case (4 k v ttl now s s' ok)
  then have r: "redis_pass (re_SetNX k v ttl now s) = (s', Inr ok)" by (simp add: redis_ops_def)
  show ?case using re_SetNX_eval [OF redis_answers(2) [OF r], where k = k and v = v and ttl = ttl and now = now] r re_view_same [of now s' s] re_view_upd [of now s' s k]
    by (auto simp: redis_pass_def re_view_def [of now s k])
next
  case (5 k v ttl now s s' err)
  then show ?case using redis_errors(2) [of k v ttl now s s' err] by (simp add: redis_ops_def)
next
  case (6 k x v ttl now s s' ok)
  then have r: "redis_pass (re_CompareAndSet k x v ttl now s) = (s', Inr ok)" by (simp add: redis_ops_def)
  show ?case
    using re_CompareAndSet_eval [OF redis_answers(3) [OF r], where k = k and x = x and v = v and ttl = ttl and now = now] r re_view_same [of now s' s] re_view_upd [of now s' s k]
    by (cases "re_look now s k" rule: kv_str.cases) (auto simp: redis_pass_def re_view_def [of now s k] cas_hits_def split: if_splits)
next
  case (7 k x v ttl now s s' err)
  then show ?case using redis_errors(3) [of k x v ttl now s s' err] by (simp add: redis_ops_def)
next
  case (8 k x now s s' ok)
  then have r: "redis_pass (re_CompareAndDelete k x now s) = (s', Inr ok)" by (simp add: redis_ops_def)
  show ?case
    using re_CompareAndDelete_eval [OF redis_answers(4) [OF r], where k = k and x = x and now = now] r re_view_same [of now s' s] re_view_upd [of now s' s k]
    by (cases "re_look now s k" rule: kv_str.cases) (auto simp: redis_pass_def re_view_def [of now s k] split: if_splits)
next
  case (9 k x now s s' err)
  then show ?case using redis_errors(4) [of k x now s s' err] by (simp add: redis_ops_def)
next
  case (10 k x ttl now s s' ok)
  then have r: "redis_pass (re_CompareAndExtend k x ttl now s) = (s', Inr ok)" by (simp add: redis_ops_def)
  show ?case
    using re_CompareAndExtend_eval [OF redis_answers(5) [OF r], where k = k and x = x and ttl = ttl and now = now] r re_view_same [of now s' s] re_view_upd [of now s' s k]
    by (cases "re_look now s k" rule: kv_str.cases) (auto simp: redis_pass_def re_view_def [of now s k] split: if_splits)
next
  case (11 k x ttl now s s' err)
  then show ?case using redis_errors(5) [of k x ttl now s s' err] by (simp add: redis_ops_def)
qed

section \<open>Refinement of the expiring map\<close>

lemma re_Set_eval:
  assumes "\<not> re_closed e" "ttl \<noteq> KeepTTL"
  shows "re_Set k v ttl now e = (e\<lparr>re_data := AList.update k (KV (KStr v) (mem_expiry ttl now)) (re_data e)\<rparr>, None)"
  using assms by (simp add: re_Set_def)

lemma re_Expire_eval:
  assumes "\<not> re_closed e"
  shows "snd (re_Expire k ttl now e) = Inr (re_look now e k \<noteq> None)"
    "re_look now (fst (re_Expire k ttl now e)) =
       (case re_look now e k of None \<Rightarrow> re_look now e
        | Some v \<Rightarrow> (re_look now e)(k \<mapsto> KV (kv_val v) (mem_expiry ttl now)))"
  by (cases rule: re_live_cases [of k now e]; auto simp: re_Expire_def assms)+

lemma re_TTL_eval:
  assumes "\<not> re_closed e"
  shows "snd (re_TTL k now until e) =
      Inr (case re_look now e k of None \<Rightarrow> - 2 * Second
           | Some v \<Rightarrow> if kv_expireAt v = 0 then - 1 * Second else kv_expireAt v - until)"
    "re_look now (fst (re_TTL k now until e)) = re_look now e"
  by (cases rule: re_live_cases [of k now e]; auto simp: re_TTL_def assms)+

text \<open>
  The states and commands on which the two backends agree: the emulator is open and holds only
  non-empty strings, no command stores an empty value (on one, a compare-and-swap that expects
  the empty value succeeds in memory and fails on the emulator), no \<open>Set\<close> has the one negative
  duration the emulator reads as \<open>KeepTTL\<close>, and scan prefixes have no pattern characters.
\<close>

definition redis_inv :: "redis_emulator \<Rightarrow> bool" where
  "redis_inv e \<longleftrightarrow> \<not> re_closed e \<and> gm_wf (re_data e)
     \<and> (\<forall>k v. map_of (re_data e) k = Some v \<longrightarrow> (\<exists>s x. v = KV (KStr s) x \<and> s \<noteq> ''''))"

fun redis_cmd :: "kv_cmd \<Rightarrow> bool" where
  "redis_cmd (CSet k v ttl) \<longleftrightarrow> v \<noteq> '''' \<and> ttl \<noteq> - 1"
| "redis_cmd (CSetNX k v ttl) \<longleftrightarrow> v \<noteq> ''''"
| "redis_cmd (CSwap k x v ttl) \<longleftrightarrow> v \<noteq> ''''"
| "redis_cmd (CScan pre) \<longleftrightarrow> glob_plain pre"
| "redis_cmd _ \<longleftrightarrow> True"

lemma redis_inv_delete: "redis_inv e \<Longrightarrow> redis_inv (e\<lparr>re_data := AList.delete k (re_data e)\<rparr>)"
  by (auto simp: redis_inv_def)

lemma redis_inv_update:
  "redis_inv e \<Longrightarrow> v \<noteq> '''' \<Longrightarrow> redis_inv (e\<lparr>re_data := AList.update k (KV (KStr v) x) (re_data e)\<rparr>)"
  by (auto simp: redis_inv_def)

lemma redis_inv_live:
  assumes "re_live k now e = (e', r)" "redis_inv e"
  shows "redis_inv e'" "r = Some v \<Longrightarrow> \<exists>s x. v = KV (KStr s) x \<and> s \<noteq> ''''"
proof -
  show "redis_inv e'" by (rule re_live_keeps [OF assms redis_inv_delete])
  show "\<exists>s x. v = KV (KStr s) x \<and> s \<noteq> ''''" if "r = Some v"
    using assms that by (auto simp: re_live_def redis_inv_def split: option.splits if_splits)
qed

lemma redis_inv_look: "redis_inv e \<Longrightarrow> re_look now e k = Some v \<Longrightarrow> \<exists>s x. v = KV (KStr s) x \<and> s \<noteq> ''''"
  by (auto simp: redis_inv_def re_look_def split: option.splits if_splits)

lemma redis_inv_view:
  assumes "redis_inv e"
  shows "re_look now e k = (case re_view now e k of None \<Rightarrow> None | Some (s, x) \<Rightarrow> Some (KV (KStr s) x))"
    "re_view now e k = Some (s, x) \<Longrightarrow> s \<noteq> ''''"
  using redis_inv_look [OF assms, of now k] by (cases "re_look now e k"; auto simp: re_view_def)+

lemma redis_exec_inv:
  assumes inv: "redis_inv e" and c: "redis_cmd c"
  shows "redis_inv (fst (be_exec redis_ops c now e))"
proof -
  have opn: "\<not> re_closed e" using inv by (simp add: redis_inv_def)
  have keyed: "redis_inv (fst (be_exec redis_ops c now e))"
    if "c = CGet k \<or> (\<exists>v ttl. c = CSetNX k v ttl) \<or> (\<exists>ttl. c = CExpire k ttl) \<or> c = CTTL k \<or> (\<exists>x v ttl. c = CSwap k x v ttl)
      \<or> (\<exists>x. c = CCompareDelete k x) \<or> (\<exists>x ttl. c = CCompareExpire k x ttl)" for k
  proof -
    obtain e1 r where l: "re_live k now e = (e1, r)" by fastforce
    note i = redis_inv_live [OF l inv]
    show ?thesis
    proof (cases r)
      case None
      then show ?thesis using that c i(1) l opn
        by (auto simp: redis_ops_def res_of_def redis_pass_def redis_Get_def re_Get_def re_SetNX_def re_Expire_def re_TTL_def
            re_CompareAndSet_def re_CompareAndDelete_def re_CompareAndExtend_def intro: redis_inv_update)
    next
      case (Some v)
      then obtain s x where "v = KV (KStr s) x" "s \<noteq> ''''" using i(2) by blast
      then show ?thesis using that c i(1) l opn Some
        by (auto simp: redis_ops_def res_of_def redis_pass_def redis_Get_def re_Get_def re_SetNX_def re_Expire_def re_TTL_def
            re_CompareAndSet_def re_CompareAndDelete_def re_CompareAndExtend_def intro: redis_inv_update redis_inv_delete)
    qed
  qed
  show ?thesis
  proof (cases c)
    case (CSet k v ttl)
    then show ?thesis using c redis_inv_update [OF inv] re_Set_eval [OF opn] by (simp add: redis_ops_def)
  next
    case (CDelete ks)
    obtain e' n where r: "foldl (re_del_step now) (e, 0) ks = (e', n)" by fastforce
    show ?thesis using re_del_loop_keeps [where P = redis_inv, OF redis_inv_delete r inv] r opn CDelete
      by (simp add: redis_ops_def res_of_def redis_pass_def re_Del_def re_del_step_def [symmetric])
  next
    case (CScan pre)
    let ?Q = "\<lambda>k. pre @ ''*'' = '''' \<or> pre @ ''*'' = ''*'' \<or> MatchGlob (pre @ ''*'') k"
    obtain e' out where r: "foldl (re_scan_step ?Q now) (e, []) (map fst (re_data e)) = (e', out)" by fastforce
    show ?thesis using re_scan_loop_keeps [where P = redis_inv, OF redis_inv_delete r inv] r opn CScan
      by (simp add: redis_ops_def res_of_def redis_pass_def re_ScanKeys_def re_scan_step_def [symmetric])
  qed (rule keyed, blast)+
qed


lemma re_view_if:
  "re_look now e' = (if b then (re_look now e)(k := v) else re_look now e) \<Longrightarrow>
     re_view now e' = (if b then (re_view now e)(k := kv_str v) else re_view now e)"
  using re_view_upd [of now e' e k v] re_view_same [of now e' e] by (cases b) simp_all

definition refines_at :: "time \<Rightarrow> redis_emulator \<Rightarrow> kv_cmd \<Rightarrow> bool" where
  "refines_at now e c \<longleftrightarrow> re_view now (fst (be_exec redis_ops c now e)) = fst (abs_exec c now (re_view now e))
    \<and> snd (be_exec redis_ops c now e) = snd (abs_exec c now (re_view now e))"

lemmas refines_simps = refines_at_def redis_ops_def res_of_def redis_pass_def

lemma redis_read_refines:
  assumes inv: "redis_inv e"
  shows "refines_at now e (CGet k)" "refines_at now e (CTTL k)"
proof -
  have opn: "\<not> re_closed e" using inv by (simp add: redis_inv_def)
  note look = redis_inv_view(1) [OF inv, of now]
  show "refines_at now e (CGet k)"
    using re_Get_eval(1) [OF opn, of k now] re_view_same [OF re_Get_eval(2) [OF opn, of now k]] by (simp add: refines_simps)
  show "refines_at now e (CTTL k)"
    using re_TTL_eval(1) [OF opn, of k now now] re_view_same [OF re_TTL_eval(2) [OF opn, of now k now]] look [of k]
    by (cases "re_view now e k") (auto simp: refines_simps)
qed

lemma redis_write_refines:
  assumes inv: "redis_inv e"
  shows "ttl \<noteq> KeepTTL \<Longrightarrow> refines_at now e (CSet k v ttl)" "refines_at now e (CSetNX k v ttl)" 
    "refines_at now e (CSwap k x v ttl)"
proof -
  have opn: "\<not> re_closed e" using inv by (simp add: redis_inv_def)
  note look = redis_inv_view(1) [OF inv, of now k]
  show "refines_at now e (CSet k v ttl)" if "ttl \<noteq> KeepTTL"
    using re_Set_eval [OF opn that, of k v now]
        re_view_upd [OF re_look_update [where now = now and e = e and k = k and v = "KV (KStr v) (mem_expiry ttl now)"]]
    by (simp add: refines_simps)
  show "refines_at now e (CSetNX k v ttl)"
    using re_SetNX_eval(1) [OF opn, of k v ttl now] re_view_if [OF re_SetNX_eval(2) [OF opn, of now k v ttl]] look
    by (cases "re_view now e k") (auto simp: refines_simps)
  show "refines_at now e (CSwap k x v ttl)"
    using re_CompareAndSet_eval(1) [OF opn, of k x v ttl now] re_view_if [OF re_CompareAndSet_eval(2) [OF opn, of now k x v ttl]]
      redis_inv_view(2) [OF inv, of now k] look
    by (cases "re_view now e k") (auto simp: refines_simps cas_hits_def)
qed

lemma redis_compare_refines:
  assumes inv: "redis_inv e"
  shows "refines_at now e (CCompareDelete k x)" "refines_at now e (CCompareExpire k x ttl)" "refines_at now e (CExpire k ttl)"
proof -
  have opn: "\<not> re_closed e" using inv by (simp add: redis_inv_def)
  note look = redis_inv_view(1) [OF inv, of now k]
  show "refines_at now e (CCompareDelete k x)"
    using re_CompareAndDelete_eval(1) [OF opn, of k x now] re_view_if [OF re_CompareAndDelete_eval(2) [OF opn, of now k x]] look
    by (cases "re_view now e k") (auto simp: refines_simps)
  show "refines_at now e (CCompareExpire k x ttl)"
    using re_CompareAndExtend_eval(1) [OF opn, of k x ttl now] re_view_if [OF re_CompareAndExtend_eval(2) [OF opn, of now k x ttl]] look
    by (cases "re_view now e k") (auto simp: refines_simps)
  note E = re_Expire_eval [OF opn, where k = k and ttl = ttl and now = now]
  show "refines_at now e (CExpire k ttl)"
  proof (cases "re_view now e k")
    case None
    then show ?thesis using E look re_view_same [of now "fst (re_Expire k ttl now e)" e] by (simp add: refines_simps)
  next
    case (Some sx)
    then show ?thesis using E look re_view_upd [of now "fst (re_Expire k ttl now e)" e k] by (cases sx) (simp add: refines_simps)
  qed
qed

lemma redis_keys_refines:
  assumes inv: "redis_inv e"
  shows "refines_at now e (CDelete ks)" "glob_plain pre \<Longrightarrow> refines_at now e (CScan pre)"
proof -
  have opn: "\<not> re_closed e" and wf: "gm_wf (re_data e)" using inv by (simp_all add: redis_inv_def)
  have look: "(re_look now e k \<noteq> None) = (re_view now e k \<noteq> None)" for k
    using redis_inv_view(1) [OF inv, of now k] by (cases "re_view now e k") auto
  have "re_view now (fst (re_Del ks now e)) = (\<lambda>k. if k \<in> set ks then None else re_view now e k)"
    using re_Del_eval(1) [OF opn, of now ks] by (auto simp: re_view_def)
  moreover have "snd (re_Del ks now e) = Inr (int (card {k \<in> set ks. re_view now e k \<noteq> None}))"
    using re_Del_eval(2) [OF opn, of ks now] by (simp only: look)
  ultimately show "refines_at now e (CDelete ks)" by (simp add: refines_simps)
  assume p: "glob_plain pre"
  have Q: "(pre @ ''*'' = '''' \<or> pre @ ''*'' = ''*'' \<or> MatchGlob (pre @ ''*'') k) = prefix pre k" for k
    using MatchGlob_prefix [OF p, of k] by auto
  obtain out where "snd (re_ScanKeys (pre @ ''*'') now e) = Inr out" "set out = {k. prefix pre k \<and> re_view now e k \<noteq> None}"
    using re_ScanKeys_eval(2) [OF opn wf, of "pre @ ''*''" now] unfolding Q look by blast
  then show "refines_at now e (CScan pre)"
    using re_view_same [OF re_ScanKeys_eval(1) [OF opn wf, of now "pre @ ''*''"]] by (simp add: refines_simps)
qed

interpretation redr: store_refinement "be_exec redis_ops" abs_exec view_at re_view redis_inv redis_cmd
proof (unfold_locales, goal_cases)
  case (1 t t' s k)
  then show ?case by (rule re_view_later)
next
  case (2 s c now)
  then show ?case by (rule redis_exec_inv)
next
  case (3 s c now)
  then have "refines_at now s c"
    by (cases c) (simp_all add: redis_read_refines redis_write_refines redis_compare_refines redis_keys_refines)
  then show ?case by (simp only: refines_at_def)
qed


text \<open>
  C14. The two coordination backends are observationally an expiring map: for every sequence of
  commands at non-decreasing instants, the results of running it on a new \<open>Memory\<close> (lazy
  eviction, physical entries that outlive their expiry) are those of the abstract store, in
  which an entry is gone from its expiry instant on, \<open>SetNX\<close> writes exactly absent keys and the
  compare-and-* operations act exactly on the expected live value; and the Redis backend over a
  new emulator gives the same results, when no command stores an empty value, no \<open>Set\<close> has the
  duration \<open>KeepTTL\<close> and scan prefixes have no pattern characters.
\<close>

theorem backends_refine_expiring_map:
  assumes "sorted (map fst cs)"
  shows "store_run (be_exec mem_ops) cs mem_New = fading_run view_at abs_exec cs (\<lambda>_. None)
    \<and> ((\<forall>(t, c) \<in> set cs. redis_cmd c) \<longrightarrow> store_run (be_exec redis_ops) cs re_New = fading_run view_at abs_exec cs (\<lambda>_. None))"
proof (intro conjI impI)
  show "store_run (be_exec mem_ops) cs mem_New = fading_run view_at abs_exec cs (\<lambda>_. None)"
    by (rule memr.run_refines) (use assms in \<open>simp_all add: mem_New_def mem_view_def fun_eq_iff\<close>)
  show "store_run (be_exec redis_ops) cs re_New = fading_run view_at abs_exec cs (\<lambda>_. None)" if "\<forall>(t, c) \<in> set cs. redis_cmd c"
  proof (rule redr.run_refines)
    show "redis_inv re_New" by (simp add: redis_inv_def re_New_def)
    show "re_view t re_New = (\<lambda>k. view_at t None)" for t by (simp add: fun_eq_iff re_view_def re_look_def re_New_def)
  qed (use assms that in auto)
qed

theorem backends_refine_expiring_map_witness:
  "let cs = [(10, CSetNX ''k'' ''a'' 5), (12, CSetNX ''k'' ''b'' 5), (15, CSetNX ''k'' ''b'' 5), (16, CGet ''k'')]
   in store_run (be_exec mem_ops) cs mem_New = [RBool True, RBool False, RBool True, RVal (Some ''b'')]
    \<and> store_run (be_exec redis_ops) cs re_New = [RBool True, RBool False, RBool True, RVal (Some ''b'')]"
proof -
  let ?cs = "[(10 :: time, CSetNX ''k'' ''a'' 5), (12, CSetNX ''k'' ''b'' 5), (15, CSetNX ''k'' ''b'' 5), (16, CGet ''k'')]"
  have r: "fading_run view_at abs_exec ?cs (\<lambda>_. None) = [RBool True, RBool False, RBool True, RVal (Some ''b'')]"
    by (simp add: view_at_def mem_expiry_def)
  have "sorted (map fst ?cs)" "\<forall>(t, c) \<in> set ?cs. redis_cmd c" by simp_all
  with backends_refine_expiring_map [of ?cs]
  have "store_run (be_exec mem_ops) ?cs mem_New = fading_run view_at abs_exec ?cs (\<lambda>_. None) \<and> store_run (be_exec redis_ops) ?cs re_New = fading_run view_at abs_exec ?cs (\<lambda>_. None)" by blast
  then show ?thesis unfolding Let_def r .
qed

text \<open>Where the backends part: an empty value, and the duration of minus one nanosecond.\<close>

lemma empty_value_divergence:
  "store_run (be_exec mem_ops) [(1, CSet k '''' 0), (2, CSwap k '''' v 0)] mem_New = [RDone, RBool True]"
  "store_run (be_exec redis_ops) [(1, CSet k '''' 0), (2, CSwap k '''' v 0)] re_New = [RDone, RBool False]"
  by (simp_all add: mem_ops_def redis_ops_def res_of_def redis_pass_def mem_Set_def mem_put_def mem_New_def mem_CompareAndSwap_def
      mem_live_def mem_expiry_def re_Set_def re_CompareAndSet_def re_live_def re_New_def)

lemma keep_ttl_divergence:
  "store_run (be_exec mem_ops) [(1, CSet k v 5), (2, CSet k w (- 1)), (7, CGet k)] mem_New = [RDone, RDone, RVal (Some w)]"
  "store_run (be_exec redis_ops) [(1, CSet k v 5), (2, CSet k w (- 1)), (7, CGet k)] re_New = [RDone, RDone, RVal None]"
  by (simp_all add: mem_ops_def redis_ops_def res_of_def redis_pass_def mem_Set_def mem_put_def mem_New_def mem_Get_def
      mem_live_def mem_expiry_def re_Set_def redis_Get_def re_Get_def re_live_def re_New_def)

end
