(* ===== verification/Coord_Keys.thy ===== *)
theory Coord_Keys
  imports CPIP_Prelude "HOL-Library.Sublist"
begin

text \<open>
  The key layout of the coordination store (\<open>coordination/keys/keys.go\<close>): every key is the
  colon-joined path \<open>prefix:cluster:kind:name\<close>. Under one builder two different things never
  share a key; across clusters they can, when a cluster id contains a colon.
\<close>

definition strings_TrimRight :: "string \<Rightarrow> char \<Rightarrow> string" where
  "strings_TrimRight s c = rev (dropWhile (\<lambda>x. x = c) (rev s))"

fun strings_Join :: "string list \<Rightarrow> string \<Rightarrow> string" where
  "strings_Join [] sep = []"
| "strings_Join [x] sep = x"
| "strings_Join (x # y # ys) sep = x @ sep @ strings_Join (y # ys) sep"

record key_builder =
  kb_prefix :: string
  kb_clusterID :: string

definition kb_New :: "string \<Rightarrow> string \<Rightarrow> key_builder" where
  "kb_New pre cluster = \<lparr>kb_prefix = strings_TrimRight pre CHR '':'', kb_clusterID = cluster\<rparr>"

definition kb_root :: "key_builder \<Rightarrow> string list \<Rightarrow> string" where
  "kb_root b parts = strings_Join ([kb_prefix b, kb_clusterID b] @ parts) '':''"

definition kb_NodeKey :: "key_builder \<Rightarrow> string \<Rightarrow> string" where
  "kb_NodeKey b nodeID = kb_root b [''node'', nodeID]"

definition kb_NodePrefix :: "key_builder \<Rightarrow> string" where
  "kb_NodePrefix b = kb_root b [''node''] @ '':''"

definition kb_MembersSet :: "key_builder \<Rightarrow> string" where
  "kb_MembersSet b = kb_root b [''members'']"

definition kb_HeartbeatKey :: "key_builder \<Rightarrow> string \<Rightarrow> string" where
  "kb_HeartbeatKey b nodeID = kb_root b [''hb'', nodeID]"

definition kb_LeaderKey :: "key_builder \<Rightarrow> string \<Rightarrow> string" where
  "kb_LeaderKey b scope = kb_root b [''leader'', scope]"

definition kb_LockKey :: "key_builder \<Rightarrow> string \<Rightarrow> string" where
  "kb_LockKey b resource = kb_root b [''lock'', resource]"

definition kb_EventChannel :: "key_builder \<Rightarrow> string" where
  "kb_EventChannel b = kb_root b [''events'']"

definition kb_ReplicationChannel :: "key_builder \<Rightarrow> string \<Rightarrow> string" where
  "kb_ReplicationChannel b domain = kb_root b [''repl'', domain]"

lemmas kb_key_defs = kb_NodeKey_def kb_HeartbeatKey_def kb_LeaderKey_def kb_LockKey_def
  kb_ReplicationChannel_def kb_root_def

lemma kb_root_eq: "kb_root b [k, n] = kb_prefix b @ '':'' @ kb_clusterID b @ '':'' @ k @ '':'' @ n"
  by (simp add: kb_root_def)

lemma kb_keys_inj [simp]:
  "kb_NodeKey b x = kb_NodeKey b y \<longleftrightarrow> x = y" "kb_HeartbeatKey b x = kb_HeartbeatKey b y \<longleftrightarrow> x = y"
  "kb_LeaderKey b x = kb_LeaderKey b y \<longleftrightarrow> x = y" "kb_LockKey b x = kb_LockKey b y \<longleftrightarrow> x = y"
  "kb_ReplicationChannel b x = kb_ReplicationChannel b y \<longleftrightarrow> x = y"
  by (simp_all add: kb_key_defs)

lemma kb_keys_disjoint [simp]:
  "kb_NodeKey b x \<noteq> kb_HeartbeatKey b y" "kb_NodeKey b x \<noteq> kb_LeaderKey b y" "kb_NodeKey b x \<noteq> kb_LockKey b y"
  "kb_HeartbeatKey b x \<noteq> kb_LeaderKey b y" "kb_HeartbeatKey b x \<noteq> kb_LockKey b y" "kb_LeaderKey b x \<noteq> kb_LockKey b y"
  by (simp_all add: kb_key_defs)

text \<open>The prefix scan of discovery sees the node records and nothing else of its cluster.\<close>

lemma kb_NodePrefix_scan [simp]:
  "prefix (kb_NodePrefix b) (kb_NodeKey b x)" "\<not> prefix (kb_NodePrefix b) (kb_HeartbeatKey b x)"
  "\<not> prefix (kb_NodePrefix b) (kb_LeaderKey b x)" "\<not> prefix (kb_NodePrefix b) (kb_LockKey b x)"
  by (simp_all add: kb_NodePrefix_def kb_key_defs)

text \<open>
  Two clusters under one prefix are not always separated: with a colon in the cluster id, a
  node record of one cluster is a lock of the other.
\<close>

lemma kb_cluster_collision:
  "kb_NodeKey (kb_New ''p'' ''c'') ''lock:r'' = kb_LockKey (kb_New ''p'' ''c:node'') ''r''"
  by (simp add: kb_key_defs kb_New_def strings_TrimRight_def)

text \<open>Without colons in the cluster ids, keys of different clusters differ.\<close>

lemma split_at_colon:
  "CHR '':'' \<notin> set a \<Longrightarrow> CHR '':'' \<notin> set b \<Longrightarrow> a @ CHR '':'' # x = b @ CHR '':'' # y \<longleftrightarrow> a = b \<and> x = y"
  by (induction a arbitrary: b) (case_tac b; auto)+

lemma kb_clusters_separated:
  assumes "CHR '':'' \<notin> set (kb_clusterID b)" "CHR '':'' \<notin> set (kb_clusterID b')"
    and "kb_prefix b = kb_prefix b'" "kb_clusterID b \<noteq> kb_clusterID b'"
  shows "kb_root b [k, n] \<noteq> kb_root b' [k', n']"
  using assms split_at_colon [of "kb_clusterID b" "kb_clusterID b'"] by (auto simp: kb_root_eq)

end
