(* ===== verification/Coord_Locks.thy ===== *)
theory Coord_Locks
  imports Coord_Redis Coord_Keys
begin

text \<open>
  The distributed lock service (\<open>coordination/locks/locks.go\<close>), over an arbitrary backend.

  A \<open>Lock\<close> is a handle held by one client; the backend is shared. The operations take the
  backend's operations, the backend state and the clock readings the code makes: the instant
  at which the backend executes the command, and the later \<open>time.Now()\<close> of \<open>newLock\<close> and
  \<open>Renew\<close>. The floating-point products \<open>lease * ClockDriftFactor\<close> and
  \<open>lease * AutoRenewFraction\<close> are functions of the lease (\<open>lc_drift\<close>, \<open>lc_renew\<close>).
\<close>

section \<open>Model\<close>

record lock_config =
  lc_DefaultLease :: duration
  lc_AcquireTimeout :: duration
  lc_RetryInterval :: duration
  lc_renew :: "duration \<Rightarrow> duration"
  lc_drift :: "duration \<Rightarrow> duration"

record lock_options =
  lo_Lease :: duration
  lo_AcquireTimeout :: duration
  lo_AutoRenew :: bool

datatype lock_error = ErrLockNotAcquired | ErrLockNotHeld | LockBackendErr be_error | LockCtxErr

datatype lock_event = EvLockAcquired string | EvLockReleased string | EvLockExpired string

record lock_manager =
  lm_cfg :: lock_config
  lm_kb :: key_builder
  lm_nodeID :: string
  lm_held :: int
  lm_bus :: "lock_event list"

text \<open>\<open>lk_stopWD\<close>: the watchdog's stop channel is closed; \<open>lk_watchdog\<close>: a watchdog was started.\<close>

record lock =
  lk_resource :: string
  lk_fullKey :: string
  lk_token :: string
  lk_lease :: duration
  lk_acquiredAt :: time
  lk_released :: bool
  lk_lost :: bool
  lk_stopWD :: bool
  lk_watchdog :: bool

subsection \<open>Tokens\<close>

definition hex_digit :: "nat \<Rightarrow> char" where
  "hex_digit n = (if n < 10 then char_of (48 + n) else char_of (87 + n))"

definition hex_encode :: "8 word list \<Rightarrow> string" where
  "hex_encode bs = concat (map (\<lambda>b. [hex_digit (unat b div 16), hex_digit (unat b mod 16)]) bs)"

definition lock_mintToken :: "string \<Rightarrow> 8 word list \<Rightarrow> string" where
  "lock_mintToken nodeID rnd = (if nodeID \<noteq> '''' then nodeID @ '':'' @ hex_encode rnd else hex_encode rnd)"

subsection \<open>Acquisition\<close>

definition lock_resolve :: "lock_config \<Rightarrow> lock_options option \<Rightarrow> lock_options" where
  "lock_resolve cfg opts =
    (let d = \<lparr>lo_Lease = lc_DefaultLease cfg, lo_AcquireTimeout = lc_AcquireTimeout cfg, lo_AutoRenew = False\<rparr>
     in case opts of
          None \<Rightarrow> d
        | Some o' \<Rightarrow>
            let d = (if lo_Lease o' > 0 then d\<lparr>lo_Lease := lo_Lease o'\<rparr> else d);
                d = (if lo_AcquireTimeout o' > 0 then d\<lparr>lo_AcquireTimeout := lo_AcquireTimeout o'\<rparr> else d)
            in d\<lparr>lo_AutoRenew := lo_AutoRenew o'\<rparr>)"

definition lock_newLock ::
  "string \<Rightarrow> string \<Rightarrow> string \<Rightarrow> lock_options \<Rightarrow> time \<Rightarrow> lock_manager \<Rightarrow> lock_manager \<times> lock" where
  "lock_newLock resource fullKey token o' now m =
    (m\<lparr>lm_held := lm_held m + 1, lm_bus := lm_bus m @ [EvLockAcquired resource]\<rparr>,
     \<lparr>lk_resource = resource, lk_fullKey = fullKey, lk_token = token, lk_lease = lo_Lease o',
      lk_acquiredAt = now, lk_released = False, lk_lost = False, lk_stopWD = False,
      lk_watchdog = lo_AutoRenew o'\<rparr>)"

text \<open>
  One round of the acquisition loop as the environment drives it: what the other clients did to
  the backend since the last round (\<open>rd_env\<close>), the instant of the \<open>SetNX\<close>, the
  \<open>time.Now()\<close> of the deadline check or of \<open>newLock\<close>, and whether the \<open>select\<close> takes
  \<open>ctx.Done()\<close> rather than the timer.
\<close>

record 's round =
  rd_env :: "'s \<Rightarrow> 's"
  rd_set :: time
  rd_now :: time
  rd_done :: bool

fun lock_Acquire_loop ::
  "'s backend_ops \<Rightarrow> string \<Rightarrow> string \<Rightarrow> string \<Rightarrow> lock_options \<Rightarrow> time \<Rightarrow> 's round list
   \<Rightarrow> 's \<Rightarrow> lock_manager \<Rightarrow> ('s \<times> lock_manager \<times> (lock_error + lock)) option" where
  "lock_Acquire_loop B resource fullKey token o' deadline [] s m = None"
| "lock_Acquire_loop B resource fullKey token o' deadline (rd # rds) s m =
    (case be_SetNX B fullKey token (lo_Lease o') (rd_set rd) (rd_env rd s) of
       (s', Inl err) \<Rightarrow> Some (s', m, Inl (LockBackendErr err))
     | (s', Inr True) \<Rightarrow>
         (case lock_newLock resource fullKey token o' (rd_now rd) m of (m', l) \<Rightarrow> Some (s', m', Inr l))
     | (s', Inr False) \<Rightarrow>
         if lo_AcquireTimeout o' \<le> 0 \<or> rd_now rd > deadline then Some (s', m, Inl ErrLockNotAcquired)
         else if rd_done rd then Some (s', m, Inl LockCtxErr)
         else lock_Acquire_loop B resource fullKey token o' deadline rds s' m)"

definition lock_Acquire ::
  "'s backend_ops \<Rightarrow> string \<Rightarrow> lock_options option \<Rightarrow> 8 word list \<Rightarrow> time \<Rightarrow> 's round list
   \<Rightarrow> 's \<Rightarrow> lock_manager \<Rightarrow> ('s \<times> lock_manager \<times> (lock_error + lock)) option" where
  "lock_Acquire B resource opts rnd start rds s m =
    (let o' = lock_resolve (lm_cfg m) opts
     in lock_Acquire_loop B resource (kb_LockKey (lm_kb m) resource) (lock_mintToken (lm_nodeID m) rnd) o'
          (start + lo_AcquireTimeout o') rds s m)"

definition lock_TryAcquire ::
  "'s backend_ops \<Rightarrow> string \<Rightarrow> lock_options option \<Rightarrow> 8 word list \<Rightarrow> time \<Rightarrow> time
   \<Rightarrow> 's \<Rightarrow> lock_manager \<Rightarrow> 's \<times> lock_manager \<times> (lock_error + lock)" where
  "lock_TryAcquire B resource opts rnd tset now s m =
    (let o' = (lock_resolve (lm_cfg m) opts)\<lparr>lo_AcquireTimeout := 0\<rparr>;
         fullKey = kb_LockKey (lm_kb m) resource; token = lock_mintToken (lm_nodeID m) rnd
     in case be_SetNX B fullKey token (lo_Lease o') tset s of
          (s', Inl err) \<Rightarrow> (s', m, Inl (LockBackendErr err))
        | (s', Inr False) \<Rightarrow> (s', m, Inl ErrLockNotAcquired)
        | (s', Inr True) \<Rightarrow>
            (case lock_newLock resource fullKey token o' now m of (m', l) \<Rightarrow> (s', m', Inr l)))"

subsection \<open>Holding and releasing\<close>

definition lock_ValidUntil :: "lock_config \<Rightarrow> lock \<Rightarrow> time" where
  "lock_ValidUntil cfg l = lk_acquiredAt l + (lk_lease l - lc_drift cfg (lk_lease l))"

definition lock_Renew ::
  "'s backend_ops \<Rightarrow> duration \<Rightarrow> time \<Rightarrow> time \<Rightarrow> 's \<Rightarrow> lock_manager \<Rightarrow> lock
   \<Rightarrow> 's \<times> lock_manager \<times> lock \<times> lock_error option" where
  "lock_Renew B lease tset now s m l =
    (if lk_released l then (s, m, l, Some ErrLockNotHeld)
     else
       let lease = (if lease \<le> 0 then lk_lease l else lease)
       in case be_CompareAndExpire B (lk_fullKey l) (lk_token l) lease tset s of
            (s', Inl err) \<Rightarrow> (s', m, l, Some (LockBackendErr err))
          | (s', Inr False) \<Rightarrow>
              (s', m\<lparr>lm_bus := lm_bus m @ [EvLockExpired (lk_resource l)]\<rparr>, l\<lparr>lk_lost := True\<rparr>, Some ErrLockNotHeld)
          | (s', Inr True) \<Rightarrow>
              (s', m\<lparr>lm_bus := lm_bus m @ [EvLockAcquired (lk_resource l)]\<rparr>,
               l\<lparr>lk_lease := lease, lk_acquiredAt := now\<rparr>, None))"

definition lock_Release ::
  "'s backend_ops \<Rightarrow> time \<Rightarrow> 's \<Rightarrow> lock_manager \<Rightarrow> lock \<Rightarrow> 's \<times> lock_manager \<times> lock \<times> lock_error option" where
  "lock_Release B tset s m l =
    (if lk_released l then (s, m, l, None)
     else
       let l = l\<lparr>lk_released := True, lk_stopWD := True\<rparr>
       in case be_CompareAndDelete B (lk_fullKey l) (lk_token l) tset s of
            (s', r) \<Rightarrow>
              let m = m\<lparr>lm_held := lm_held m - 1\<rparr>
              in case r of
                   Inl err \<Rightarrow> (s', m, l, Some (LockBackendErr err))
                 | Inr False \<Rightarrow> (s', m, l, Some ErrLockNotHeld)
                 | Inr True \<Rightarrow> (s', m\<lparr>lm_bus := lm_bus m @ [EvLockReleased (lk_resource l)]\<rparr>, l, None))"

text \<open>
  One tick of the watchdog: \<open>Renew\<close> with the current lease; on an error the goroutine ends
  (second result).
\<close>

definition lock_watchdog_interval :: "lock_config \<Rightarrow> duration \<Rightarrow> duration" where
  "lock_watchdog_interval cfg lease =
    (let interval = lc_renew cfg lease in if interval \<le> 0 then lease div 2 else interval)"

definition lock_watchdog_tick ::
  "'s backend_ops \<Rightarrow> time \<Rightarrow> time \<Rightarrow> 's \<Rightarrow> lock_manager \<Rightarrow> lock \<Rightarrow> 's \<times> lock_manager \<times> lock \<times> bool" where
  "lock_watchdog_tick B tset now s m l =
    (if lk_stopWD l then (s, m, l, False)
     else case lock_Renew B (lk_lease l) tset now s m l of (s', m', l', err) \<Rightarrow> (s', m', l', err = None))"

text \<open>\<open>WithLock\<close>: \<open>fn\<close> runs on the backend state and the release is deferred past its result.\<close>

definition lock_WithLock ::
  "'s backend_ops \<Rightarrow> string \<Rightarrow> lock_options option \<Rightarrow> 8 word list \<Rightarrow> time \<Rightarrow> 's round list
   \<Rightarrow> ('s \<Rightarrow> 's \<times> 'r) \<Rightarrow> time \<Rightarrow> 's \<Rightarrow> lock_manager \<Rightarrow> ('s \<times> lock_manager \<times> (lock_error + 'r)) option" where
  "lock_WithLock B resource opts rnd start rds fn trel s m =
    (case lock_Acquire B resource opts rnd start rds s m of
       None \<Rightarrow> None
     | Some (s', m', Inl err) \<Rightarrow> Some (s', m', Inl err)
     | Some (s', m', Inr l) \<Rightarrow>
         (case fn s' of (s'', r) \<Rightarrow>
          case lock_Release B trel s'' m' l of (s3, m3, _, _) \<Rightarrow> Some (s3, m3, Inr r)))"

section \<open>Clients sharing a backend\<close>

text \<open>
  The global states reached by any number of clients: the current instant, the backend, every
  handle handed out so far and the tokens minted. A call reaches the backend at the current
  instant; \<open>ret\<close> is the client's later \<open>time.Now()\<close>. The hypotheses of the steps are those the
  scheme rests on: 16 random bytes are never minted twice, and the answer comes back within the
  clock-drift allowance of the lease. Other users of the backend leave the keys of locks alone.
\<close>

definition in_allowance :: "lock_config \<Rightarrow> duration \<Rightarrow> time \<Rightarrow> time \<Rightarrow> bool" where
  "in_allowance cfg lease now ret \<longleftrightarrow> now \<le> ret \<and> ret - now \<le> lc_drift cfg lease"

inductive lock_world ::
  "'s backend_ops \<Rightarrow> lock_config \<Rightarrow> (time \<Rightarrow> 's \<Rightarrow> kv_view) \<Rightarrow> 's \<Rightarrow> time \<Rightarrow> 's \<Rightarrow> lock list \<Rightarrow> string set \<Rightarrow> bool"
  for B cfg view s0 where
  w_init: "lock_world B cfg view s0 t s0 [] {}"
| w_tick: "lock_world B cfg view s0 t s ls T \<Longrightarrow> t \<le> t' \<Longrightarrow> lock_world B cfg view s0 t' s ls T"
| w_try: "lock_world B cfg view s0 t s ls T \<Longrightarrow> lock_TryAcquire B res opts rnd t ret s m = (s', m', r)
    \<Longrightarrow> lm_cfg m = cfg \<Longrightarrow> lock_mintToken (lm_nodeID m) rnd \<notin> T
    \<Longrightarrow> (\<And>l. r = Inr l \<Longrightarrow> in_allowance cfg (lk_lease l) t ret)
    \<Longrightarrow> lock_world B cfg view s0 t s' (case r of Inl _ \<Rightarrow> ls | Inr l \<Rightarrow> l # ls)
          (insert (lock_mintToken (lm_nodeID m) rnd) T)"
| w_round: "lock_world B cfg view s0 t s ls T
    \<Longrightarrow> lock_Acquire_loop B res key tok o' dl [\<lparr>rd_env = id, rd_set = t, rd_now = ret, rd_done = dn\<rparr>] s m = Some (s', m', Inr l)
    \<Longrightarrow> tok \<notin> T \<Longrightarrow> in_allowance cfg (lk_lease l) t ret
    \<Longrightarrow> lock_world B cfg view s0 t s' (l # ls) (insert tok T)"
| w_renew: "lock_world B cfg view s0 t s ls T \<Longrightarrow> i < length ls
    \<Longrightarrow> lock_Renew B lease t ret s m (ls ! i) = (s', m', l', err)
    \<Longrightarrow> in_allowance cfg (lk_lease l') t ret \<Longrightarrow> lock_world B cfg view s0 t s' (ls[i := l']) T"
| w_release: "lock_world B cfg view s0 t s ls T \<Longrightarrow> i < length ls
    \<Longrightarrow> lock_Release B t s m (ls ! i) = (s', m', l', err) \<Longrightarrow> lock_world B cfg view s0 t s' (ls[i := l']) T"
| w_other: "lock_world B cfg view s0 t s ls T \<Longrightarrow> (\<And>l. l \<in> set ls \<Longrightarrow> view t s' (lk_fullKey l) = view t s (lk_fullKey l))
    \<Longrightarrow> lock_world B cfg view s0 t s' ls T"

text \<open>What a holder may rely on: until \<open>ValidUntil\<close> the backend holds its token.\<close>

definition lock_backed :: "lock_config \<Rightarrow> kv_view \<Rightarrow> time \<Rightarrow> lock \<Rightarrow> bool" where
  "lock_backed cfg V t l \<longleftrightarrow> lk_released l \<or> lock_ValidUntil cfg l \<le> t
     \<or> (\<exists>e. V (lk_fullKey l) = Some (lk_token l, e) \<and> (e = 0 \<or> lock_ValidUntil cfg l \<le> e))"

definition locks_inv :: "lock_config \<Rightarrow> kv_view \<Rightarrow> time \<Rightarrow> lock list \<Rightarrow> string set \<Rightarrow> bool" where
  "locks_inv cfg V t ls T \<longleftrightarrow> distinct (map lk_token ls) \<and> lk_token ` set ls \<subseteq> T \<and> (\<forall>l\<in>set ls. lock_backed cfg V t l)"

lemma ValidUntil_le_expiry:
  assumes "in_allowance cfg lease t ret" "lk_lease l = lease" "lk_acquiredAt l = ret"
  shows "mem_expiry lease t = 0 \<or> lock_ValidUntil cfg l \<le> mem_expiry lease t"
  using assms by (auto simp: in_allowance_def lock_ValidUntil_def mem_expiry_def)

lemma locks_inv_add:
  assumes "locks_inv cfg V t ls T" and "V k = None" and "tok \<notin> T"
    and "lk_fullKey l = k" "lk_token l = tok" "lk_acquiredAt l = ret" "in_allowance cfg (lk_lease l) t ret"
  shows "locks_inv cfg (V(k \<mapsto> (tok, mem_expiry (lk_lease l) t))) t (l # ls) (insert tok T)"
proof -
  have new: "lock_backed cfg (V(k \<mapsto> (tok, mem_expiry (lk_lease l) t))) t l"
    using ValidUntil_le_expiry [OF assms(7) refl assms(6)] assms(4,5) by (simp add: lock_backed_def)
  have "lock_backed cfg (V(k \<mapsto> x)) t l'" if "lock_backed cfg V t l'" for l' x
    using that assms(2) by (cases "lk_fullKey l' = k") (auto simp: lock_backed_def)
  then show ?thesis using assms(1,3,5) new by (auto simp: locks_inv_def)
qed

lemma locks_inv_update:
  assumes "locks_inv cfg V t ls T" "i < length ls" "lk_token l' = lk_token (ls ! i)"
    and "lock_backed cfg V' t l'"
    and "\<And>l. l \<in> set ls \<Longrightarrow> lk_token l \<noteq> lk_token (ls ! i) \<Longrightarrow> lock_backed cfg V t l \<Longrightarrow> lock_backed cfg V' t l"
  shows "locks_inv cfg V' t (ls[i := l']) T"
proof -
  have toks: "map lk_token (ls[i := l']) = map lk_token ls"
    using assms(2,3) list_update_id [of "map lk_token ls" i] by (simp add: map_update)
  have "lock_backed cfg V' t l" if "l \<in> set (ls[i := l'])" for l
  proof -
    from that obtain j where j: "j < length ls" "l = ls[i := l'] ! j" by (auto simp: in_set_conv_nth)
    show ?thesis
    proof (cases "j = i")
      case False
      have "lk_token (ls ! j) \<noteq> lk_token (ls ! i)"
        using assms(1,2) False j(1) nth_eq_iff_index_eq [of "map lk_token ls" j i] by (simp add: locks_inv_def)
      moreover have "ls ! j \<in> set ls" "lock_backed cfg V t (ls ! j)"
        using assms(1) j(1) by (simp_all add: locks_inv_def)
      ultimately show ?thesis using assms(5) False j(2) by simp
    qed (use assms j in simp)
  qed
  moreover have "lk_token ` set (ls[i := l']) = lk_token ` set ls"
    using arg_cong [OF toks, of set] by (simp only: list.set_map)
  ultimately show ?thesis using assms(1) unfolding locks_inv_def toks by blast
qed

lemma TryAcquire_cases:
  assumes "lock_TryAcquire B res opts rnd t ret s m = (s', m', r)"
  obtains (got) l where "be_SetNX B (kb_LockKey (lm_kb m) res) (lock_mintToken (lm_nodeID m) rnd) (lk_lease l) t s = (s', Inr True)"
      "r = Inr l" "lk_fullKey l = kb_LockKey (lm_kb m) res" "lk_token l = lock_mintToken (lm_nodeID m) rnd"
      "lk_acquiredAt l = ret"
  | (not_got) lease x e where "be_SetNX B (kb_LockKey (lm_kb m) res) (lock_mintToken (lm_nodeID m) rnd) lease t s = (s', x)"
      "x \<noteq> Inr True" "r = Inl e"
proof -
  let ?lease = "lo_Lease (lock_resolve (lm_cfg m) opts)"
  obtain s1 x where x: "be_SetNX B (kb_LockKey (lm_kb m) res) (lock_mintToken (lm_nodeID m) rnd) ?lease t s = (s1, x)"
    by fastforce
  consider (err) e where "x = Inl e" | (yes) "x = Inr True" | (no) "x = Inr False" by (cases x) auto
  then show thesis
  proof cases
    case yes
    let ?l = "snd (lock_newLock res (kb_LockKey (lm_kb m) res) (lock_mintToken (lm_nodeID m) rnd)
      ((lock_resolve (lm_cfg m) opts)\<lparr>lo_AcquireTimeout := 0\<rparr>) ret m)"
    show thesis
      by (rule got [of ?l]) (use assms x yes in \<open>auto simp: lock_TryAcquire_def Let_def lock_newLock_def\<close>)
  next
    case (err e)
    show thesis
      by (rule not_got [of ?lease x "LockBackendErr e"]) (use assms x err in \<open>auto simp: lock_TryAcquire_def Let_def\<close>)
  next
    case no
    show thesis
      by (rule not_got [of ?lease x ErrLockNotAcquired]) (use assms x no in \<open>auto simp: lock_TryAcquire_def Let_def\<close>)
  qed
qed

context backend_contract
begin

lemma lock_backed_tick:
  assumes "lock_backed cfg (view t s) t l" "t \<le> t'"
  shows "lock_backed cfg (view t' s) t' l"
proof (cases "lk_released l \<or> lock_ValidUntil cfg l \<le> t'")
  case False
  then obtain e where "view t s (lk_fullKey l) = Some (lk_token l, e)" "e = 0 \<or> lock_ValidUntil cfg l \<le> e"
    using assms by (auto simp: lock_backed_def)
  then show ?thesis
    using False view_lasts [OF _ assms(2), of s "lk_fullKey l" "lk_token l" e] by (auto simp: lock_backed_def)
qed (auto simp: lock_backed_def)

lemma locks_inv_tick: "locks_inv cfg (view t s) t ls T \<Longrightarrow> t \<le> t' \<Longrightarrow> locks_inv cfg (view t' s) t' ls T"
  unfolding locks_inv_def using lock_backed_tick by blast

lemma locks_inv_token_mono: "locks_inv cfg V t ls T \<Longrightarrow> locks_inv cfg V t ls (insert tok T)"
  by (auto simp: locks_inv_def)

lemma TryAcquire_inv:
  assumes inv: "locks_inv cfg (view t s) t ls T" and ta: "lock_TryAcquire B res opts rnd t ret s m = (s', m', r)"
    and tok: "lock_mintToken (lm_nodeID m) rnd \<notin> T" and ret: "\<And>l. r = Inr l \<Longrightarrow> in_allowance cfg (lk_lease l) t ret"
  shows "locks_inv cfg (view t s') t (case r of Inl _ \<Rightarrow> ls | Inr l \<Rightarrow> l # ls) (insert (lock_mintToken (lm_nodeID m) rnd) T)"
  using ta
proof (cases rule: TryAcquire_cases)
  case (got l)
  then show ?thesis
    using SetNX_law [OF got(1)] locks_inv_add [OF inv _ tok got(3,4,5) ret [OF got(2)]] by simp
next
  case (not_got lease x e)
  then have "view t s' = view t s"
    using SetNX_law [of _ _ lease t s s' False] SetNX_err [of _ _ lease t s s'] by (cases x) auto
  then show ?thesis using locks_inv_token_mono [OF inv] not_got(3) by simp
qed

lemma round_inv:
  assumes inv: "locks_inv cfg (view t s) t ls T"
    and rd: "lock_Acquire_loop B res key tok o' dl [\<lparr>rd_env = id, rd_set = t, rd_now = ret, rd_done = dn\<rparr>] s m = Some (s', m', Inr l)"
    and tok: "tok \<notin> T" and ret: "in_allowance cfg (lk_lease l) t ret"
  shows "locks_inv cfg (view t s') t (l # ls) (insert tok T)"
proof -
  obtain s1 x where x: "be_SetNX B key tok (lo_Lease o') t s = (s1, x)" by fastforce
  have "x = Inr True" using rd x by (auto split: sum.splits bool.splits if_splits)
  then have l: "s1 = s'" "l = snd (lock_newLock res key tok o' ret m)"
    using rd x by (auto simp: lock_newLock_def)
  have f: "lk_fullKey l = key" "lk_token l = tok" "lk_acquiredAt l = ret" "lk_lease l = lo_Lease o'"
    by (simp_all add: l(2) lock_newLock_def)
  show ?thesis
    using SetNX_law [OF x [unfolded \<open>x = Inr True\<close> l(1)]] locks_inv_add [OF inv _ tok f(1,2,3) ret] f(4) by simp
qed

text \<open>The compare-and-* commands of a handle act on the key only while it holds the handle's token.\<close>

lemma other_backed:
  assumes "lock_backed cfg V t l" "lk_token l \<noteq> tok" and "V' = V \<or> (\<exists>e x. V k = Some (tok, e) \<and> V' = V(k := x))"
  shows "lock_backed cfg V' t l"
  using assms by (cases "lk_fullKey l = k") (auto simp: lock_backed_def)

lemma CAD_changes:
  assumes "be_CompareAndDelete B k tok t s = (s', x)"
  shows "view t s' = view t s \<or> (\<exists>e y. view t s k = Some (tok, e) \<and> view t s' = (view t s)(k := y))"
proof (cases x)
  case (Inl err)
  then show ?thesis using CAD_err [of k tok t s s' err] assms by simp
next
  case (Inr ok)
  then show ?thesis using CAD_law [of k tok t s s' ok] assms by (cases ok) auto
qed

lemma Renew_inv:
  assumes inv: "locks_inv cfg (view t s) t ls T" and i: "i < length ls"
    and rn: "lock_Renew B lease t ret s m (ls ! i) = (s', m', l', err)"
    and ret: "in_allowance cfg (lk_lease l') t ret"
  shows "locks_inv cfg (view t s') t (ls[i := l']) T"
proof (cases "lk_released (ls ! i)")
  case False
  let ?l = "ls ! i" and ?lease = "if lease \<le> 0 then lk_lease (ls ! i) else lease"
  obtain s1 x where x: "be_CompareAndExpire B (lk_fullKey ?l) (lk_token ?l) ?lease t s = (s1, x)" by fastforce
  consider (err) e where "x = Inl e" | (yes) "x = Inr True" | (no) "x = Inr False" by (cases x) auto
  then show ?thesis
  proof cases
    case yes
    then have l': "s1 = s'" "l' = ?l\<lparr>lk_lease := ?lease, lk_acquiredAt := ret\<rparr>"
      using rn x False by (simp_all add: lock_Renew_def Let_def)
    note L = CAE_law [OF x [unfolded yes l'(1)]]
    show ?thesis
    proof (rule locks_inv_update [OF inv i])
      show "lk_token l' = lk_token ?l" by (simp add: l')
      show "lock_backed cfg (view t s') t l'"
        using L ValidUntil_le_expiry [OF ret, of l'] by (simp add: lock_backed_def l'(2))
      show "lock_backed cfg (view t s') t l" if "lk_token l \<noteq> lk_token ?l" "lock_backed cfg (view t s) t l" for l
        by (rule other_backed [OF that(2,1), of _ "lk_fullKey ?l"]) (use L in auto)
    qed
  next
    case (err e)
    then have "view t s' = view t s" "l' = ?l"
      using rn x False CAE_err [OF x [unfolded err]] by (simp_all add: lock_Renew_def Let_def)
    then show ?thesis using inv by simp
  next
    case no
    then have l': "view t s' = view t s" "l' = ?l\<lparr>lk_lost := True\<rparr>"
      using rn x False CAE_law [OF x [unfolded no]] by (simp_all add: lock_Renew_def Let_def)
    have "lock_backed cfg (view t s) t ?l" using inv i by (simp add: locks_inv_def)
    then show ?thesis
      by (intro locks_inv_update [OF inv i]) (simp_all add: l' lock_backed_def lock_ValidUntil_def)
  qed
qed (use inv rn in \<open>auto simp: lock_Renew_def\<close>)

lemma Release_inv:
  assumes inv: "locks_inv cfg (view t s) t ls T" and i: "i < length ls"
    and rl: "lock_Release B t s m (ls ! i) = (s', m', l', err)"
  shows "locks_inv cfg (view t s') t (ls[i := l']) T"
proof (cases "lk_released (ls ! i)")
  case False
  let ?l = "ls ! i"
  obtain s1 x where x: "be_CompareAndDelete B (lk_fullKey ?l) (lk_token ?l) t s = (s1, x)" by fastforce
  have l': "s1 = s'" "l' = ?l\<lparr>lk_released := True, lk_stopWD := True\<rparr>"
    using rl x False by (auto simp: lock_Release_def Let_def split: sum.splits bool.splits)
  note V = CAD_changes [OF x [unfolded l'(1)]]
  show ?thesis
  proof (rule locks_inv_update [OF inv i])
    show "lock_backed cfg (view t s') t l" if "lk_token l \<noteq> lk_token ?l" "lock_backed cfg (view t s) t l" for l
      by (rule other_backed [OF that(2,1) V])
  qed (simp_all add: l' lock_backed_def)
qed (use inv rl in \<open>auto simp: lock_Release_def\<close>)

lemma lock_world_inv: "lock_world B cfg view s0 t s ls T \<Longrightarrow> locks_inv cfg (view t s) t ls T"
proof (induction rule: lock_world.induct)
  case (w_other t s ls T s')
  then show ?case by (auto simp: locks_inv_def lock_backed_def)
qed (auto simp: locks_inv_def [of _ _ _ "[]"] intro: locks_inv_tick TryAcquire_inv round_inv Renew_inv Release_inv)

lemma lock_world_exclusive:
  assumes "lock_world B cfg view s0 t s ls T" "l1 \<in> set ls" "l2 \<in> set ls" "lk_fullKey l1 = lk_fullKey l2"
    and "\<not> lk_released l1" "\<not> lk_released l2" "t < lock_ValidUntil cfg l1" "t < lock_ValidUntil cfg l2"
  shows "l1 = l2"
proof -
  have inv: "locks_inv cfg (view t s) t ls T" by (rule lock_world_inv [OF assms(1)])
  then have "lock_backed cfg (view t s) t l1" "lock_backed cfg (view t s) t l2"
    using assms(2,3) by (auto simp: locks_inv_def)
  then have "lk_token l1 = lk_token l2" using assms(4-8) by (auto simp: lock_backed_def)
  moreover have "distinct (map lk_token ls)" using inv by (simp add: locks_inv_def)
  ultimately show ?thesis using assms(2,3) by (auto simp: distinct_map dest: inj_onD)
qed

end

section \<open>Properties\<close>


definition ex_lock_config :: lock_config where
  "ex_lock_config = \<lparr>lc_DefaultLease = 100, lc_AcquireTimeout = 50, lc_RetryInterval = 10,
     lc_renew = (\<lambda>l. l div 2), lc_drift = (\<lambda>l. 2)\<rparr>"

definition ex_lock_manager :: "string \<Rightarrow> lock_manager" where
  "ex_lock_manager node = \<lparr>lm_cfg = ex_lock_config, lm_kb = kb_New ''cpip'' ''c'', lm_nodeID = node, lm_held = 0, lm_bus = []\<rparr>"

definition ex_lock :: "string \<Rightarrow> time \<Rightarrow> lock" where
  "ex_lock node at = \<lparr>lk_resource = ''doc'', lk_fullKey = kb_LockKey (kb_New ''cpip'' ''c'') ''doc'',
     lk_token = lock_mintToken node (replicate 16 7), lk_lease = 100, lk_acquiredAt = at,
     lk_released = False, lk_lost = False, lk_stopWD = False, lk_watchdog = False\<rparr>"

definition ex_lock_store :: "string \<Rightarrow> time \<Rightarrow> memory" where
  "ex_lock_store node t = mem_New\<lparr>mm_kv := [(kb_LockKey (kb_New ''cpip'' ''c'') ''doc'',
     \<lparr>en_value = lock_mintToken node (replicate 16 7), en_expireAt = t + 100\<rparr>)]\<rparr>"

definition ex_redis_store :: "string \<Rightarrow> time \<Rightarrow> redis_emulator" where
  "ex_redis_store node t = re_New\<lparr>re_data := [(kb_LockKey (kb_New ''cpip'' ''c'') ''doc'',
     KV (KStr (lock_mintToken node (replicate 16 7))) (t + 100))]\<rparr>"

lemmas ex_lock_simps = lock_TryAcquire_def ex_lock_manager_def ex_lock_config_def lock_resolve_def lock_newLock_def ex_lock_def Let_def

text \<open>Client \<open>a\<close> takes the lock, its lease runs out and client \<open>b\<close> takes it, on any backend that lets them.\<close>

lemma ex_lock_world:
  assumes a: "be_SetNX B (lk_fullKey (ex_lock ''a'' 101)) (lk_token (ex_lock ''a'' 101)) 100 100 s0 = (sa, Inr True)"
    and b: "be_SetNX B (lk_fullKey (ex_lock ''b'' 301)) (lk_token (ex_lock ''b'' 301)) 100 300 sa = (sb, Inr True)"
  shows "\<exists>T. lock_world B ex_lock_config view s0 300 sb [ex_lock ''b'' 301, ex_lock ''a'' 101] T"
proof -
  have "lock_TryAcquire B ''doc'' None (replicate 16 7) 100 101 s0 (ex_lock_manager ''a'')
     = (sa, (ex_lock_manager ''a'')\<lparr>lm_held := 1, lm_bus := [EvLockAcquired ''doc'']\<rparr>, Inr (ex_lock ''a'' 101))"
    using a by (simp add: ex_lock_simps)
  from w_try [OF w_init this]
  have "lock_world B ex_lock_config view s0 100 sa [ex_lock ''a'' 101] {lock_mintToken ''a'' (replicate 16 7)}"
    by (simp add: ex_lock_manager_def in_allowance_def ex_lock_config_def)
  then have w: "lock_world B ex_lock_config view s0 300 sa [ex_lock ''a'' 101] {lock_mintToken ''a'' (replicate 16 7)}"
    by (rule w_tick) simp
  have "lock_TryAcquire B ''doc'' None (replicate 16 7) 300 301 sa (ex_lock_manager ''b'')
     = (sb, (ex_lock_manager ''b'')\<lparr>lm_held := 1, lm_bus := [EvLockAcquired ''doc'']\<rparr>, Inr (ex_lock ''b'' 301))"
    using b by (simp add: ex_lock_simps)
  from w_try [OF w this]
  have "lock_world B ex_lock_config view s0 300 sb [ex_lock ''b'' 301, ex_lock ''a'' 101]
      {lock_mintToken ''b'' (replicate 16 7), lock_mintToken ''a'' (replicate 16 7)}"
    by (simp add: ex_lock_manager_def in_allowance_def ex_lock_config_def lock_mintToken_def)
  then show ?thesis ..
qed

lemma ex_mem_world:
  "\<exists>T. lock_world mem_ops ex_lock_config mem_view mem_New 300 (ex_lock_store ''b'' 300) [ex_lock ''b'' 301, ex_lock ''a'' 101] T"
  by (rule ex_lock_world [of _ _ "ex_lock_store ''a'' 100"])
    (simp_all add: mem_ops_def mem_SetNX_def mem_live_def mem_put_def mem_expiry_def ex_lock_def ex_lock_store_def mem_New_def)

lemma ex_redis_world:
  "\<exists>T. lock_world redis_ops ex_lock_config re_view re_New 300 (ex_redis_store ''b'' 300) [ex_lock ''b'' 301, ex_lock ''a'' 101] T"
  by (rule ex_lock_world [of _ _ "ex_redis_store ''a'' 100"])
    (simp_all add: redis_ops_def redis_pass_def re_SetNX_def re_live_def mem_expiry_def ex_lock_def ex_redis_store_def re_New_def)


text \<open>
  The drift allowance is needed: \<open>newLock\<close> counts the lease from the return of the call, so an
  answer later than the allowance yields a handle that considers itself valid after the backend
  has dropped its key.
\<close>

lemma lock_ValidUntil_after_expiry:
  assumes "be_SetNX B key tok (lo_Lease o') t s = (s', Inr True)" "lo_Lease o' > 0"
    and "lc_drift cfg (lo_Lease o') < ret - t"
  shows "\<exists>m' l. lock_Acquire_loop B res key tok o' dl [\<lparr>rd_env = id, rd_set = t, rd_now = ret, rd_done = dn\<rparr>] s m
            = Some (s', m', Inr l) \<and> mem_expiry (lo_Lease o') t < lock_ValidUntil cfg l"
  using assms by (simp add: lock_newLock_def lock_ValidUntil_def mem_expiry_def)

lemma lock_Acquire_loop_returns:
  assumes "0 < retry" "\<And>i. i < length rds \<Longrightarrow> t0 + int i * retry \<le> rd_now (rds ! i)"
    and "rds \<noteq> []" "dl < t0 + int (length rds - 1) * retry"
  shows "\<exists>x. lock_Acquire_loop B res key tok o' dl rds s m = Some x"
  using assms(2-)
proof (induction rds arbitrary: s t0)
  case (Cons rd rds)
  obtain s1 x where x: "be_SetNX B key tok (lo_Lease o') (rd_set rd) (rd_env rd s) = (s1, x)" by fastforce
  show ?case
  proof (cases "rds = []")
    case True
    then have "rd_now rd > dl" using Cons.prems(1) [of 0] Cons.prems(3) by simp
    then show ?thesis using x by (auto simp: lock_newLock_def split: sum.splits bool.splits)
  next
    case False
    have "\<exists>y. lock_Acquire_loop B res key tok o' dl rds s1 m = Some y"
    proof (rule Cons.IH [of "t0 + retry"])
      show "t0 + retry + int i * retry \<le> rd_now (rds ! i)" if "i < length rds" for i
        using Cons.prems(1) [of "Suc i"] that by (simp add: algebra_simps)
      show "dl < t0 + retry + int (length rds - 1) * retry"
        using Cons.prems(3) False by (cases rds) (simp_all add: algebra_simps)
    qed (rule False)
    then show ?thesis using x by (auto simp: lock_newLock_def split: sum.splits bool.splits)
  qed
qed simp

text \<open>
  C16. \<open>Acquire\<close> never blocks forever, on any backend: when round \<open>i\<close> of its loop happens no
  earlier than \<open>i\<close> retry intervals after the start, it has returned (a lock or an error) by the
  first round past the acquisition timeout, whatever the other clients do in between.
\<close>

theorem lock_Acquire_terminates:
  assumes "0 < lc_RetryInterval (lm_cfg m)" "rds \<noteq> []"
    and "\<And>i. i < length rds \<Longrightarrow> start + int i * lc_RetryInterval (lm_cfg m) \<le> rd_now (rds ! i)"
    and "lo_AcquireTimeout (lock_resolve (lm_cfg m) opts) < int (length rds - 1) * lc_RetryInterval (lm_cfg m)"
  shows "\<exists>s' m' r. lock_Acquire B res opts rnd start rds s m = Some (s', m', r)"
proof -
  have "\<exists>x. lock_Acquire B res opts rnd start rds s m = Some x"
    unfolding lock_Acquire_def Let_def
    by (rule lock_Acquire_loop_returns [OF assms(1) assms(3) assms(2)]) (use assms(4) in simp_all)
  then show ?thesis by auto
qed

theorem lock_Acquire_terminates_witness:
  "\<exists>s' m' r. lock_Acquire mem_ops ''doc'' None [] 100
     (map (\<lambda>i. \<lparr>rd_env = id, rd_set = 100 + 10 * int i, rd_now = 101 + 10 * int i, rd_done = False\<rparr>) [0..<7])
     (ex_lock_store ''a'' 100) (ex_lock_manager ''b'') = Some (s', m', r)"
  by (rule lock_Acquire_terminates) (simp_all add: ex_lock_manager_def ex_lock_config_def lock_resolve_def)



end
