(* ===== verification/Coord_Election.thy ===== *)
theory Coord_Election
  imports Coord_Redis Coord_Keys
begin

text \<open>
  Leader election (\<open>coordination/leader\<close>): the lease-based elector over an arbitrary backend,
  the per-scope \<open>Election\<close> driven by its loop, and the manager's table of elections. A tick of
  the loop is one step; the backend calls inside a tick happen at the instant of the tick.
  Callbacks and metrics are observed as the log of transitions.
\<close>

section \<open>Model\<close>

subsection \<open>The elector\<close>

definition elector_Campaign ::
  "'s backend_ops \<Rightarrow> key_builder \<Rightarrow> string \<Rightarrow> string \<Rightarrow> duration \<Rightarrow> time \<Rightarrow> 's \<Rightarrow> 's \<times> (be_error + bool)" where
  "elector_Campaign B kb scope cand lease now s =
    (let key = kb_LeaderKey kb scope
     in case be_SetNX B key cand lease now s of
          (s', Inl err) \<Rightarrow> (s', Inl err)
        | (s', Inr True) \<Rightarrow> (s', Inr True)
        | (s', Inr False) \<Rightarrow>
            (case be_Get B key now s' of
               (s'', Inl err) \<Rightarrow> (s'', Inl err)
             | (s'', Inr cur) \<Rightarrow> (s'', Inr (cur = Some cand))))"

definition elector_Renew ::
  "'s backend_ops \<Rightarrow> key_builder \<Rightarrow> string \<Rightarrow> string \<Rightarrow> duration \<Rightarrow> time \<Rightarrow> 's \<Rightarrow> 's \<times> (be_error + bool)" where
  "elector_Renew B kb scope cand lease now s = be_CompareAndExpire B (kb_LeaderKey kb scope) cand lease now s"

definition elector_Resign ::
  "'s backend_ops \<Rightarrow> key_builder \<Rightarrow> string \<Rightarrow> string \<Rightarrow> time \<Rightarrow> 's \<Rightarrow> 's \<times> be_error option" where
  "elector_Resign B kb scope cand now s =
    (case be_CompareAndDelete B (kb_LeaderKey kb scope) cand now s of
       (s', Inl err) \<Rightarrow> (s', Some err) | (s', Inr _) \<Rightarrow> (s', None))"

definition elector_Leader ::
  "'s backend_ops \<Rightarrow> key_builder \<Rightarrow> string \<Rightarrow> time \<Rightarrow> 's \<Rightarrow> 's \<times> (be_error + string option)" where
  "elector_Leader B kb scope now s = be_Get B (kb_LeaderKey kb scope) now s"

definition elector_Transfer ::
  "'s backend_ops \<Rightarrow> key_builder \<Rightarrow> string \<Rightarrow> string \<Rightarrow> string \<Rightarrow> duration \<Rightarrow> time \<Rightarrow> 's \<Rightarrow> 's \<times> (be_error + bool)" where
  "elector_Transfer B kb scope from to lease now s =
     be_CompareAndSwap B (kb_LeaderKey kb scope) from to lease now s"

subsection \<open>One election\<close>

record leader_config =
  ld_Lease :: duration
  ld_RenewInterval :: duration
  ld_RetryInterval :: duration

datatype leader_event = EvElected | EvLost string | EvStepped "string option"

datatype leader_error = ErrNotLeader | ErrLeadershipLost | ErrNoLeader | LeaderBackendErr be_error

record election =
  el_scope :: string
  el_candidateID :: string
  el_isLeader :: bool
  el_leaderID :: string
  el_log :: "leader_event list"

definition election_new :: "string \<Rightarrow> string \<Rightarrow> election" where
  "election_new scope cand = \<lparr>el_scope = scope, el_candidateID = cand, el_isLeader = False, el_leaderID = '''', el_log = []\<rparr>"

definition election_transitionWon :: "election \<Rightarrow> election" where
  "election_transitionWon e =
    (if el_isLeader e then e
     else e\<lparr>el_isLeader := True, el_leaderID := el_candidateID e, el_log := el_log e @ [EvElected]\<rparr>)"

definition election_transitionLost :: "string \<Rightarrow> election \<Rightarrow> election" where
  "election_transitionLost reason e =
    (if \<not> el_isLeader e then e
     else e\<lparr>el_isLeader := False, el_leaderID := '''', el_log := el_log e @ [EvLost reason]\<rparr>)"

text \<open>A tick returns the wait before the next one.\<close>

definition election_campaignTick ::
  "'s backend_ops \<Rightarrow> key_builder \<Rightarrow> leader_config \<Rightarrow> time \<Rightarrow> 's \<Rightarrow> election \<Rightarrow> 's \<times> election \<times> duration" where
  "election_campaignTick B kb cfg now s e =
    (case elector_Campaign B kb (el_scope e) (el_candidateID e) (ld_Lease cfg) now s of
       (s', Inl err) \<Rightarrow> (s', e, ld_RetryInterval cfg)
     | (s', Inr True) \<Rightarrow> (s', election_transitionWon e, ld_RenewInterval cfg)
     | (s', Inr False) \<Rightarrow>
         (case elector_Leader B kb (el_scope e) now s' of
            (s'', Inr (Some cur)) \<Rightarrow> (s'', e\<lparr>el_leaderID := cur\<rparr>, ld_RetryInterval cfg)
          | (s'', _) \<Rightarrow> (s'', e, ld_RetryInterval cfg)))"

definition election_renewTick ::
  "'s backend_ops \<Rightarrow> key_builder \<Rightarrow> leader_config \<Rightarrow> time \<Rightarrow> 's \<Rightarrow> election \<Rightarrow> 's \<times> election \<times> duration" where
  "election_renewTick B kb cfg now s e =
    (case elector_Renew B kb (el_scope e) (el_candidateID e) (ld_Lease cfg) now s of
       (s', Inl err) \<Rightarrow> (s', e, ld_RetryInterval cfg)
     | (s', Inr False) \<Rightarrow> (s', election_transitionLost ''renew_failed'' e, ld_RetryInterval cfg)
     | (s', Inr True) \<Rightarrow> (s', e, ld_RenewInterval cfg))"

text \<open>One turn of \<open>run\<close>, and its exit when the context ends.\<close>

definition election_tick ::
  "'s backend_ops \<Rightarrow> key_builder \<Rightarrow> leader_config \<Rightarrow> time \<Rightarrow> 's \<Rightarrow> election \<Rightarrow> 's \<times> election \<times> duration" where
  "election_tick B kb cfg now s e =
    (if el_isLeader e then election_renewTick B kb cfg now s e else election_campaignTick B kb cfg now s e)"

definition election_shutdown ::
  "'s backend_ops \<Rightarrow> key_builder \<Rightarrow> time \<Rightarrow> 's \<Rightarrow> election \<Rightarrow> 's \<times> election" where
  "election_shutdown B kb now s e =
    (if el_isLeader e
     then (fst (elector_Resign B kb (el_scope e) (el_candidateID e) now s), election_transitionLost ''shutdown'' e)
     else (s, e))"

definition election_Leader ::
  "'s backend_ops \<Rightarrow> key_builder \<Rightarrow> time \<Rightarrow> 's \<Rightarrow> election \<Rightarrow> 's \<times> election \<times> (leader_error + string)" where
  "election_Leader B kb now s e =
    (case elector_Leader B kb (el_scope e) now s of
       (s', Inl err) \<Rightarrow> (s', e, Inl (LeaderBackendErr err))
     | (s', Inr None) \<Rightarrow> (s', e, Inl ErrNoLeader)
     | (s', Inr (Some cur)) \<Rightarrow> (s', e\<lparr>el_leaderID := cur\<rparr>, Inr cur))"

definition election_Resign ::
  "'s backend_ops \<Rightarrow> key_builder \<Rightarrow> time \<Rightarrow> 's \<Rightarrow> election \<Rightarrow> 's \<times> election \<times> leader_error option" where
  "election_Resign B kb now s e =
    (if \<not> el_isLeader e then (s, e, Some ErrNotLeader)
     else case elector_Resign B kb (el_scope e) (el_candidateID e) now s of
            (s', Some err) \<Rightarrow> (s', e, Some (LeaderBackendErr err))
          | (s', None) \<Rightarrow>
              (s', election_transitionLost ''resigned'' (e\<lparr>el_log := el_log e @ [EvStepped None]\<rparr>), None))"

definition election_Transfer ::
  "'s backend_ops \<Rightarrow> key_builder \<Rightarrow> leader_config \<Rightarrow> string \<Rightarrow> time \<Rightarrow> 's \<Rightarrow> election
   \<Rightarrow> 's \<times> election \<times> leader_error option" where
  "election_Transfer B kb cfg to now s e =
    (if \<not> el_isLeader e then (s, e, Some ErrNotLeader)
     else case elector_Transfer B kb (el_scope e) (el_candidateID e) to (ld_Lease cfg) now s of
            (s', Inl err) \<Rightarrow> (s', e, Some (LeaderBackendErr err))
          | (s', Inr False) \<Rightarrow> (s', e, Some ErrLeadershipLost)
          | (s', Inr True) \<Rightarrow>
              (s', election_transitionLost ''transferred'' (e\<lparr>el_log := el_log e @ [EvStepped (Some to)]\<rparr>), None))"

subsection \<open>The manager's table\<close>

definition DefaultScope :: string where
  "DefaultScope = ''cluster''"

type_synonym elections = "(string, election) gomap"

definition leader_Election :: "string \<Rightarrow> string \<Rightarrow> elections \<Rightarrow> elections \<times> election" where
  "leader_Election cand scope es =
    (let scope = (if scope = '''' then DefaultScope else scope)
     in case map_of es scope of
          Some e \<Rightarrow> (es, e)
        | None \<Rightarrow> let e = election_new scope cand in (AList.update scope e es, e))"

definition leader_IsLeader :: "string \<Rightarrow> elections \<Rightarrow> bool" where
  "leader_IsLeader scope es =
    (let scope = (if scope = '''' then DefaultScope else scope)
     in case map_of es scope of Some e \<Rightarrow> el_isLeader e | None \<Rightarrow> False)"

section \<open>Candidates sharing a backend\<close>

text \<open>
  With every election goes the instant at which the backend last granted it a full lease
  (\<open>None\<close>: not since it became leader). \<open>IsLeader\<close> alone is a local belief; the lease is what
  makes it exclusive.
\<close>

definition el_key :: "key_builder \<Rightarrow> election \<Rightarrow> string" where
  "el_key kb e = kb_LeaderKey kb (el_scope e)"

definition el_granted :: "kv_view \<Rightarrow> key_builder \<Rightarrow> duration \<Rightarrow> time \<Rightarrow> election \<Rightarrow> time option \<Rightarrow> time option" where
  "el_granted V kb lease now e c =
    (if V (el_key kb e) = Some (el_candidateID e, mem_expiry lease now) then Some now
     else if el_isLeader e then c else None)"

datatype el_action = Tick | Resign | Transfer string | Shutdown | Query

fun el_act ::
  "'s backend_ops \<Rightarrow> key_builder \<Rightarrow> leader_config \<Rightarrow> el_action \<Rightarrow> time \<Rightarrow> 's \<Rightarrow> election \<Rightarrow> 's \<times> election" where
  "el_act B kb cfg Tick now s e = (case election_tick B kb cfg now s e of (s', e', _) \<Rightarrow> (s', e'))"
| "el_act B kb cfg Resign now s e = (case election_Resign B kb now s e of (s', e', _) \<Rightarrow> (s', e'))"
| "el_act B kb cfg (Transfer to) now s e = (case election_Transfer B kb cfg to now s e of (s', e', _) \<Rightarrow> (s', e'))"
| "el_act B kb cfg Shutdown now s e = election_shutdown B kb now s e"
| "el_act B kb cfg Query now s e = (case election_Leader B kb now s e of (s', e', _) \<Rightarrow> (s', e'))"

inductive election_world ::
  "'s backend_ops \<Rightarrow> key_builder \<Rightarrow> leader_config \<Rightarrow> (time \<Rightarrow> 's \<Rightarrow> kv_view) \<Rightarrow> 's
   \<Rightarrow> time \<Rightarrow> 's \<Rightarrow> (election \<times> time option) list \<Rightarrow> bool"
  for B kb cfg view s0 where
  ew_init: "distinct (map (\<lambda>(e, _). (el_scope e, el_candidateID e)) es) \<Longrightarrow> (\<And>e c. (e, c) \<in> set es \<Longrightarrow> \<not> el_isLeader e)
    \<Longrightarrow> election_world B kb cfg view s0 t s0 es"
| ew_wait: "election_world B kb cfg view s0 t s es \<Longrightarrow> t \<le> t' \<Longrightarrow> election_world B kb cfg view s0 t' s es"
| ew_act: "election_world B kb cfg view s0 t s es \<Longrightarrow> i < length es \<Longrightarrow> es ! i = (e, c)
    \<Longrightarrow> el_act B kb cfg a t s e = (s', e')
    \<Longrightarrow> election_world B kb cfg view s0 t s' (es[i := (e', el_granted (view t s') kb (ld_Lease cfg) t e c)])"

definition el_backed :: "kv_view \<Rightarrow> key_builder \<Rightarrow> duration \<Rightarrow> time \<Rightarrow> election \<times> time option \<Rightarrow> bool" where
  "el_backed V kb lease t ec \<longleftrightarrow>
    (case ec of (e, c) \<Rightarrow> el_isLeader e \<longrightarrow> (case c of None \<Rightarrow> True | Some t0 \<Rightarrow>
       t < t0 + lease \<longrightarrow> (\<exists>x. V (el_key kb e) = Some (el_candidateID e, x) \<and> (x = 0 \<or> t0 + lease \<le> x))))"

text \<open>An action of candidate \<open>cand\<close> writes only a free key or one that names it.\<close>

definition own_write :: "kv_view \<Rightarrow> kv_view \<Rightarrow> string \<Rightarrow> string \<Rightarrow> bool" where
  "own_write V V' k cand \<longleftrightarrow> V' = V \<or> (\<exists>y. V' = V(k := y) \<and> (V k = None \<or> (\<exists>x. V k = Some (cand, x))))"

lemma own_write_refl [simp]: "own_write V V k cand"
  by (simp add: own_write_def)

lemma own_write_backed:
  assumes "own_write V V' k cand" "el_backed V kb lease t (e, c)" "el_key kb e = k \<Longrightarrow> el_candidateID e \<noteq> cand"
  shows "el_backed V' kb lease t (e, c)"
  using assms by (cases "el_key kb e = k") (auto simp: own_write_def el_backed_def split: option.splits)

lemma transition_simps [simp]:
  "el_scope (election_transitionWon e) = el_scope e" "el_candidateID (election_transitionWon e) = el_candidateID e"
  "el_isLeader (election_transitionWon e)"
  "el_scope (election_transitionLost r e) = el_scope e" "el_candidateID (election_transitionLost r e) = el_candidateID e"
  "\<not> el_isLeader (election_transitionLost r e)"
  by (simp_all add: election_transitionWon_def election_transitionLost_def)

lemma not_leader_backed: "\<not> el_isLeader e \<Longrightarrow> el_backed V kb lease t (e, c)"
  by (simp add: el_backed_def)

lemma granted_backed:
  assumes "el_backed V kb lease t (e, c)" "V' (el_key kb e) = V (el_key kb e) \<or> \<not> el_isLeader e
      \<or> V' (el_key kb e) = Some (el_candidateID e, mem_expiry lease t)"
    and "el_scope e' = el_scope e" "el_candidateID e' = el_candidateID e"
  shows "el_backed V' kb lease t (e', el_granted V' kb lease t e c)"
  using assms
  by (auto simp: el_backed_def el_granted_def el_key_def mem_expiry_def split: option.splits)

context backend_contract
begin

lemma CAD_own: "be_CompareAndDelete B k cand t s = (s', x) \<Longrightarrow> own_write (view t s) (view t s') k cand"
  using CAD_law [of k cand t s s'] CAD_err [of k cand t s s'] by (cases x) (auto simp: own_write_def)

lemma Campaign_own:
  assumes "elector_Campaign B kb scope cand lease t s = (s', x)"
  shows "own_write (view t s) (view t s') (kb_LeaderKey kb scope) cand"
proof -
  let ?k = "kb_LeaderKey kb scope"
  obtain s1 y where y: "be_SetNX B ?k cand lease t s = (s1, y)" by fastforce
  obtain s2 z where z: "be_Get B ?k t s1 = (s2, z)" by fastforce
  have "view t s2 = view t s1" using Get_law [of ?k t s1 s2] Get_err [of ?k t s1 s2] z by (cases z) auto
  moreover have "own_write (view t s) (view t s1) ?k cand"
    using SetNX_law [of ?k cand lease t s s1] SetNX_err [of ?k cand lease t s s1] y
    by (cases y) (auto simp: own_write_def)
  moreover have "s' = s1 \<or> s' = s2"
    using assms y z by (auto simp: elector_Campaign_def Let_def split: sum.splits bool.splits)
  ultimately show ?thesis by auto
qed

lemma Get_same: "be_Get B k t s = (s', x) \<Longrightarrow> view t s' = view t s"
  using Get_law [of k t s s'] Get_err [of k t s s'] by (cases x) auto

text \<open>What an action of an election does: it stays the same candidacy, writes only its own key, and
  a leader that stays leader keeps its entry or gets a full lease.\<close>

definition act_ok :: "'s \<Rightarrow> 's \<Rightarrow> key_builder \<Rightarrow> duration \<Rightarrow> time \<Rightarrow> election \<Rightarrow> election \<Rightarrow> bool" where
  "act_ok s s' kb lease t e e' \<longleftrightarrow>
     el_scope e' = el_scope e \<and> el_candidateID e' = el_candidateID e
   \<and> own_write (view t s) (view t s') (el_key kb e) (el_candidateID e)
   \<and> (\<not> el_isLeader e' \<or> \<not> el_isLeader e \<or> view t s' (el_key kb e) = view t s (el_key kb e)
      \<or> view t s' (el_key kb e) = Some (el_candidateID e, mem_expiry lease t))"

lemma renewTick_ok:
  assumes "election_renewTick B kb cfg t s e = (s', e', w)"
  shows "act_ok s s' kb (ld_Lease cfg) t e e'"
proof -
  obtain s1 x where x: "be_CompareAndExpire B (el_key kb e) (el_candidateID e) (ld_Lease cfg) t s = (s1, x)" by fastforce
  have "own_write (view t s) (view t s1) (el_key kb e) (el_candidateID e)
      \<and> (view t s1 = view t s \<or> view t s1 (el_key kb e) = Some (el_candidateID e, mem_expiry (ld_Lease cfg) t))"
    using CAE_law [of "el_key kb e" "el_candidateID e" "ld_Lease cfg" t s s1]
      CAE_err [of "el_key kb e" "el_candidateID e" "ld_Lease cfg" t s s1] x
    by (cases x) (auto simp: own_write_def)
  moreover have "s' = s1" "e' = e \<or> e' = election_transitionLost ''renew_failed'' e"
    using assms x by (auto simp: election_renewTick_def elector_Renew_def el_key_def [symmetric] split: sum.splits bool.splits)
  ultimately show ?thesis by (auto simp: act_ok_def)
qed

lemma campaignTick_ok:
  assumes "election_campaignTick B kb cfg t s e = (s', e', w)" "\<not> el_isLeader e"
  shows "act_ok s s' kb (ld_Lease cfg) t e e'"
proof -
  obtain s1 x where x: "elector_Campaign B kb (el_scope e) (el_candidateID e) (ld_Lease cfg) t s = (s1, x)" by fastforce
  obtain s2 z where z: "be_Get B (kb_LeaderKey kb (el_scope e)) t s1 = (s2, z)" by fastforce
  have "(s' = s1 \<or> s' = s2) \<and> el_scope e' = el_scope e \<and> el_candidateID e' = el_candidateID e"
    using assms(1) x z by (auto simp: election_campaignTick_def elector_Leader_def split: sum.splits bool.splits option.splits)
  then show ?thesis using Campaign_own [OF x] Get_same [OF z] assms(2) by (auto simp: act_ok_def el_key_def)
qed

lemma Resign_ok:
  assumes "election_Resign B kb t s e = (s', e', r)"
  shows "act_ok s s' kb lease t e e'"
proof (cases "el_isLeader e")
  case True
  obtain s1 x where x: "be_CompareAndDelete B (el_key kb e) (el_candidateID e) t s = (s1, x)" by fastforce
  have "s' = s1" "(\<exists>err. x = Inl err \<and> e' = e) \<or> (\<exists>ok. x = Inr ok) \<and> el_scope e' = el_scope e
      \<and> el_candidateID e' = el_candidateID e \<and> \<not> el_isLeader e'"
    using assms True x by (auto simp: election_Resign_def elector_Resign_def el_key_def [symmetric] split: sum.splits)
  then show ?thesis using CAD_own [OF x] CAD_err [of "el_key kb e" "el_candidateID e" t s s1] x by (auto simp: act_ok_def)
qed (use assms in \<open>auto simp: election_Resign_def act_ok_def\<close>)

lemma Transfer_ok:
  assumes "election_Transfer B kb cfg to t s e = (s', e', r)"
  shows "act_ok s s' kb lease t e e'"
proof (cases "el_isLeader e")
  case True
  obtain s1 x where x: "be_CompareAndSwap B (el_key kb e) (el_candidateID e) to (ld_Lease cfg) t s = (s1, x)" by fastforce
  have own: "own_write (view t s) (view t s1) (el_key kb e) (el_candidateID e)" "x \<noteq> Inr True \<Longrightarrow> view t s1 = view t s"
    using CAS_law [of "el_key kb e" "el_candidateID e" to "ld_Lease cfg" t s s1]
      CAS_err [of "el_key kb e" "el_candidateID e" to "ld_Lease cfg" t s s1] x
    by (cases x; auto simp: own_write_def split: option.splits)+
  have "s' = s1" "(x \<noteq> Inr True \<and> e' = e) \<or> x = Inr True \<and> el_scope e' = el_scope e
      \<and> el_candidateID e' = el_candidateID e \<and> \<not> el_isLeader e'"
    using assms True x
    by (auto simp: election_Transfer_def elector_Transfer_def el_key_def [symmetric] split: sum.splits bool.splits)
  then show ?thesis using own by (auto simp: act_ok_def)
qed (use assms in \<open>auto simp: election_Transfer_def act_ok_def\<close>)

lemma shutdown_ok:
  assumes "election_shutdown B kb t s e = (s', e')"
  shows "act_ok s s' kb lease t e e'"
proof (cases "el_isLeader e")
  case True
  obtain s1 x where x: "be_CompareAndDelete B (el_key kb e) (el_candidateID e) t s = (s1, x)" by fastforce
  have "s' = s1" "e' = election_transitionLost ''shutdown'' e"
    using assms True x by (auto simp: election_shutdown_def elector_Resign_def el_key_def [symmetric] split: sum.splits)
  then show ?thesis using CAD_own [OF x] by (simp add: act_ok_def)
qed (use assms in \<open>auto simp: election_shutdown_def act_ok_def\<close>)

lemma act_ok_act:
  assumes "el_act B kb cfg a t s e = (s', e')"
  shows "act_ok s s' kb (ld_Lease cfg) t e e'"
proof (cases a)
  case Tick
  then show ?thesis using assms renewTick_ok [of kb cfg t s e] campaignTick_ok [of kb cfg t s e]
    by (auto simp: election_tick_def split: prod.splits if_splits)
next
  case Query
  obtain s1 x where x: "be_Get B (kb_LeaderKey kb (el_scope e)) t s = (s1, x)" by fastforce
  have "s' = s1" "el_scope e' = el_scope e" "el_candidateID e' = el_candidateID e"
    using assms Query x by (auto simp: election_Leader_def elector_Leader_def split: sum.splits option.splits)
  then show ?thesis using Get_same [OF x] by (simp add: act_ok_def)
qed (use assms Resign_ok [of kb t s e] Transfer_ok [of kb cfg _ t s e] shutdown_ok [of kb t s e] in
      \<open>auto split: prod.splits\<close>)

lemma act_ok_backed:
  assumes "act_ok s s' kb lease t e e'" "el_backed (view t s) kb lease t (e, c)"
  shows "el_backed (view t s') kb lease t (e', el_granted (view t s') kb lease t e c)"
  using assms not_leader_backed granted_backed [OF assms(2), of "view t s'" e'] by (auto simp: act_ok_def)

lemma el_backed_later:
  assumes "el_backed (view t s) kb lease t ec" "t \<le> t'"
  shows "el_backed (view t' s) kb lease t' ec"
proof -
  obtain e c where ec: "ec = (e, c)" by (cases ec)
  have "\<exists>x. view t' s (el_key kb e) = Some (el_candidateID e, x) \<and> (x = 0 \<or> t0 + lease \<le> x)"
    if h: "el_isLeader e" "c = Some t0" "t' < t0 + lease" for t0
  proof -
    obtain x where "view t s (el_key kb e) = Some (el_candidateID e, x)" "x = 0 \<or> t0 + lease \<le> x"
      using assms h by (auto simp: el_backed_def ec)
    then show ?thesis using view_lasts [OF _ assms(2), of s "el_key kb e" "el_candidateID e" x] h(3) by auto
  qed
  then show ?thesis by (auto simp: el_backed_def ec split: option.splits)
qed

definition el_id :: "election \<times> time option \<Rightarrow> string \<times> string" where
  "el_id ec = (el_scope (fst ec), el_candidateID (fst ec))"

lemma election_world_inv:
  "election_world B kb cfg view s0 t s es \<Longrightarrow>
     distinct (map el_id es) \<and> (\<forall>ec\<in>set es. el_backed (view t s) kb (ld_Lease cfg) t ec)"
proof (induction rule: election_world.induct)
  case (ew_init es t)
  then show ?case by (auto simp: el_id_def case_prod_beta' not_leader_backed)
next
  case (ew_wait t s es t')
  then show ?case by (auto intro: el_backed_later)
next
  case (ew_act t s es i e c a s' e')
  let ?ec' = "(e', el_granted (view t s') kb (ld_Lease cfg) t e c)"
  have ok: "act_ok s s' kb (ld_Lease cfg) t e e'" by (rule act_ok_act [OF ew_act.hyps(4)])
  then have id: "el_id ?ec' = el_id (es ! i)" using ew_act.hyps(3) by (simp add: act_ok_def el_id_def)
  then have ids: "map el_id (es[i := ?ec']) = map el_id es"
    using ew_act.hyps(2) list_update_id [of "map el_id es" i] by (simp add: map_update)
  have "el_backed (view t s') kb (ld_Lease cfg) t (es[i := ?ec'] ! j)" if j: "j < length es" for j
  proof (cases "j = i")
    case True
    have "el_backed (view t s) kb (ld_Lease cfg) t (e, c)" using ew_act by (metis nth_mem)
    then show ?thesis using act_ok_backed [OF ok] True j by simp
  next
    case False
    obtain f d where f: "es ! j = (f, d)" by (cases "es ! j")
    have ne: "el_id (es ! j) \<noteq> el_id (es ! i)"
      using False j ew_act.IH ew_act.hyps(2) nth_eq_iff_index_eq [of "map el_id es" j i] by simp
    have "el_backed (view t s') kb (ld_Lease cfg) t (f, d)"
    proof (rule own_write_backed)
      show "own_write (view t s) (view t s') (el_key kb e) (el_candidateID e)" using ok by (simp add: act_ok_def)
      show "el_backed (view t s) kb (ld_Lease cfg) t (f, d)" using ew_act.IH j f by (metis nth_mem)
      show "el_candidateID f \<noteq> el_candidateID e" if "el_key kb f = el_key kb e"
        using ne that by (simp add: el_id_def f ew_act.hyps(3) el_key_def)
    qed
    then show ?thesis using False f by simp
  qed
  then show ?case using ew_act.IH ids by (metis in_set_conv_nth length_list_update)
qed

lemma election_world_exclusive:
  assumes "election_world B kb cfg view s0 t s es" "i < length es" "j < length es"
    and "es ! i = (e, Some c)" "es ! j = (f, Some d)" "el_scope e = el_scope f"
    and "el_isLeader e" "el_isLeader f" "t < c + ld_Lease cfg" "t < d + ld_Lease cfg"
  shows "i = j"
proof -
  note inv = election_world_inv [OF assms(1)]
  have "el_backed (view t s) kb (ld_Lease cfg) t (e, Some c)" "el_backed (view t s) kb (ld_Lease cfg) t (f, Some d)"
    using inv assms(2-5) by (metis nth_mem)+
  then have "el_candidateID e = el_candidateID f" using assms(6-10) by (auto simp: el_backed_def el_key_def)
  then have "map el_id es ! i = map el_id es ! j" using assms(2-6) by (simp add: el_id_def)
  then show ?thesis using inv assms(2,3) nth_eq_iff_index_eq [of "map el_id es" i j] by simp
qed

end


definition ex_leader_config :: leader_config where
  "ex_leader_config = \<lparr>ld_Lease = 10, ld_RenewInterval = 3, ld_RetryInterval = 2\<rparr>"

abbreviation ex_kb :: key_builder where "ex_kb \<equiv> kb_New ''cpip'' ''c''"

definition ex_store :: "string \<Rightarrow> time \<Rightarrow> memory" where
  "ex_store cand x = mem_New\<lparr>mm_kv := [(kb_LeaderKey ex_kb ''s'', \<lparr>en_value = cand, en_expireAt = x\<rparr>)]\<rparr>"

lemmas ex_election_simps = election_tick_def election_campaignTick_def elector_Campaign_def elector_Leader_def
  election_renewTick_def elector_Renew_def election_transitionWon_def election_transitionLost_def
  election_new_def ex_leader_config_def ex_store_def mem_ops_def mem_SetNX_def mem_Get_def mem_live_def mem_put_def
  mem_CompareAndExpire_def mem_refresh_def mem_New_def mem_expiry_def Let_def

text \<open>
  Without the lease bound the belief is not exclusive: a candidate whose loop is late (or whose
  renewals fail with errors, which \<open>renewTick\<close> tolerates) still answers \<open>IsLeader\<close> after its
  successor was elected.
\<close>

lemma ex_two_leaders:
  assumes a: "be_SetNX B (kb_LeaderKey ex_kb ''s'') ''a'' 10 100 s0 = (sa, Inr True)"
    and b: "be_SetNX B (kb_LeaderKey ex_kb ''s'') ''b'' 10 111 sa = (sb, Inr True)"
    and v: "view 100 sa (kb_LeaderKey ex_kb ''s'') = Some (''a'', 110)" "view 111 sb (kb_LeaderKey ex_kb ''s'') = Some (''b'', 121)"
  shows "\<exists>ea eb. election_world B ex_kb ex_leader_config view s0 111 sb [(ea, Some 100), (eb, Some 111)]
     \<and> el_isLeader ea \<and> el_isLeader eb \<and> el_scope ea = el_scope eb"
proof -
  let ?a = "election_new ''s'' ''a''" and ?b = "election_new ''s'' ''b''"
  let ?W = "election_world B ex_kb ex_leader_config view s0"
  have "?W 100 s0 [(?a, None), (?b, None)]" by (rule ew_init) (auto simp: election_new_def)
  then have "?W 100 sa [(election_transitionWon ?a, Some 100), (?b, None)]"
    using ew_act [of B ex_kb ex_leader_config view s0 100 s0 "[(?a, None), (?b, None)]" 0 ?a None Tick sa "election_transitionWon ?a"]
      a v(1) by (simp add: ex_election_simps el_granted_def el_key_def)
  then have w: "?W 111 sa [(election_transitionWon ?a, Some 100), (?b, None)]" by (rule ew_wait) simp
  have "?W 111 sb [(election_transitionWon ?a, Some 100), (election_transitionWon ?b, Some 111)]"
    using ew_act [OF w, of 1 ?b None Tick sb "election_transitionWon ?b"] b v(2)
    by (simp add: ex_election_simps el_granted_def el_key_def)
  moreover have "el_scope (election_transitionWon ?a) = el_scope (election_transitionWon ?b)" by (simp add: election_new_def)
  ultimately show ?thesis using transition_simps(3) by blast
qed

definition ex_redis_leader :: "string \<Rightarrow> time \<Rightarrow> redis_emulator" where
  "ex_redis_leader cand x = re_New\<lparr>re_data := [(kb_LeaderKey ex_kb ''s'', KV (KStr cand) x)]\<rparr>"

lemma ex_mem_leaders:
  "\<exists>ea eb. election_world mem_ops ex_kb ex_leader_config mem_view mem_New 111 (ex_store ''b'' 121) [(ea, Some 100), (eb, Some 111)]
     \<and> el_isLeader ea \<and> el_isLeader eb \<and> el_scope ea = el_scope eb"
  by (rule ex_two_leaders [of _ _ "ex_store ''a'' 110"])
    (simp_all add: mem_ops_def mem_SetNX_def mem_live_def mem_put_def mem_expiry_def mem_view_def view_at_def ex_store_def mem_New_def)

lemma ex_redis_leaders:
  "\<exists>ea eb. election_world redis_ops ex_kb ex_leader_config re_view re_New 111 (ex_redis_leader ''b'' 121) [(ea, Some 100), (eb, Some 111)]
     \<and> el_isLeader ea \<and> el_isLeader eb \<and> el_scope ea = el_scope eb"
  by (rule ex_two_leaders [of _ _ "ex_redis_leader ''a'' 110"])
    (simp_all add: redis_ops_def redis_pass_def re_SetNX_def re_live_def mem_expiry_def re_view_def re_look_def kv_live_def
      ex_redis_leader_def re_New_def)




end
