(* ===== verification/Rel_CircuitBreaker.thy ===== *)
theory Rel_CircuitBreaker
  imports CPIP_Prelude Complex_Main
begin

text \<open>
  The circuit breaker (\<open>reliability/circuitbreaker\<close>). Every method holds the breaker's mutex, so
  a method is one step; a call returns a \<open>done\<close> function that reports the outcome later, in a
  step of its own (\<open>cb_done\<close>), possibly after the breaker changed state. The readings of the
  clock inside one step are one instant. The quotient of \<open>float64\<close>s that is compared with the
  threshold is the exact quotient here.
\<close>

section \<open>Model\<close>

datatype cb_state = CBClosed | CBHalfOpen | CBOpen | CBOther int

fun cb_state_String :: "cb_state \<Rightarrow> string" where
  "cb_state_String CBClosed = ''CLOSED''"
| "cb_state_String CBHalfOpen = ''HALF-OPEN''"
| "cb_state_String CBOpen = ''OPEN''"
| "cb_state_String (CBOther _) = ''UNKNOWN''"

record cb_config =
  FailureThreshold :: rat
  CBRecoveryTimeout :: duration
  SuccessThreshold :: int
  FailureWindow :: duration
  MinRequests :: int

record request_record =
  rr_timestamp :: time
  rr_success :: bool

datatype cb_event = CircuitOpened cb_state | CircuitClosed | CircuitHalfOpened

record circuit_breaker =
  cb_cfg :: cb_config
  cb_st :: cb_state
  cb_records :: "request_record list"
  cb_openedAt :: time
  cb_halfOpenSuccesses :: int
  cb_bus :: "cb_event list"

definition cb_New :: "cb_config \<Rightarrow> circuit_breaker" where
  "cb_New cfg =
    (let cfg = (if SuccessThreshold cfg \<le> 0 then cfg\<lparr>SuccessThreshold := 1\<rparr> else cfg);
         cfg = (if FailureWindow cfg \<le> 0 then cfg\<lparr>FailureWindow := 10 * Second\<rparr> else cfg)
     in \<lparr>cb_cfg = cfg, cb_st = CBClosed, cb_records = [], cb_openedAt = 0, cb_halfOpenSuccesses = 0, cb_bus = []\<rparr>)"

definition cb_transitionTo :: "cb_state \<Rightarrow> time \<Rightarrow> circuit_breaker \<Rightarrow> circuit_breaker" where
  "cb_transitionTo s now cb =
    (let old = cb_st cb; cb = cb\<lparr>cb_st := s\<rparr>
     in case s of
          CBOpen \<Rightarrow> cb\<lparr>cb_openedAt := now, cb_records := [], cb_bus := cb_bus cb @ [CircuitOpened old]\<rparr>
        | CBClosed \<Rightarrow> cb\<lparr>cb_halfOpenSuccesses := 0, cb_records := [], cb_bus := cb_bus cb @ [CircuitClosed]\<rparr>
        | CBHalfOpen \<Rightarrow> cb\<lparr>cb_halfOpenSuccesses := 0, cb_bus := cb_bus cb @ [CircuitHalfOpened]\<rparr>
        | CBOther _ \<Rightarrow> cb)"

definition cb_evaluate :: "time \<Rightarrow> circuit_breaker \<Rightarrow> circuit_breaker" where
  "cb_evaluate now cb =
    (if cb_st cb = CBOpen \<and> now - cb_openedAt cb \<ge> CBRecoveryTimeout (cb_cfg cb)
     then cb_transitionTo CBHalfOpen now cb else cb)"

definition cb_State :: "time \<Rightarrow> circuit_breaker \<Rightarrow> circuit_breaker \<times> cb_state" where
  "cb_State now cb = (let cb = cb_evaluate now cb in (cb, cb_st cb))"

text \<open>\<open>Allow\<close>: \<^const>\<open>False\<close> is \<open>ErrCircuitOpen\<close>, \<^const>\<open>True\<close> hands out a \<open>done\<close> function.\<close>

definition cb_Allow :: "time \<Rightarrow> circuit_breaker \<Rightarrow> circuit_breaker \<times> bool" where
  "cb_Allow now cb = (let cb = cb_evaluate now cb in (cb, cb_st cb \<noteq> CBOpen))"

definition cb_Reset :: "time \<Rightarrow> circuit_breaker \<Rightarrow> circuit_breaker" where
  "cb_Reset now cb = cb_transitionTo CBClosed now cb"

text \<open>The index of the first record after the cutoff, 0 when there is none.\<close>

fun first_after :: "time \<Rightarrow> nat \<Rightarrow> request_record list \<Rightarrow> nat" where
  "first_after cutoff i [] = 0"
| "first_after cutoff i (r # rs) = (if rr_timestamp r > cutoff then i else first_after cutoff (Suc i) rs)"

definition cb_prune :: "time \<Rightarrow> circuit_breaker \<Rightarrow> circuit_breaker" where
  "cb_prune now cb =
    (let cutoff = now - FailureWindow (cb_cfg cb); wIdx = first_after cutoff 0 (cb_records cb)
     in if wIdx > 0 then cb\<lparr>cb_records := drop wIdx (cb_records cb)\<rparr> else cb)"

definition count_failures :: "request_record list \<Rightarrow> nat" where
  "count_failures rs = length (filter (\<lambda>r. \<not> rr_success r) rs)"

definition cb_done :: "bool \<Rightarrow> time \<Rightarrow> circuit_breaker \<Rightarrow> circuit_breaker" where
  "cb_done success now cb =
    (if cb_st cb = CBHalfOpen then
       (if success then
          let cb = cb\<lparr>cb_halfOpenSuccesses := cb_halfOpenSuccesses cb + 1\<rparr>
          in if cb_halfOpenSuccesses cb \<ge> SuccessThreshold (cb_cfg cb) then cb_transitionTo CBClosed now cb else cb
        else cb_transitionTo CBOpen now cb)
     else
       let cb = cb\<lparr>cb_records := cb_records cb @ [\<lparr>rr_timestamp = now, rr_success = success\<rparr>]\<rparr>;
           cb = cb_prune now cb
       in if int (length (cb_records cb)) \<ge> MinRequests (cb_cfg cb)
             \<and> of_nat (count_failures (cb_records cb)) / of_nat (length (cb_records cb)) \<ge> FailureThreshold (cb_cfg cb)
          then cb_transitionTo CBOpen now cb else cb)"

section \<open>Invariant\<close>

text \<open>
  The clock of the calls does not run backwards (\<open>now\<close> bounds every timestamp), the window is
  positive, and the success count stays below its threshold in the half-open state.
\<close>

definition cb_ok :: "time \<Rightarrow> circuit_breaker \<Rightarrow> bool" where
  "cb_ok now cb \<longleftrightarrow> 0 < FailureWindow (cb_cfg cb) \<and> 0 < SuccessThreshold (cb_cfg cb)
     \<and> sorted (map rr_timestamp (cb_records cb)) \<and> (\<forall>r\<in>set (cb_records cb). rr_timestamp r \<le> now)
     \<and> (cb_st cb = CBHalfOpen \<longrightarrow> 0 \<le> cb_halfOpenSuccesses cb \<and> cb_halfOpenSuccesses cb < SuccessThreshold (cb_cfg cb))
     \<and> (cb_st cb \<in> {CBClosed, CBHalfOpen, CBOpen}) \<and> (cb_st cb = CBOpen \<longrightarrow> cb_openedAt cb \<le> now)"

definition in_window :: "time \<Rightarrow> circuit_breaker \<Rightarrow> request_record \<Rightarrow> bool" where
  "in_window now cb r \<longleftrightarrow> rr_timestamp r > now - FailureWindow (cb_cfg cb)"

lemma first_after_drop:
  assumes "sorted (map rr_timestamp rs)" "\<exists>r\<in>set rs. rr_timestamp r > c"
  shows "\<exists>j. first_after c i rs = i + j \<and> drop j rs = filter (\<lambda>r. rr_timestamp r > c) rs"
  using assms
proof (induction rs arbitrary: i)
  case (Cons r rs)
  show ?case
  proof (cases "rr_timestamp r > c")
    case True
    then have "filter (\<lambda>r. rr_timestamp r > c) rs = rs" using Cons.prems(1) by (auto simp: filter_id_conv)
    then show ?thesis using True by (intro exI [of _ 0]) simp
  next
    case False
    then obtain j where "first_after c (Suc i) rs = Suc i + j" "drop j rs = filter (\<lambda>r. rr_timestamp r > c) rs"
      using Cons.IH [of "Suc i"] Cons.prems by auto
    then show ?thesis using False by (intro exI [of _ "Suc j"]) simp
  qed
qed simp

lemma cb_prune_filter:
  assumes "sorted (map rr_timestamp (cb_records cb))" "\<exists>r\<in>set (cb_records cb). in_window now cb r"
  shows "cb_prune now cb = cb\<lparr>cb_records := filter (in_window now cb) (cb_records cb)\<rparr>"
proof -
  obtain j where "first_after (now - FailureWindow (cb_cfg cb)) 0 (cb_records cb) = j"
    "drop j (cb_records cb) = filter (in_window now cb) (cb_records cb)"
    using first_after_drop [OF assms(1), of "now - FailureWindow (cb_cfg cb)" 0] assms(2)
    unfolding in_window_def [abs_def] by auto
  then show ?thesis by (auto simp: cb_prune_def Let_def)
qed

lemma cb_transitionTo_simps [simp]:
  "cb_cfg (cb_transitionTo s now cb) = cb_cfg cb" "cb_st (cb_transitionTo s now cb) = s"
  "cb_records (cb_transitionTo CBOpen now cb) = []" "cb_openedAt (cb_transitionTo CBOpen now cb) = now"
  "cb_records (cb_transitionTo CBClosed now cb) = []" "cb_halfOpenSuccesses (cb_transitionTo CBClosed now cb) = 0"
  "cb_records (cb_transitionTo CBHalfOpen now cb) = cb_records cb" "cb_halfOpenSuccesses (cb_transitionTo CBHalfOpen now cb) = 0"
  by (cases s; simp add: cb_transitionTo_def Let_def)+

lemma cb_ok_later: "cb_ok t cb \<Longrightarrow> t \<le> t' \<Longrightarrow> cb_ok t' cb"
  by (auto simp: cb_ok_def)

lemma cb_ok_transition:
  assumes "cb_ok now cb" "s \<in> {CBClosed, CBHalfOpen, CBOpen}"
  shows "cb_ok now (cb_transitionTo s now cb)"
  using assms by (elim insertE) (auto simp: cb_ok_def)

lemma cb_ok_evaluate: "cb_ok now cb \<Longrightarrow> cb_ok now (cb_evaluate now cb)"
  by (simp add: cb_evaluate_def cb_ok_transition)

text \<open>The record of an outcome: the sliding window of the breaker after it.\<close>

definition cb_window :: "bool \<Rightarrow> time \<Rightarrow> circuit_breaker \<Rightarrow> request_record list" where
  "cb_window success now cb = filter (in_window now cb) (cb_records cb @ [\<lparr>rr_timestamp = now, rr_success = success\<rparr>])"

definition cb_trips :: "cb_config \<Rightarrow> request_record list \<Rightarrow> bool" where
  "cb_trips cfg w \<longleftrightarrow> MinRequests cfg \<le> int (length w) \<and> FailureThreshold cfg \<le> of_nat (count_failures w) / of_nat (length w)"

lemma cb_done_not_half_open:
  assumes ok: "cb_ok now cb" and st: "cb_st cb \<noteq> CBHalfOpen"
  shows "cb_done success now cb =
    (let w = cb_window success now cb; cb' = cb\<lparr>cb_records := w\<rparr>
     in if cb_trips (cb_cfg cb) w then cb_transitionTo CBOpen now cb' else cb')"
proof -
  let ?r = "\<lparr>rr_timestamp = now, rr_success = success\<rparr>"
  let ?cb = "cb\<lparr>cb_records := cb_records cb @ [?r]\<rparr>"
  have in_w: "in_window now ?cb = in_window now cb" by (simp add: in_window_def [abs_def])
  have "sorted (map rr_timestamp (cb_records ?cb))" using ok by (auto simp: cb_ok_def sorted_append)
  moreover have "in_window now cb ?r" using ok by (simp add: in_window_def cb_ok_def)
  ultimately have "cb_prune now ?cb = cb\<lparr>cb_records := cb_window success now cb\<rparr>"
    using cb_prune_filter [of ?cb now] by (simp add: in_w cb_window_def)
  then show ?thesis using st by (simp add: cb_done_def cb_trips_def Let_def)
qed

lemma cb_ok_done: "cb_ok now cb \<Longrightarrow> cb_ok now (cb_done success now cb)"
proof (cases "cb_st cb = CBHalfOpen")
  case True
  assume "cb_ok now cb"
  with True show ?thesis
    using cb_ok_transition [of now "cb\<lparr>cb_halfOpenSuccesses := cb_halfOpenSuccesses cb + 1\<rparr>" CBClosed]
      cb_ok_transition [of now cb CBOpen]
    by (auto simp: cb_done_def Let_def cb_ok_def)
next
  case False
  assume ok: "cb_ok now cb"
  then have w: "cb_ok now (cb\<lparr>cb_records := cb_window success now cb\<rparr>)"
    using False by (auto simp: cb_ok_def cb_window_def sorted_append sorted_filter)
  show ?thesis
    unfolding cb_done_not_half_open [OF ok False] Let_def using w cb_ok_transition [OF w, of CBOpen] by simp
qed

section \<open>Reachable breakers\<close>

inductive cb_reachable :: "cb_config \<Rightarrow> time \<Rightarrow> circuit_breaker \<Rightarrow> bool" for cfg where
  cb_new: "cb_reachable cfg t (cb_New cfg)"
| cb_wait: "cb_reachable cfg t cb \<Longrightarrow> t \<le> t' \<Longrightarrow> cb_reachable cfg t' cb"
| cb_allow: "cb_reachable cfg t cb \<Longrightarrow> cb_reachable cfg t (fst (cb_Allow t cb))"
| cb_query: "cb_reachable cfg t cb \<Longrightarrow> cb_reachable cfg t (fst (cb_State t cb))"
| cb_report: "cb_reachable cfg t cb \<Longrightarrow> cb_reachable cfg t (cb_done success t cb)"
| cb_reset: "cb_reachable cfg t cb \<Longrightarrow> cb_reachable cfg t (cb_Reset t cb)"

lemma cb_reachable_ok: "cb_reachable cfg t cb \<Longrightarrow> cb_ok t cb"
proof (induction rule: cb_reachable.induct)
  case (cb_new t)
  then show ?case by (simp add: cb_New_def cb_ok_def Let_def)
qed (auto simp: cb_Allow_def cb_State_def cb_Reset_def Let_def
      intro: cb_ok_later cb_ok_evaluate cb_ok_done cb_ok_transition)

text \<open>
  C20. The trip decision of a reachable breaker that is not half-open: reporting an outcome at
  \<open>now\<close> opens the circuit exactly when the outcomes of the last \<open>FailureWindow\<close>, this one
  included, are at least \<open>MinRequests\<close> and the failed share reaches the threshold; otherwise the
  state stays and precisely those outcomes are kept.
\<close>

theorem breaker_trips_exactly:
  assumes "cb_reachable cfg t cb" "t \<le> now" "cb_st cb \<noteq> CBHalfOpen"
  shows "let w = filter (\<lambda>r. rr_timestamp r > now - FailureWindow (cb_cfg cb))
                   (cb_records cb @ [\<lparr>rr_timestamp = now, rr_success = success\<rparr>]);
             trips = (MinRequests (cb_cfg cb) \<le> int (length w)
               \<and> FailureThreshold (cb_cfg cb) \<le> of_nat (length (filter (\<lambda>r. \<not> rr_success r) w)) / of_nat (length w));
             cb' = cb_done success now cb
         in if trips then cb_st cb' = CBOpen \<and> cb_openedAt cb' = now \<and> cb_records cb' = []
            else cb_st cb' = cb_st cb \<and> cb_records cb' = w"
  using cb_done_not_half_open [OF cb_ok_later [OF cb_reachable_ok [OF assms(1)] assms(2)] assms(3), of success]
  by (simp add: Let_def cb_trips_def cb_window_def in_window_def [abs_def] count_failures_def)

definition ex_cb_config :: cb_config where
  "ex_cb_config = \<lparr>FailureThreshold = 1/2, CBRecoveryTimeout = 50, SuccessThreshold = 2, FailureWindow = 100, MinRequests = 2\<rparr>"

definition ex_cb :: circuit_breaker where
  "ex_cb = cb_done True 10 (cb_New ex_cb_config)"

lemma ex_cb_eval: "ex_cb = (cb_New ex_cb_config)\<lparr>cb_records := [\<lparr>rr_timestamp = 10, rr_success = True\<rparr>]\<rparr>"
  by (simp add: ex_cb_def cb_New_def ex_cb_config_def cb_done_def cb_prune_def count_failures_def Let_def)

theorem breaker_trips_exactly_witness:
  "cb_reachable ex_cb_config 10 ex_cb \<and> cb_st (cb_done False 20 ex_cb) = CBOpen \<and> cb_st (cb_done True 20 ex_cb) = CBClosed"
proof -
  have reach: "cb_reachable ex_cb_config 10 ex_cb" unfolding ex_cb_def by (intro cb_report cb_new)
  have st: "cb_st ex_cb \<noteq> CBHalfOpen" by (simp add: ex_cb_eval cb_New_def Let_def)
  show ?thesis
    using breaker_trips_exactly [OF reach _ st, of 20 False] breaker_trips_exactly [OF reach _ st, of 20 True] reach
    by (simp add: ex_cb_eval cb_New_def ex_cb_config_def Let_def)
qed

section \<open>Opening and recovering\<close>

lemma half_open_successes:
  assumes "cb_st cb = CBHalfOpen" "cb_halfOpenSuccesses cb + int (length ts) < SuccessThreshold (cb_cfg cb)"
  shows "fold (cb_done True) ts cb = cb\<lparr>cb_halfOpenSuccesses := cb_halfOpenSuccesses cb + int (length ts)\<rparr>"
  using assms
proof (induction ts arbitrary: cb)
  case (Cons t ts)
  have "cb_done True t cb = cb\<lparr>cb_halfOpenSuccesses := cb_halfOpenSuccesses cb + 1\<rparr>"
    using Cons.prems by (simp add: cb_done_def Let_def)
  with Cons show ?case by simp
qed simp

text \<open>
  C21. An open breaker blocks every call until its recovery timeout has passed, without changing;
  the first call after it is admitted and makes the breaker half-open. Then fewer than
  \<open>SuccessThreshold\<close> successes leave it half-open, the last of exactly that many closes it with
  an empty window, and a failure before that opens it again for a full recovery timeout.
\<close>

theorem breaker_recovery_protocol:
  assumes "cb_reachable cfg t cb" "cb_st cb = CBOpen" "t \<le> now"
  shows "let due = (cb_openedAt cb + CBRecoveryTimeout (cb_cfg cb) \<le> now); half = fst (cb_Allow now cb);
             N = SuccessThreshold (cb_cfg cb) in
       (snd (cb_Allow now cb) \<longleftrightarrow> due) \<and> (\<not> due \<longrightarrow> half = cb)
     \<and> (due \<longrightarrow> cb_st half = CBHalfOpen
         \<and> (\<forall>ts u. int (length ts) + 1 < N \<longrightarrow> cb_st (fold (cb_done True) (ts @ [u]) half) = CBHalfOpen)
         \<and> (\<forall>ts u. int (length ts) + 1 = N \<longrightarrow> cb_st (fold (cb_done True) (ts @ [u]) half) = CBClosed
               \<and> cb_records (fold (cb_done True) (ts @ [u]) half) = [])
         \<and> (\<forall>ts u v. int (length ts) < N \<longrightarrow> cb_st (cb_done False u (fold (cb_done True) ts half)) = CBOpen
               \<and> (snd (cb_Allow v (cb_done False u (fold (cb_done True) ts half)))
                   \<longleftrightarrow> u + CBRecoveryTimeout (cb_cfg cb) \<le> v)))"
proof -
  let ?half = "cb_transitionTo CBHalfOpen now cb" and ?N = "SuccessThreshold (cb_cfg cb)"
  have allow: "cb_Allow now cb = (if cb_openedAt cb + CBRecoveryTimeout (cb_cfg cb) \<le> now then (?half, True) else (cb, False))"
    using assms(2) by (auto simp: cb_Allow_def cb_evaluate_def Let_def)
  have stay: "fold (cb_done True) ts ?half = ?half\<lparr>cb_halfOpenSuccesses := int (length ts)\<rparr>" if "int (length ts) < ?N" for ts
    using half_open_successes [of ?half ts] that by simp
  have closes: "cb_done True u (?half\<lparr>cb_halfOpenSuccesses := k\<rparr>) =
      (if k + 1 \<ge> ?N then cb_transitionTo CBClosed u (?half\<lparr>cb_halfOpenSuccesses := k + 1\<rparr>)
       else ?half\<lparr>cb_halfOpenSuccesses := k + 1\<rparr>)" for u k
    by (simp add: cb_done_def Let_def)
  have opens: "cb_done False u (?half\<lparr>cb_halfOpenSuccesses := k\<rparr>) = cb_transitionTo CBOpen u (?half\<lparr>cb_halfOpenSuccesses := k\<rparr>)" for u k
    by (simp add: cb_done_def)
  have again: "snd (cb_Allow v (cb_transitionTo CBOpen u x)) \<longleftrightarrow> u + CBRecoveryTimeout (cb_cfg x) \<le> v" for u v x
    by (auto simp: cb_Allow_def cb_evaluate_def Let_def)
  show ?thesis by (simp add: allow Let_def stay closes opens again)
qed

definition ex_cb_open :: circuit_breaker where
  "ex_cb_open = cb_done False 20 ex_cb"

theorem breaker_recovery_protocol_witness:
  "cb_reachable ex_cb_config 20 ex_cb_open \<and> cb_st ex_cb_open = CBOpen \<and> \<not> snd (cb_Allow 69 ex_cb_open)
   \<and> snd (cb_Allow 70 ex_cb_open) \<and> cb_st (fold (cb_done True) [71, 72] (fst (cb_Allow 70 ex_cb_open))) = CBClosed"
proof -
  have "cb_reachable ex_cb_config 10 ex_cb" unfolding ex_cb_def by (intro cb_report cb_new)
  then have reach: "cb_reachable ex_cb_config 20 ex_cb_open"
    unfolding ex_cb_open_def by (rule cb_report [OF cb_wait]) simp
  have o: "cb_st ex_cb_open = CBOpen" "cb_openedAt ex_cb_open = 20" "cb_cfg ex_cb_open = ex_cb_config"
    by (simp_all add: ex_cb_open_def ex_cb_eval cb_New_def ex_cb_config_def cb_done_def cb_prune_def count_failures_def Let_def)
  from breaker_recovery_protocol [OF reach o(1), of 69]
  have "\<not> snd (cb_Allow 69 ex_cb_open)" by (simp add: o ex_cb_config_def Let_def)
  moreover from breaker_recovery_protocol [OF reach o(1), of 70]
  have R: "snd (cb_Allow 70 ex_cb_open) \<and> (\<forall>ts u. int (length ts) + 1 = 2 \<longrightarrow>
      cb_st (fold (cb_done True) (ts @ [u]) (fst (cb_Allow 70 ex_cb_open))) = CBClosed)"
    by (simp add: o ex_cb_config_def Let_def)
  ultimately show ?thesis
    using reach o(1) R [THEN conjunct2, rule_format, of "[71]" 72] by simp
qed

text \<open>
  A call admitted before the breaker opened may report while it is open. Such a late report is
  recorded like one of the closed state and can open the breaker once more, which restarts the
  recovery timeout.
\<close>

lemma breaker_late_report_extends:
  "cb_openedAt (cb_done False 60 (cb_done False 55 ex_cb_open)) = 60"
  by (simp add: ex_cb_open_def ex_cb_eval cb_New_def ex_cb_config_def cb_done_def cb_prune_def count_failures_def
      cb_transitionTo_def Let_def)

end
