(* ===== verification/Rel_RateLimit.thy ===== *)
theory Rel_RateLimit
  imports CPIP_Prelude Complex_Main
begin

text \<open>
  The rate limiters (\<open>reliability/ratelimit\<close>): token bucket, leaky bucket and sliding window.
  Every \<open>Allow\<close> holds the limiter's mutex, so it is one step at one instant; \<open>Wait\<close> is a loop
  over the instants of its attempts. The \<open>float64\<close> counters are exact rationals here.

  Both buckets satisfy one contract (locale \<open>bucket\<close>), from which the admission bound is proved
  once.
\<close>

section \<open>Model\<close>

definition secs :: "duration \<Rightarrow> rat" where
  "secs d = of_int d / of_int Second"

record token_bucket =
  tb_rate :: rat
  tb_capacity :: rat
  tb_tokens :: rat
  tb_lastRefill :: time

definition tb_New :: "rat \<Rightarrow> int \<Rightarrow> time \<Rightarrow> token_bucket" where
  "tb_New rate burst now = \<lparr>tb_rate = rate, tb_capacity = of_int burst, tb_tokens = of_int burst, tb_lastRefill = now\<rparr>"

definition tb_Allow :: "time \<Rightarrow> token_bucket \<Rightarrow> token_bucket \<times> bool" where
  "tb_Allow now tb =
    (let elapsed = secs (now - tb_lastRefill tb);
         tb = tb\<lparr>tb_lastRefill := now, tb_tokens := tb_tokens tb + elapsed * tb_rate tb\<rparr>;
         tb = (if tb_tokens tb > tb_capacity tb then tb\<lparr>tb_tokens := tb_capacity tb\<rparr> else tb)
     in if tb_tokens tb \<ge> 1 then (tb\<lparr>tb_tokens := tb_tokens tb - 1\<rparr>, True) else (tb, False))"

record leaky_bucket =
  lb_capacity :: rat
  lb_rate :: rat
  lb_water :: rat
  lb_lastLeak :: time

definition lb_New :: "rat \<Rightarrow> int \<Rightarrow> time \<Rightarrow> leaky_bucket" where
  "lb_New rate capacity now = \<lparr>lb_capacity = of_int capacity, lb_rate = rate, lb_water = 0, lb_lastLeak = now\<rparr>"

definition lb_Allow :: "time \<Rightarrow> leaky_bucket \<Rightarrow> leaky_bucket \<times> bool" where
  "lb_Allow now lb =
    (let elapsed = secs (now - lb_lastLeak lb);
         lb = lb\<lparr>lb_lastLeak := now, lb_water := lb_water lb - elapsed * lb_rate lb\<rparr>;
         lb = (if lb_water lb < 0 then lb\<lparr>lb_water := 0\<rparr> else lb)
     in if lb_water lb + 1 \<le> lb_capacity lb then (lb\<lparr>lb_water := lb_water lb + 1\<rparr>, True) else (lb, False))"

record sliding_window =
  sw_windowSize :: duration
  sw_maxRequests :: int
  sw_timestamps :: "time list"

definition sw_New :: "duration \<Rightarrow> int \<Rightarrow> sliding_window" where
  "sw_New w n = \<lparr>sw_windowSize = w, sw_maxRequests = n, sw_timestamps = []\<rparr>"

fun sw_first_after :: "time \<Rightarrow> nat \<Rightarrow> time list \<Rightarrow> nat" where
  "sw_first_after cutoff i [] = 0"
| "sw_first_after cutoff i (t # ts) = (if t > cutoff then i else sw_first_after cutoff (Suc i) ts)"

definition sw_Allow :: "time \<Rightarrow> sliding_window \<Rightarrow> sliding_window \<times> bool" where
  "sw_Allow now sw =
    (let cutoff = now - sw_windowSize sw;
         wIdx = sw_first_after cutoff 0 (sw_timestamps sw);
         sw = (if sw_timestamps sw \<noteq> [] \<and> last (sw_timestamps sw) < cutoff then sw\<lparr>sw_timestamps := []\<rparr>
               else if wIdx > 0 then sw\<lparr>sw_timestamps := drop wIdx (sw_timestamps sw)\<rparr> else sw)
     in if int (length (sw_timestamps sw)) < sw_maxRequests sw
        then (sw\<lparr>sw_timestamps := sw_timestamps sw @ [now]\<rparr>, True) else (sw, False))"

text \<open>
  \<open>Wait\<close>: attempts at the listed instants; \<^const>\<open>None\<close> while it is still waiting, \<open>Some False\<close>
  when the context ended. The \<open>bool\<close> of an attempt tells whether the \<open>select\<close> after it takes
  \<open>ctx.Done()\<close>.
\<close>

fun limiter_Wait :: "(time \<Rightarrow> 's \<Rightarrow> 's \<times> bool) \<Rightarrow> (time \<times> bool) list \<Rightarrow> 's \<Rightarrow> 's \<times> bool option" where
  "limiter_Wait allow [] s = (s, None)"
| "limiter_Wait allow ((now, done) # rest) s =
    (case allow now s of
       (s, True) \<Rightarrow> (s, Some True)
     | (s, False) \<Rightarrow> if done then (s, Some False) else limiter_Wait allow rest s)"

datatype rl_type = RLTokenBucket | RLLeakyBucket | RLSlidingWindow | RLOther string

datatype limiter = LToken token_bucket | LLeaky leaky_bucket | LWindow sliding_window

definition limiter_Factory :: "rl_type \<Rightarrow> rat \<Rightarrow> int \<Rightarrow> duration \<Rightarrow> time \<Rightarrow> limiter" where
  "limiter_Factory ty rate burst interval now =
    (if ty = RLLeakyBucket then LLeaky (lb_New rate burst now)
     else if ty = RLSlidingWindow then LWindow (sw_New interval burst)
     else LToken (tb_New rate burst now))"

text \<open>The decisions on a sequence of calls.\<close>

fun allow_run :: "(time \<Rightarrow> 's \<Rightarrow> 's \<times> bool) \<Rightarrow> time list \<Rightarrow> 's \<Rightarrow> bool list" where
  "allow_run allow [] s = []"
| "allow_run allow (t # ts) s = (case allow t s of (s', b) \<Rightarrow> b # allow_run allow ts s')"

definition granted :: "bool list \<Rightarrow> nat" where
  "granted bs = length (filter id bs)"

section \<open>The bucket contract\<close>

text \<open>
  A bucket has a number of available permits. A call first adds what the elapsed time yields, up
  to the capacity, and then takes one permit exactly when a whole one is available.
\<close>

locale bucket =
  fixes allow :: "time \<Rightarrow> 's \<Rightarrow> 's \<times> bool" and avail :: "'s \<Rightarrow> rat" and cap :: "'s \<Rightarrow> rat"
    and rate :: "'s \<Rightarrow> rat" and clock :: "'s \<Rightarrow> time"
  assumes allow_law: "allow t s = (s', b) \<Longrightarrow>
      (let x = min (cap s) (avail s + secs (t - clock s) * rate s)
       in b = (1 \<le> x) \<and> avail s' = (if b then x - 1 else x))
      \<and> cap s' = cap s \<and> rate s' = rate s \<and> clock s' = t"
begin

lemma run_bound:
  assumes "0 \<le> rate s" "0 \<le> cap s" "0 \<le> avail s" "sorted (clock s # ts)"
  shows "of_nat (granted (allow_run allow ts s)) \<le> avail s + secs (last (clock s # ts) - clock s) * rate s"
  using assms
proof (induction ts arbitrary: s)
  case Nil
  then show ?case by (simp add: granted_def secs_def)
next
  case (Cons t ts)
  obtain s' b where a: "allow t s = (s', b)" by (cases "allow t s")
  define x where "x = min (cap s) (avail s + secs (t - clock s) * rate s)"
  have L: "b = (1 \<le> x)" "avail s' = (if b then x - 1 else x)" "cap s' = cap s" "rate s' = rate s" "clock s' = t"
    using allow_law [OF a] by (simp_all add: x_def Let_def)
  have t: "clock s \<le> t" using Cons.prems(4) by simp
  have x: "0 \<le> x" "x \<le> avail s + secs (t - clock s) * rate s"
    using Cons.prems t by (auto simp: x_def secs_def)
  have "of_nat (granted (allow_run allow ts s')) \<le> avail s' + secs (last (t # ts) - t) * rate s"
    using Cons.IH [of s'] Cons.prems L x by auto
  moreover have "secs (last (t # ts) - t) + secs (t - clock s) = secs (last (t # ts) - clock s)"
    by (simp add: secs_def add_divide_distrib [symmetric])
  then have "secs (last (t # ts) - clock s) * rate s = secs (last (t # ts) - t) * rate s + secs (t - clock s) * rate s"
    by (simp add: distrib_right [symmetric])
  moreover have "granted (allow_run allow (t # ts) s) = (if b then 1 else 0) + granted (allow_run allow ts s')"
    by (simp add: granted_def a)
  ultimately show ?case using x L(1,2) by (auto split: if_splits)
qed

text \<open>Within any stretch of calls: at most the capacity plus what the elapsed time yields.\<close>

lemma stretch_bound:
  assumes "0 \<le> rate s" "0 \<le> cap s" "0 \<le> avail s" "sorted (clock s # t # ts)"
  shows "of_nat (granted (allow_run allow (t # ts) s)) \<le> cap s + secs (last (t # ts) - t) * rate s"
proof -
  obtain s' b where a: "allow t s = (s', b)" by (cases "allow t s")
  define x where "x = min (cap s) (avail s + secs (t - clock s) * rate s)"
  have L: "b = (1 \<le> x)" "avail s' = (if b then x - 1 else x)" "cap s' = cap s" "rate s' = rate s" "clock s' = t"
    using allow_law [OF a] by (simp_all add: x_def Let_def)
  have x: "0 \<le> x" "x \<le> cap s" using assms by (auto simp: x_def secs_def)
  have "of_nat (granted (allow_run allow ts s')) \<le> avail s' + secs (last (t # ts) - t) * rate s"
    using run_bound [of s' ts] assms L x by auto
  moreover have "granted (allow_run allow (t # ts) s) = (if b then 1 else 0) + granted (allow_run allow ts s')"
    by (simp add: granted_def a)
  ultimately show ?thesis using x L(1,2) by (auto split: if_splits)
qed

end

interpretation tb: bucket tb_Allow tb_tokens tb_capacity tb_rate tb_lastRefill
  by unfold_locales (auto simp: tb_Allow_def Let_def split: if_splits)

definition lb_room :: "leaky_bucket \<Rightarrow> rat" where
  "lb_room lb = lb_capacity lb - lb_water lb"

interpretation lb: bucket lb_Allow lb_room lb_capacity lb_rate lb_lastLeak
  by unfold_locales (auto simp: lb_Allow_def lb_room_def Let_def split: if_splits)

section \<open>Admission bounds\<close>

fun allow_state :: "(time \<Rightarrow> 's \<Rightarrow> 's \<times> bool) \<Rightarrow> time list \<Rightarrow> 's \<Rightarrow> 's" where
  "allow_state allow [] s = s"
| "allow_state allow (t # ts) s = allow_state allow ts (fst (allow t s))"

lemma allow_run_append: "allow_run allow (xs @ ys) s = allow_run allow xs s @ allow_run allow ys (allow_state allow xs s)"
  by (induction xs arbitrary: s) (auto split: prod.splits)

lemma allow_run_length [simp]: "length (allow_run allow ts s) = length ts"
  by (induction ts arbitrary: s) (auto split: prod.splits)

context bucket
begin

lemma state_inv:
  assumes "0 \<le> rate s" "0 \<le> cap s" "0 \<le> avail s" "sorted (clock s # ts)"
  shows "0 \<le> avail (allow_state allow ts s) \<and> cap (allow_state allow ts s) = cap s \<and> rate (allow_state allow ts s) = rate s
    \<and> clock (allow_state allow ts s) = last (clock s # ts)"
  using assms
proof (induction ts arbitrary: s)
  case (Cons t ts)
  obtain s' b where a: "allow t s = (s', b)" by (cases "allow t s")
  have "0 \<le> min (cap s) (avail s + secs (t - clock s) * rate s)" using Cons.prems by (auto simp: secs_def)
  then have "0 \<le> avail s'" "cap s' = cap s" "rate s' = rate s" "clock s' = t"
    using allow_law [OF a] by (auto simp: Let_def split: if_splits)
  then show ?case using Cons.IH [of s'] Cons.prems by (simp add: a)
qed simp

lemma later_stretch_bound:
  assumes "0 \<le> rate s" "0 \<le> cap s" "0 \<le> avail s" "sorted (clock s # pre @ t # ts)"
  shows "of_nat (granted (drop (length pre) (allow_run allow (pre @ t # ts) s))) \<le> cap s + secs (last (t # ts) - t) * rate s"
proof -
  let ?s = "allow_state allow pre s"
  have pre: "sorted (clock s # pre)" "sorted (last (clock s # pre) # t # ts)"
    using assms(4) by (auto simp: sorted_append)
  note I = state_inv [OF assms(1-3) pre(1)]
  show ?thesis using stretch_bound [of ?s t ts] I assms pre(2) by (simp add: allow_run_append)
qed

end

text \<open>
  C22. A token bucket of burst \<open>b\<close> and rate \<open>r\<close> admits, in any stretch of consecutive calls, at
  most \<open>b\<close> plus \<open>r\<close> times the length of the stretch in seconds, whatever happened before.
\<close>

theorem token_bucket_burst_bound:
  assumes "0 \<le> rate" "0 \<le> burst" "sorted (t0 # pre @ t # ts)"
  shows "of_nat (granted (drop (length pre) (allow_run tb_Allow (pre @ t # ts) (tb_New rate burst t0))))
    \<le> of_int burst + secs (last (t # ts) - t) * rate"
  using tb.later_stretch_bound [of "tb_New rate burst t0" pre t ts] assms by (simp add: tb_New_def)

theorem token_bucket_burst_bound_witness:
  "granted (drop (length [0, 10 :: int]) (allow_run tb_Allow [0, 10, 20, 30, 2 * Second] (tb_New 1 2 0))) \<le> 3"
proof -
  let ?n = "granted (drop (length [0, 10 :: int]) (allow_run tb_Allow [0, 10, 20, 30, 2 * Second] (tb_New 1 2 0)))"
  have "of_nat ?n \<le> (2 :: rat) + secs (2 * Second - 20)"
    using token_bucket_burst_bound [of 1 2 0 "[0, 10]" 20 "[30, 2 * Second]"] by simp
  also have "\<dots> < of_nat 4" by (simp add: secs_def)
  finally show ?thesis by (simp only: of_nat_less_iff)
qed


section \<open>The sliding window\<close>

lemma sw_first_after_spec: "sw_first_after c i ts = 0 \<or> (\<exists>j. sw_first_after c i ts = i + j \<and> (\<forall>x\<in>set (take j ts). x \<le> c))"
proof (induction ts arbitrary: i)
  case (Cons t ts)
  show ?case
  proof (cases "t > c")
    case False
    then show ?thesis using Cons.IH [of "Suc i"] by (force intro: exI [of _ "Suc _"])
  qed (auto intro: exI [of _ 0])
qed simp

definition sw_pruned :: "time \<Rightarrow> sliding_window \<Rightarrow> time list" where
  "sw_pruned now sw =
    (if sw_timestamps sw \<noteq> [] \<and> last (sw_timestamps sw) < now - sw_windowSize sw then []
     else drop (sw_first_after (now - sw_windowSize sw) 0 (sw_timestamps sw)) (sw_timestamps sw))"

lemma sw_Allow_eq:
  "sw_Allow now sw =
    (if int (length (sw_pruned now sw)) < sw_maxRequests sw then (sw\<lparr>sw_timestamps := sw_pruned now sw @ [now]\<rparr>, True)
     else (sw\<lparr>sw_timestamps := sw_pruned now sw\<rparr>, False))"
  by (simp add: sw_Allow_def sw_pruned_def Let_def)

text \<open>Pruning drops a prefix of instants that have left the window.\<close>

lemma sw_pruned_drop:
  assumes "sorted (sw_timestamps sw)"
  shows "\<exists>k. sw_pruned now sw = drop k (sw_timestamps sw) \<and> (\<forall>x\<in>set (take k (sw_timestamps sw)). x \<le> now - sw_windowSize sw)"
proof (cases "sw_timestamps sw \<noteq> [] \<and> last (sw_timestamps sw) < now - sw_windowSize sw")
  case True
  have "\<forall>x\<in>set (sw_timestamps sw). x \<le> last (sw_timestamps sw)" using assms by (simp add: sorted_le_last)
  then show ?thesis using True by (intro exI [of _ "length (sw_timestamps sw)"]) (auto simp: sw_pruned_def)
next
  case False
  then show ?thesis
    using sw_first_after_spec [of "now - sw_windowSize sw" 0 "sw_timestamps sw"]
    by (auto simp: sw_pruned_def intro: exI [of _ 0])
qed

definition in_span :: "duration \<Rightarrow> time \<Rightarrow> time list \<Rightarrow> nat" where
  "in_span w t h = length (filter (\<lambda>x. t - w < x \<and> x \<le> t) h)"

fun sw_granted :: "time list \<Rightarrow> sliding_window \<Rightarrow> time list" where
  "sw_granted [] sw = []"
| "sw_granted (t # ts) sw = (case sw_Allow t sw of (sw', b) \<Rightarrow> (if b then [t] else []) @ sw_granted ts sw')"

text \<open>\<open>h\<close>: everything admitted so far, of which the limiter remembers a suffix.\<close>

definition sw_tracks :: "time \<Rightarrow> time list \<Rightarrow> sliding_window \<Rightarrow> bool" where
  "sw_tracks now h sw \<longleftrightarrow> sorted h \<and> (\<forall>x\<in>set h. x \<le> now)
     \<and> (\<exists>k. sw_timestamps sw = drop k h \<and> (\<forall>x\<in>set (take k h). x \<le> now - sw_windowSize sw))
     \<and> (\<forall>t. int (in_span (sw_windowSize sw) t h) \<le> max 0 (sw_maxRequests sw))"

lemma sw_tracks_Allow:
  assumes tr: "sw_tracks t0 h sw" and le: "t0 \<le> now" and al: "sw_Allow now sw = (sw', b)"
  shows "sw_tracks now (h @ (if b then [now] else [])) sw' \<and> sw_windowSize sw' = sw_windowSize sw \<and> sw_maxRequests sw' = sw_maxRequests sw"
proof -
  let ?w = "sw_windowSize sw"
  obtain k where k: "sw_timestamps sw = drop k h" "\<forall>x\<in>set (take k h). x \<le> t0 - ?w" using tr by (auto simp: sw_tracks_def)
  have srt: "sorted h" using tr by (simp add: sw_tracks_def)
  obtain j where j: "sw_pruned now sw = drop j (drop k h)" "\<forall>x\<in>set (take j (drop k h)). x \<le> now - ?w"
    using sw_pruned_drop [of sw now] srt by (auto simp: k sorted_wrt_drop)
  let ?p = "sw_pruned now sw"
  have p: "?p = drop (j + k) h" using j(1) by (simp add: add.commute)
  have old: "\<forall>x\<in>set (take (j + k) h). x \<le> now - ?w"
    using k(2) j(2) le by (auto simp: add.commute [of j k] take_add)
  have span: "in_span ?w t h \<le> length ?p" if "now \<le> t" for t
  proof -
    have "filter (\<lambda>x. t - ?w < x \<and> x \<le> t) (take (j + k) h) = []" using old that by (fastforce simp: filter_empty_conv)
    then have "in_span ?w t h = length (filter (\<lambda>x. t - ?w < x \<and> x \<le> t) ?p)"
      unfolding p in_span_def by (metis append_Nil append_take_drop_id filter_append)
    then show ?thesis by simp
  qed
  have le_now: "\<forall>x\<in>set h. x \<le> now" using tr le by (auto simp: sw_tracks_def)
  show ?thesis
  proof (cases "int (length ?p) < sw_maxRequests sw")
    case True
    then have e: "b" "sw' = sw\<lparr>sw_timestamps := ?p @ [now]\<rparr>" using al by (auto simp: sw_Allow_eq)
    have "int (in_span ?w t (h @ [now])) \<le> max 0 (sw_maxRequests sw)" for t
    proof (cases "now \<le> t")
      case True
      then show ?thesis using span [OF True] \<open>int (length ?p) < sw_maxRequests sw\<close> by (auto simp: in_span_def)
    next
      case False
      then show ?thesis using tr by (auto simp: sw_tracks_def in_span_def)
    qed
    moreover have "\<exists>k. ?p @ [now] = drop k (h @ [now]) \<and> (\<forall>x\<in>set (take k (h @ [now])). x \<le> now - ?w)"
    proof (intro exI [of _ "min (j + k) (length h)"] conjI)
      show "?p @ [now] = drop (min (j + k) (length h)) (h @ [now])" by (simp add: p min_def)
      show "\<forall>x\<in>set (take (min (j + k) (length h)) (h @ [now])). x \<le> now - ?w" using old by (simp add: min_def)
    qed
    ultimately show ?thesis using e srt le_now by (simp add: sw_tracks_def sorted_append)
  next
    case False
    then have e: "\<not> b" "sw' = sw\<lparr>sw_timestamps := ?p\<rparr>" using al by (auto simp: sw_Allow_eq)
    then show ?thesis using tr srt le_now p old by (auto simp: sw_tracks_def)
  qed
qed

lemma sw_granted_tracks:
  assumes "sw_tracks t0 h sw" "sorted (t0 # ts)"
  shows "int (in_span (sw_windowSize sw) t (h @ sw_granted ts sw)) \<le> max 0 (sw_maxRequests sw)"
  using assms
proof (induction ts arbitrary: t0 h sw)
  case Nil
  then show ?case by (simp add: sw_tracks_def)
next
  case (Cons u ts)
  obtain sw' b where a: "sw_Allow u sw = (sw', b)" by (cases "sw_Allow u sw")
  show ?case
    using Cons.IH [of u "h @ (if b then [u] else [])" sw'] sw_tracks_Allow [OF Cons.prems(1) _ a] Cons.prems(2)
    by (simp add: a)
qed

text \<open>
  C24. The sliding window admits at most \<open>maxRequests\<close> requests in every window: of the requests
  it admits on any sequence of calls at non-decreasing instants, at most that many lie in the
  half-open span \<open>(t - windowSize, t]\<close>, for every \<open>t\<close>.
\<close>

theorem sliding_window_bound:
  assumes "sorted ts"
  shows "int (length (filter (\<lambda>x. t - w < x \<and> x \<le> t) (sw_granted ts (sw_New w n)))) \<le> max 0 n"
proof (cases ts)
  case (Cons u us)
  have "sw_tracks u [] (sw_New w n)" by (simp add: sw_tracks_def sw_New_def in_span_def)
  then show ?thesis
    using sw_granted_tracks [of u "[]" "sw_New w n" ts t] assms by (simp add: Cons sw_New_def in_span_def)
qed simp

theorem sliding_window_bound_witness:
  "sw_granted [0, 3, 6, 11] (sw_New 10 2) = [0, 3, 11]
   \<and> int (length (filter (\<lambda>x. 11 - 10 < x \<and> x \<le> 11) (sw_granted [0, 3, 6, 11] (sw_New 10 2)))) \<le> 2"
  using sliding_window_bound [of "[0, 3, 6, 11]" 11 10 2]
  by (simp add: sw_New_def sw_Allow_def Let_def)

text \<open>
  The pruning is not exact: when the newest remembered instant lies exactly on the cutoff, it is
  neither before it nor is any after it, so nothing is dropped and a request is refused although
  the window is empty.
\<close>

lemma sliding_window_boundary_refusal:
  "allow_run sw_Allow [0, 10] (sw_New 10 1) = [True, False]"
  by (simp add: sw_New_def sw_Allow_def Let_def)

end
