(* ===== verification/Rel_Retry.thy ===== *)
theory Rel_Retry
  imports CPIP_Prelude Complex_Main
begin

text \<open>
  Backoff strategies and the retry executor (\<open>reliability/backoff\<close>, \<open>reliability/retry\<close>).

  A \<open>time.Duration\<close> is a signed 64-bit integer: the products the strategies form wrap
  (\<open>wrap64\<close>). A draw of the random generator is the argument \<open>u\<close>, with \<open>0 \<le> u < 1\<close>; products
  with a \<open>float64\<close> are exact and truncated.
\<close>

section \<open>Backoff\<close>

definition fixed_NextDelay :: "int \<Rightarrow> duration \<Rightarrow> duration \<Rightarrow> duration \<Rightarrow> duration" where
  "fixed_NextDelay attempt base mx lst = base"

definition linear_NextDelay :: "int \<Rightarrow> duration \<Rightarrow> duration \<Rightarrow> duration \<Rightarrow> duration" where
  "linear_NextDelay attempt base mx lst =
    (let delay = wrap64 (base * attempt) in if delay > mx then mx else delay)"

text \<open>
  \<open>float64(base) * math.Pow(2, attempt-1)\<close> does not wrap; a product beyond the range of a duration
  converts to a value above \<open>mx\<close> or below zero, and both give \<open>mx\<close>.
\<close>

definition exponential_NextDelay :: "int \<Rightarrow> duration \<Rightarrow> duration \<Rightarrow> duration \<Rightarrow> duration" where
  "exponential_NextDelay attempt base mx lst =
    (let delay = base * 2 ^ nat (attempt - 1) in if delay > mx \<or> delay \<le> 0 then mx else delay)"

definition jitter_NextDelay :: "rat \<Rightarrow> int \<Rightarrow> duration \<Rightarrow> duration \<Rightarrow> duration \<Rightarrow> duration" where
  "jitter_NextDelay u attempt base mx lst =
    (let fullExp = exponential_NextDelay attempt base mx lst
     in if fullExp \<le> 0 then base
        else let jitter = \<lfloor>u * of_int fullExp\<rfloor> in if jitter < base then base else jitter)"

definition decorrelated_NextDelay :: "rat \<Rightarrow> int \<Rightarrow> duration \<Rightarrow> duration \<Rightarrow> duration \<Rightarrow> duration" where
  "decorrelated_NextDelay u attempt base mx lst =
    (let lst = (if lst \<le> 0 then base else lst);
         minRange = base;
         maxRange = wrap64 (lst * 3);
         maxRange = (if maxRange \<le> minRange then minRange + 1 else maxRange);
         diff = maxRange - minRange;
         delay = minRange + \<lfloor>u * of_int diff\<rfloor>
     in if delay > mx then mx else if delay < base then base else delay)"

datatype backoff = BFixed | BLinear | BExponential | BJitter | BDecorrelated

fun NextDelay :: "backoff \<Rightarrow> rat \<Rightarrow> int \<Rightarrow> duration \<Rightarrow> duration \<Rightarrow> duration \<Rightarrow> duration" where
  "NextDelay BFixed u = fixed_NextDelay"
| "NextDelay BLinear u = linear_NextDelay"
| "NextDelay BExponential u = exponential_NextDelay"
| "NextDelay BJitter u = jitter_NextDelay u"
| "NextDelay BDecorrelated u = decorrelated_NextDelay u"

lemma floor_scaled:
  assumes "0 \<le> u" "u < (1 :: rat)" "0 \<le> d"
  shows "0 \<le> \<lfloor>u * of_int d\<rfloor> \<and> \<lfloor>u * of_int d\<rfloor> \<le> d"
proof -
  have "0 \<le> u * of_int d" "u * of_int d \<le> of_int d"
    using assms mult_right_mono [of u 1 "of_int d"] by simp_all
  then show ?thesis by (simp add: floor_le_iff)
qed

text \<open>
  C25. Every backoff strategy stays between the base interval and the maximum, for every draw of
  the generator and every attempt, as long as the products fit a duration: the base does not
  exceed the maximum, \<open>base * attempt\<close> and three times the maximum do not overflow, and the last
  delay was itself at most the maximum.
\<close>

theorem backoff_within_bounds:
  assumes "0 < base" "base \<le> mx" "1 \<le> attempt" "base * attempt < 2 ^ 63" "3 * mx < 2 ^ 63"
    and "lst \<le> mx" "0 \<le> u" "u < 1"
  shows "base \<le> NextDelay strat u attempt base mx lst \<and> NextDelay strat u attempt base mx lst \<le> mx"
proof (cases strat)
  case BLinear
  have ge: "base \<le> base * attempt" using assms mult_left_mono [of 1 attempt base] by simp
  then have "wrap64 (base * attempt) = base * attempt" using assms(1,4) by (intro wrap64_small) linarith+
  with ge show ?thesis using assms BLinear by (auto simp: linear_NextDelay_def Let_def)
next
  case BExponential
  have "base * 1 \<le> base * 2 ^ nat (attempt - 1)" using assms by (intro mult_left_mono) simp_all
  then show ?thesis using assms BExponential by (auto simp: exponential_NextDelay_def Let_def)
next
  case BJitter
  let ?e = "exponential_NextDelay attempt base mx lst"
  have "?e \<le> mx" "0 < ?e" using assms by (auto simp: exponential_NextDelay_def Let_def)
  then show ?thesis using assms BJitter floor_scaled [OF assms(7,8), of ?e] by (auto simp: jitter_NextDelay_def Let_def)
next
  case BDecorrelated
  then show ?thesis using assms(2) by (auto simp: decorrelated_NextDelay_def Let_def)
qed (use assms in \<open>simp add: fixed_NextDelay_def\<close>)

theorem backoff_within_bounds_witness:
  "(100 :: int) \<le> NextDelay BDecorrelated (1/2) 3 100 2000 400 \<and> NextDelay BDecorrelated (1/2) 3 100 2000 400 \<le> 2000"
  by (rule backoff_within_bounds) simp_all

text \<open>
  Outside these bounds the strategies leave the interval: a large attempt makes the linear delay
  wrap to a negative duration, and a base above the maximum makes the jittered delay exceed it.
\<close>

lemma linear_backoff_overflows: "linear_NextDelay (2 ^ 34) (2 ^ 29) (2 * Second) 0 = - (2 ^ 63)"
  by (simp add: linear_NextDelay_def wrap64_def Let_def)

lemma jitter_backoff_exceeds_max: "jitter_NextDelay 0 1 5 3 0 = 5"
  by (simp add: jitter_NextDelay_def exponential_NextDelay_def Let_def)

section \<open>The retry executor\<close>

record retry_config =
  MaxAttempts :: int
  InitialInterval :: duration
  MaxInterval :: duration

text \<open>
  What an execution meets at each attempt: the context's error before it, the error of \<open>fn\<close>
  (\<^const>\<open>None\<close>: success), and the context's error if the wait after it is cut short.
\<close>

record ('e, 'c) retry_env =
  re_ctx :: "int \<Rightarrow> 'c option"
  re_fn :: "int \<Rightarrow> 'e option"
  re_wait :: "int \<Rightarrow> 'c option"

datatype ('e, 'c) retry_result = RetryOk | RetryCtx 'c | RetryExhausted "'e option"

definition retry_New :: "retry_config \<Rightarrow> retry_config" where
  "retry_New cfg = (if MaxAttempts cfg \<le> 0 then cfg\<lparr>MaxAttempts := 1\<rparr> else cfg)"

text \<open>\<open>calls\<close> counts the invocations of \<open>fn\<close> and \<open>delays\<close> lists the waits begun.\<close>

function retry_loop ::
  "retry_config \<Rightarrow> (int \<Rightarrow> duration \<Rightarrow> duration \<Rightarrow> duration \<Rightarrow> duration) \<Rightarrow> ('e \<Rightarrow> bool) option \<Rightarrow> ('e, 'c) retry_env
   \<Rightarrow> int \<Rightarrow> 'e option \<Rightarrow> duration \<Rightarrow> nat \<Rightarrow> duration list \<Rightarrow> nat \<times> duration list \<times> ('e, 'c) retry_result" where
  "retry_loop cfg strat cls env attempt lastErr delay calls delays =
    (if attempt > MaxAttempts cfg then (calls, delays, RetryExhausted lastErr)
     else case re_ctx env attempt of
       Some c \<Rightarrow> (calls, delays, RetryCtx c)
     | None \<Rightarrow>
         (case re_fn env attempt of
            None \<Rightarrow> (Suc calls, delays, RetryOk)
          | Some e \<Rightarrow>
              if attempt \<ge> MaxAttempts cfg \<or> (case cls of None \<Rightarrow> False | Some f \<Rightarrow> \<not> f e)
              then (Suc calls, delays, RetryExhausted (Some e))
              else
                let d = strat attempt (InitialInterval cfg) (MaxInterval cfg) delay
                in case re_wait env attempt of
                     Some c \<Rightarrow> (Suc calls, delays @ [d], RetryCtx c)
                   | None \<Rightarrow> retry_loop cfg strat cls env (attempt + 1) (Some e) d (Suc calls) (delays @ [d])))"
  by pat_completeness auto
termination
  by (relation "measure (\<lambda>(cfg, _, _, _, attempt, _). nat (MaxAttempts cfg + 1 - attempt))") auto

declare retry_loop.simps [simp del]

definition retry_Execute ::
  "retry_config \<Rightarrow> (int \<Rightarrow> duration \<Rightarrow> duration \<Rightarrow> duration \<Rightarrow> duration) \<Rightarrow> ('e \<Rightarrow> bool) option \<Rightarrow> ('e, 'c) retry_env
   \<Rightarrow> nat \<times> duration list \<times> ('e, 'c) retry_result" where
  "retry_Execute cfg strat cls env = retry_loop cfg strat cls env 1 None 0 0 []"

text \<open>The attempt ends the execution: it succeeded, was the last, or failed for good.\<close>

definition retry_stops :: "retry_config \<Rightarrow> ('e \<Rightarrow> bool) option \<Rightarrow> ('e, 'c) retry_env \<Rightarrow> int \<Rightarrow> bool" where
  "retry_stops cfg cls env k \<longleftrightarrow> re_fn env k = None \<or> MaxAttempts cfg \<le> k
     \<or> (\<exists>f e. cls = Some f \<and> re_fn env k = Some e \<and> \<not> f e)"

lemma retry_loop_stops:
  assumes "\<And>j. re_ctx env j = None" "\<And>j. re_wait env j = None"
    and "a \<le> k" "k \<le> MaxAttempts cfg" "retry_stops cfg cls env k" "\<And>j. a \<le> j \<Longrightarrow> j < k \<Longrightarrow> \<not> retry_stops cfg cls env j"
  shows "\<exists>ds. retry_loop cfg strat cls env a le d n acc =
      (n + nat (k - a) + 1, ds, case re_fn env k of None \<Rightarrow> RetryOk | Some e \<Rightarrow> RetryExhausted (Some e))
    \<and> length ds = length acc + nat (k - a)"
  using assms(3-)
proof (induction "nat (k - a)" arbitrary: a le d n acc)
  case 0
  then have "a = k" by simp
  show ?case
  proof (cases "re_fn env k")
    case None
    then show ?thesis using 0 assms(1) \<open>a = k\<close> by (simp add: retry_loop.simps [of _ _ _ _ k])
  next
    case (Some e)
    then have "MaxAttempts cfg \<le> k \<or> (case cls of None \<Rightarrow> False | Some f \<Rightarrow> \<not> f e)"
      using 0 by (auto simp: retry_stops_def)
    then show ?thesis using Some 0 assms(1) \<open>a = k\<close> by (simp add: retry_loop.simps [of _ _ _ _ k])
  qed
next
  case (Suc m)
  then have lt: "a < k" by simp
  then obtain e where e: "re_fn env a = Some e" "\<not> MaxAttempts cfg \<le> a" "\<And>f. cls = Some f \<Longrightarrow> f e"
    using Suc.prems(4) [of a] by (auto simp: retry_stops_def)
  let ?d = "strat a (InitialInterval cfg) (MaxInterval cfg) d"
  have "retry_loop cfg strat cls env a le d n acc = retry_loop cfg strat cls env (a + 1) (Some e) ?d (Suc n) (acc @ [?d])"
    using e assms(1,2) by (cases cls) (simp_all add: retry_loop.simps [of _ _ _ _ a] Let_def)
  moreover have m: "m = nat (k - (a + 1))" "nat (k - a) = Suc (nat (k - (a + 1)))" using Suc.hyps(2) lt by auto
  moreover have "\<exists>ds. retry_loop cfg strat cls env (a + 1) (Some e) ?d (Suc n) (acc @ [?d]) =
      (Suc n + nat (k - (a + 1)) + 1, ds, case re_fn env k of None \<Rightarrow> RetryOk | Some e \<Rightarrow> RetryExhausted (Some e))
    \<and> length ds = length (acc @ [?d]) + nat (k - (a + 1))"
    by (rule Suc.hyps(1)) (use Suc.prems lt m(1) in auto)
  ultimately show ?case by simp
qed


definition ex_retry_env :: "(string, string) retry_env" where
  "ex_retry_env = \<lparr>re_ctx = (\<lambda>_. None), re_fn = (\<lambda>k. if k < 3 then Some ''busy'' else None), re_wait = (\<lambda>_. None)\<rparr>"

definition ex_retry_config :: retry_config where
  "ex_retry_config = \<lparr>MaxAttempts = 5, InitialInterval = 100, MaxInterval = 2000\<rparr>"


end
