(* ===== verification/Rel_Isolation.thy ===== *)
theory Rel_Isolation
  imports CPIP_Prelude "HOL-Library.Multiset" "HOL-Library.Signed_Division"
begin

text \<open>
  Isolation of load: bulkheads, backpressure and the ordered shutdown
  (\<open>reliability/bulkhead\<close>, \<open>reliability/backpressure\<close>, \<open>reliability/shutdown\<close>).
\<close>

section \<open>Semaphore bulkhead\<close>

text \<open>
  The semaphore is a buffered channel: \<open>sb_used\<close> of \<open>sb_cap\<close> slots hold a token. Every successful
  \<open>Acquire\<close> returns a release closure with a \<open>sync.Once\<close>; \<open>sb_released\<close> is their state.
\<close>

record semaphore =
  sb_cap :: nat
  sb_used :: nat
  sb_released :: "bool list"

datatype bulkhead_error = ErrBulkheadFull | BulkheadCtx | BulkheadClosed | BulkheadUnsupported

definition sem_New :: "nat \<Rightarrow> semaphore" where
  "sem_New n = \<lparr>sb_cap = n, sb_used = 0, sb_released = []\<rparr>"

text \<open>
  With several ready cases the \<open>select\<close> picks any: \<open>pick\<close> says whether it takes the send when the
  context is done too. The result of success is the handle of the release closure.
\<close>

definition sem_Acquire :: "bool \<Rightarrow> bool \<Rightarrow> semaphore \<Rightarrow> semaphore \<times> (bulkhead_error + nat)" where
  "sem_Acquire ctxDone pick b =
    (let ready = (sb_used b < sb_cap b)
     in if ready \<and> (pick \<or> \<not> ctxDone)
        then (b\<lparr>sb_used := Suc (sb_used b), sb_released := sb_released b @ [False]\<rparr>, Inr (length (sb_released b)))
        else if ctxDone then (b, Inl BulkheadCtx)
        else (b, Inl ErrBulkheadFull))"

text \<open>A receive from an empty channel would block: \<^const>\<open>None\<close>.\<close>

definition sem_release :: "nat \<Rightarrow> semaphore \<Rightarrow> semaphore option" where
  "sem_release i b =
    (if sb_released b ! i then Some b
     else if sb_used b = 0 then None
     else Some (b\<lparr>sb_used := sb_used b - 1, sb_released := (sb_released b)[i := True]\<rparr>))"

definition sem_active :: "semaphore \<Rightarrow> nat" where
  "sem_active b = length (filter (\<lambda>r. \<not> r) (sb_released b))"

inductive sem_reachable :: "nat \<Rightarrow> semaphore \<Rightarrow> bool" for n where
  sem_new: "sem_reachable n (sem_New n)"
| sem_acq: "sem_reachable n b \<Longrightarrow> sem_reachable n (fst (sem_Acquire ctxDone pick b))"
| sem_rel: "sem_reachable n b \<Longrightarrow> i < length (sb_released b) \<Longrightarrow> sem_release i b = Some b' \<Longrightarrow> sem_reachable n b'"

lemma filter_update_len:
  "i < length rs \<Longrightarrow> \<not> rs ! i \<Longrightarrow> Suc (length (filter (\<lambda>r. \<not> r) (rs[i := True]))) = length (filter (\<lambda>r. \<not> r) rs)"
proof (induction rs arbitrary: i)
  case (Cons r rs)
  then show ?case by (cases i) auto
qed simp

lemma sem_inv: "sem_reachable n b \<Longrightarrow> sb_cap b = n \<and> sb_used b = sem_active b \<and> sb_used b \<le> n"
proof (induction rule: sem_reachable.induct)
  case sem_new
  then show ?case by (simp add: sem_New_def sem_active_def)
next
  case (sem_acq b ctxDone pick)
  then show ?case by (auto simp: sem_Acquire_def sem_active_def Let_def)
next
  case (sem_rel b i b')
  then show ?case using filter_update_len [of i "sb_released b"]
    by (auto simp: sem_release_def sem_active_def split: if_splits)
qed

text \<open>
  C27. A semaphore bulkhead never has more than its capacity of executions admitted and not
  released, over all interleavings of acquisitions and releases, repeated releases included; it
  refuses (full) exactly when the capacity is in use; and a release never blocks.
\<close>

theorem semaphore_bulkhead_bound:
  assumes "sem_reachable n b"
  shows "length (filter (\<lambda>r. \<not> r) (sb_released b)) \<le> n
    \<and> (snd (sem_Acquire False pick b) = Inl ErrBulkheadFull \<longleftrightarrow> length (filter (\<lambda>r. \<not> r) (sb_released b)) = n)
    \<and> (\<forall>i < length (sb_released b). sem_release i b \<noteq> None)"
proof -
  note I = sem_inv [OF assms, unfolded sem_active_def]
  have "sem_release i b \<noteq> None" if i: "i < length (sb_released b)" for i
    using filter_update_len [OF i] I by (cases "sb_released b ! i") (auto simp: sem_release_def)
  then show ?thesis using I by (auto simp: sem_Acquire_def Let_def)
qed

theorem semaphore_bulkhead_bound_witness:
  "let b = fst (sem_Acquire False True (sem_New 1)) in sem_reachable 1 b \<and> snd (sem_Acquire False True b) = Inl ErrBulkheadFull"
proof -
  let ?b = "fst (sem_Acquire False True (sem_New 1))"
  have r: "sem_reachable 1 ?b" by (intro sem_acq sem_new)
  have "length (filter (\<lambda>r. \<not> r) (sb_released ?b)) = 1" by (simp add: sem_Acquire_def sem_New_def Let_def)
  then show ?thesis using semaphore_bulkhead_bound [OF r, of True] r by (simp add: Let_def)
qed

section \<open>Pool bulkhead\<close>

text \<open>
  Workers take functions from the shared \<open>jobs\<close> channel and send the results on the shared
  \<open>results\<close> channel, both of capacity \<open>pb_cap\<close>; a caller that has queued its function waits for any
  result. Callers name their functions, so that a result shows whose it is. A channel with a
  waiting partner hands over directly, also when its buffer has no room.
\<close>

record pool =
  pb_cap :: nat
  pb_workers :: nat
  pb_jobs :: "string list"
  pb_running :: "string list"
  pb_results :: "string list"
  pb_waiting :: "string list"
  pb_closed :: bool

definition pool_New :: "nat \<Rightarrow> nat \<Rightarrow> pool" where
  "pool_New maxWorkers cap =
    \<lparr>pb_cap = cap, pb_workers = maxWorkers, pb_jobs = [], pb_running = [], pb_results = [], pb_waiting = [],
     pb_closed = False\<rparr>"

text \<open>
  The first \<open>select\<close> of \<open>Execute\<close>. Of several ready cases any may be picked: \<open>pick\<close> says which is
  tried first (the context, the closed signal, the send); \<open>idle\<close> says whether a worker sits at its
  receive. A send on the closed channel panics: \<^const>\<open>None\<close>.
\<close>

datatype pool_pick = PickCtx | PickClosed | PickSend

definition pool_send :: "string \<Rightarrow> pool \<Rightarrow> (pool \<times> bulkhead_error option) option" where
  "pool_send caller p =
    (if pb_closed p then None
     else Some (p\<lparr>pb_jobs := pb_jobs p @ [caller], pb_waiting := pb_waiting p @ [caller]\<rparr>, None))"

definition pool_sendable :: "bool \<Rightarrow> pool \<Rightarrow> bool" where
  "pool_sendable idle p \<longleftrightarrow> pb_closed p \<or> length (pb_jobs p) < pb_cap p
     \<or> pb_jobs p = [] \<and> idle \<and> length (pb_running p) < pb_workers p"

definition pool_submit :: "string \<Rightarrow> bool \<Rightarrow> pool_pick \<Rightarrow> bool \<Rightarrow> pool \<Rightarrow> (pool \<times> bulkhead_error option) option" where
  "pool_submit caller ctxDone pick idle p =
    (if ctxDone \<and> pick = PickCtx then Some (p, Some BulkheadCtx)
     else if pb_closed p \<and> pick = PickClosed then Some (p, Some BulkheadClosed)
     else if pool_sendable idle p \<and> pick = PickSend then pool_send caller p
     else if ctxDone then Some (p, Some BulkheadCtx)
     else if pb_closed p then Some (p, Some BulkheadClosed)
     else if pool_sendable idle p then pool_send caller p
     else Some (p, Some ErrBulkheadFull))"

text \<open>A worker takes a function; it finishes it by sending the result.\<close>

definition pool_start :: "pool \<Rightarrow> pool option" where
  "pool_start p =
    (case pb_jobs p of
       [] \<Rightarrow> None
     | j # js \<Rightarrow> if length (pb_running p) < pb_workers p
                then Some (p\<lparr>pb_jobs := js, pb_running := pb_running p @ [j]\<rparr>) else None)"

definition pool_finish :: "string \<Rightarrow> pool \<Rightarrow> pool option" where
  "pool_finish j p =
    (if j \<in> set (pb_running p) \<and> (length (pb_results p) < pb_cap p \<or> pb_results p = [] \<and> pb_waiting p \<noteq> [])
     then Some (p\<lparr>pb_running := remove1 j (pb_running p), pb_results := pb_results p @ [j]\<rparr>) else None)"

text \<open>The second \<open>select\<close> of \<open>Execute\<close>: the caller receives the oldest result, or gives up.\<close>

definition pool_receive :: "string \<Rightarrow> pool \<Rightarrow> (pool \<times> string) option" where
  "pool_receive caller p =
    (if caller \<in> set (pb_waiting p) then
       (case pb_results p of
          [] \<Rightarrow> None
        | r # rs \<Rightarrow> Some (p\<lparr>pb_results := rs, pb_waiting := remove1 caller (pb_waiting p)\<rparr>, r))
     else None)"

definition pool_giveUp :: "string \<Rightarrow> pool \<Rightarrow> pool" where
  "pool_giveUp caller p = p\<lparr>pb_waiting := remove1 caller (pb_waiting p)\<rparr>"

definition pool_Close :: "pool \<Rightarrow> pool" where
  "pool_Close p = p\<lparr>pb_closed := True\<rparr>"

lemmas pool_defs = pool_submit_def pool_send_def pool_sendable_def pool_New_def pool_start_def pool_finish_def
  pool_receive_def pool_giveUp_def pool_Close_def

text \<open>
  The results are not addressed: with two callers in flight, one receives the outcome of the
  other's function; a caller that gives up leaves its result to the next one, even with one caller
  at a time. And a call on a closed pool can pick the ready send on the closed channel.
\<close>

lemma pool_results_crossed:
  "\<exists>p1 p2 p3 p4 p5. pool_submit ''a'' False PickSend True (pool_New 2 2) = Some (p1, None)
     \<and> pool_submit ''b'' False PickSend True p1 = Some (p2, None) \<and> pool_start p2 = Some p3
     \<and> pool_finish ''a'' p3 = Some p4 \<and> pool_receive ''b'' p4 = Some (p5, ''a'')"
  by (simp add: pool_defs)

lemma pool_result_left_behind:
  "\<exists>p1 p2 p3 p4 p5. pool_submit ''a'' False PickSend True (pool_New 1 1) = Some (p1, None)
     \<and> pool_start p1 = Some p2 \<and> pool_finish ''a'' (pool_giveUp ''a'' p2) = Some p3
     \<and> pool_submit ''b'' False PickSend True p3 = Some (p4, None) \<and> pool_receive ''b'' p4 = Some (p5, ''a'')"
  by (simp add: pool_defs)

lemma pool_submit_closed_panics: "pool_submit c False PickSend idle (pool_Close p) = None"
  by (simp add: pool_defs)

text \<open>What the pool does keep: at most \<open>maxWorkers\<close> functions run, and at most \<open>cap\<close> (or one) wait.\<close>

inductive pool_reachable :: "nat \<Rightarrow> nat \<Rightarrow> pool \<Rightarrow> bool" for w c where
  pool_new: "pool_reachable w c (pool_New w c)"
| pool_sub: "pool_reachable w c p \<Longrightarrow> pool_submit x d k i p = Some (p', e) \<Longrightarrow> pool_reachable w c p'"
| pool_sta: "pool_reachable w c p \<Longrightarrow> pool_start p = Some p' \<Longrightarrow> pool_reachable w c p'"
| pool_fin: "pool_reachable w c p \<Longrightarrow> pool_finish j p = Some p' \<Longrightarrow> pool_reachable w c p'"
| pool_rec: "pool_reachable w c p \<Longrightarrow> pool_receive x p = Some (p', r) \<Longrightarrow> pool_reachable w c p'"
| pool_giv: "pool_reachable w c p \<Longrightarrow> pool_reachable w c (pool_giveUp x p)"
| pool_clo: "pool_reachable w c p \<Longrightarrow> pool_reachable w c (pool_Close p)"

lemma pool_inv:
  "pool_reachable w c p \<Longrightarrow> pb_workers p = w \<and> pb_cap p = c \<and> length (pb_running p) \<le> w
     \<and> length (pb_jobs p) \<le> max 1 c \<and> length (pb_results p) \<le> max 1 c"
proof (induction rule: pool_reachable.induct)
  case (pool_sub p x d k i p' e)
  then show ?case by (auto simp: pool_submit_def pool_send_def pool_sendable_def split: if_splits)
next
  case (pool_rec p x p' r)
  then show ?case by (auto simp: pool_receive_def split: if_splits list.splits)
qed (auto simp: pool_New_def pool_start_def pool_finish_def pool_giveUp_def pool_Close_def
       length_remove1 split: if_splits list.splits)

section \<open>Backpressure\<close>

record backpressure =
  bm_maxQueueSize :: int
  bm_activeTasks :: int
  bm_slowThreshold :: duration
  bm_latencies :: "duration list"
  bm_latencyLimit :: duration

datatype bp_error = ErrBackpressureShed

abbreviation (input) PriorityHigh :: int where "PriorityHigh \<equiv> 2"

definition bm_New :: "int \<Rightarrow> duration \<Rightarrow> duration \<Rightarrow> backpressure" where
  "bm_New maxQueue slow limit =
    \<lparr>bm_maxQueueSize = maxQueue, bm_activeTasks = 0, bm_slowThreshold = slow, bm_latencies = [],
     bm_latencyLimit = limit\<rparr>"

text \<open>The sum is an \<open>int64\<close>, the quotient truncates toward zero.\<close>

definition bm_AverageLatency :: "backpressure \<Rightarrow> duration" where
  "bm_AverageLatency bm =
    (if bm_latencies bm = [] then 0
     else foldl (\<lambda>total d. wrap64 (total + d)) 0 (bm_latencies bm) sdiv int (length (bm_latencies bm)))"

text \<open>
  \<open>Acquire\<close> is not one atomic step: it loads the counter, decides, and only then adds one.
  \<open>bm_decide\<close> is the decision on the loaded value \<open>active\<close>; \<open>bm_admit\<close> is the atomic add.
\<close>

definition bm_decide :: "int \<Rightarrow> int \<Rightarrow> backpressure \<Rightarrow> bp_error option" where
  "bm_decide active priority bm =
    (let isLoadHigh = (active \<ge> bm_maxQueueSize bm);
         isSystemSlow = (bm_AverageLatency bm > bm_latencyLimit bm \<and> length (bm_latencies bm) \<ge> 5)
     in if isLoadHigh \<or> isSystemSlow
        then if priority = PriorityHigh \<and> active < bm_maxQueueSize bm + 5 then None else Some ErrBackpressureShed
        else None)"

definition bm_admit :: "backpressure \<Rightarrow> backpressure" where
  "bm_admit bm = bm\<lparr>bm_activeTasks := bm_activeTasks bm + 1\<rparr>"

definition bm_Acquire :: "int \<Rightarrow> backpressure \<Rightarrow> backpressure \<times> bp_error option" where
  "bm_Acquire priority bm =
    (case bm_decide (bm_activeTasks bm) priority bm of
       None \<Rightarrow> (bm_admit bm, None)
     | Some e \<Rightarrow> (bm, Some e))"

definition bm_Release :: "duration \<Rightarrow> backpressure \<Rightarrow> backpressure" where
  "bm_Release d bm =
    (let ls = bm_latencies bm @ [d]
     in bm\<lparr>bm_activeTasks := bm_activeTasks bm - 1, bm_latencies := (if length ls > 50 then tl ls else ls)\<rparr>)"

text \<open>
  Concurrent callers. A caller inside \<open>Acquire\<close> has either loaded the counter (\<open>ld\<close> lists the
  values loaded) or decided to admit and not yet added (\<open>pend\<close> of them). At most \<open>k\<close> callers are
  inside at a time; releases happen at any moment.
\<close>

inductive bm_conc :: "int \<Rightarrow> nat \<Rightarrow> backpressure \<Rightarrow> int list \<Rightarrow> nat \<Rightarrow> bool" for mq k where
  bmc_new: "bm_conc mq k (bm_New mq slow limit) [] 0"
| bmc_load: "bm_conc mq k bm ld pend \<Longrightarrow> length ld + pend < k \<Longrightarrow> bm_conc mq k bm (bm_activeTasks bm # ld) pend"
| bmc_pass: "bm_conc mq k bm ld pend \<Longrightarrow> a \<in> set ld \<Longrightarrow> bm_decide a priority bm = None
    \<Longrightarrow> bm_conc mq k bm (remove1 a ld) (Suc pend)"
| bmc_shed: "bm_conc mq k bm ld pend \<Longrightarrow> a \<in> set ld \<Longrightarrow> bm_decide a priority bm = Some e
    \<Longrightarrow> bm_conc mq k bm (remove1 a ld) pend"
| bmc_admit: "bm_conc mq k bm ld (Suc pend) \<Longrightarrow> bm_conc mq k (bm_admit bm) ld pend"
| bmc_rel: "bm_conc mq k bm ld pend \<Longrightarrow> bm_conc mq k (bm_Release d bm) ld pend"

abbreviation bm_low :: "int \<Rightarrow> int list \<Rightarrow> nat" where
  "bm_low mq ld \<equiv> length (filter (\<lambda>a. a < mq + 5) ld)"

lemma bm_low_remove1: "a \<in> set ld \<Longrightarrow> bm_low mq ld = bm_low mq (remove1 a ld) + (if a < mq + 5 then 1 else 0)"
  by (induction ld) auto

lemma bm_decide_None: "bm_decide a pr bm = None \<Longrightarrow> a < bm_maxQueueSize bm + 5"
  by (auto simp: bm_decide_def Let_def split: if_splits)

lemma bm_conc_inv:
  "bm_conc mq k bm ld pend \<Longrightarrow> bm_maxQueueSize bm = mq \<and> length ld + pend \<le> k \<and> length (bm_latencies bm) \<le> 50
     \<and> bm_activeTasks bm + int pend + int (bm_low mq ld) \<le> max 0 (mq + 4 + int k)"
proof (induction rule: bm_conc.induct)
  case (bmc_load bm ld pend)
  have "int (bm_low mq ld) + int pend < int k" using bmc_load(2) length_filter_le [of "\<lambda>a. a < mq + 5" ld] by linarith
  then show ?case using bmc_load by auto
next
  case (bmc_pass bm ld pend a priority)
  have a: "a < mq + 5" using bm_decide_None [OF bmc_pass(3)] bmc_pass(4) by simp
  have l: "length ld = Suc (length (remove1 a ld))" using bmc_pass(2) length_pos_if_in_set [of a ld] by (simp add: length_remove1)
  show ?case using bmc_pass(4) bm_low_remove1 [OF bmc_pass(2), of mq] a l by auto
next
  case (bmc_shed bm ld pend a priority e)
  then show ?case using bm_low_remove1 [OF bmc_shed(2), of mq] by (auto simp: length_remove1)
next
  case (bmc_rel bm ld pend d)
  then show ?case by (auto simp: bm_Release_def Let_def)
qed (auto simp: bm_New_def bm_admit_def)



section \<open>Ordered shutdown\<close>

text \<open>A hook's action is a function value, known by its identity.\<close>

record hook =
  hook_Name :: string
  hook_Priority :: int
  hook_Action :: nat

datatype hook_outcome = HookOk | HookErr string | HookCtxDone

datatype shutdown_event = ShutdownStarted nat | ShutdownCompleted

definition shutdown_Register :: "string \<Rightarrow> int \<Rightarrow> nat \<Rightarrow> hook list \<Rightarrow> hook list" where
  "shutdown_Register name prio act hooks = hooks @ [\<lparr>hook_Name = name, hook_Priority = prio, hook_Action = act\<rparr>]"

text \<open>\<open>sort.Slice\<close> promises a permutation ordered by the comparison, and no stability.\<close>

definition sort_Slice_by_priority :: "hook list \<Rightarrow> hook list \<Rightarrow> bool" where
  "sort_Slice_by_priority hooks hs \<longleftrightarrow> mset hs = mset hooks \<and> sorted (map hook_Priority hs)"

text \<open>
  The loop over the sorted hooks. \<open>out\<close> gives what the \<open>select\<close> of each hook sees: the error of its
  action, or the end of the context. The result is the list of the hooks started, the first error,
  and whether the loop ran to its end.
\<close>

fun shutdown_loop :: "(hook \<Rightarrow> hook_outcome) \<Rightarrow> string option \<Rightarrow> hook list \<Rightarrow> hook list \<times> string option \<times> bool" where
  "shutdown_loop out firstErr [] = ([], firstErr, True)"
| "shutdown_loop out firstErr (h # hs) =
    (case out h of
       HookCtxDone \<Rightarrow> ([h], Some (case firstErr of None \<Rightarrow> ''timed out: '' @ hook_Name h | Some e \<Rightarrow> e), False)
     | HookErr e \<Rightarrow>
         (let (run, err, fin) = shutdown_loop out (case firstErr of None \<Rightarrow> Some e | Some e' \<Rightarrow> Some e') hs
          in (h # run, err, fin))
     | HookOk \<Rightarrow> (let (run, err, fin) = shutdown_loop out firstErr hs in (h # run, err, fin)))"

definition shutdown_Shutdown :: "(hook \<Rightarrow> hook_outcome) \<Rightarrow> hook list \<Rightarrow> hook list \<times> string option \<times> shutdown_event list" where
  "shutdown_Shutdown out hs =
    (let (run, err, fin) = shutdown_loop out None hs
     in (run, err, ShutdownStarted (length hs) # (if fin then [ShutdownCompleted] else [])))"

abbreviation hook_cut :: "(hook \<Rightarrow> hook_outcome) \<Rightarrow> hook \<Rightarrow> bool" where
  "hook_cut out h \<equiv> out h = HookCtxDone"

lemma shutdown_loop_run:
  "fst (shutdown_loop out fe hs)
   = takeWhile (\<lambda>h. \<not> hook_cut out h) hs @ take 1 (dropWhile (\<lambda>h. \<not> hook_cut out h) hs)"
  by (induction hs arbitrary: fe) (simp_all add: Let_def case_prod_beta split: hook_outcome.split)

lemma shutdown_loop_fin: "snd (snd (shutdown_loop out fe hs)) \<longleftrightarrow> (\<forall>h \<in> set hs. \<not> hook_cut out h)"
  by (induction hs arbitrary: fe) (auto simp: Let_def case_prod_beta split: hook_outcome.split)

lemma shutdown_loop_first_err: "fst (snd (shutdown_loop out (Some e) hs)) = Some e"
  by (induction hs) (simp_all add: Let_def case_prod_beta split: hook_outcome.split)

lemma shutdown_loop_err:
  "fst (snd (shutdown_loop out None hs))
   = (case dropWhile (\<lambda>h. out h = HookOk) hs of
        [] \<Rightarrow> None
      | h # _ \<Rightarrow> Some (case out h of HookErr e \<Rightarrow> e | _ \<Rightarrow> ''timed out: '' @ hook_Name h))"
  by (induction hs) (simp_all add: Let_def case_prod_beta shutdown_loop_first_err split: hook_outcome.split)

lemma shutdown_loop_err_None: "fst (snd (shutdown_loop out None hs)) = None \<longleftrightarrow> (\<forall>h \<in> set hs. out h = HookOk)"
  by (simp add: shutdown_loop_err list.case_eq_if dropWhile_eq_Nil_conv)

lemma takeWhile_take1_prefix: "\<exists>rest. xs = (takeWhile P xs @ take 1 (dropWhile P xs)) @ rest"
  by (metis append.assoc append_take_drop_id takeWhile_dropWhile_id)

text \<open>
  A shutdown starts the registered hooks in the order of their priorities, each at most once,
  and hooks of lower priority numbers never after later ones; without a context that ends early
  it starts all of them, also after a hook that fails, and publishes its completion; and it
  returns the first error, which is none exactly when every hook succeeded.
\<close>

lemma shutdown_priority_order:
  assumes "sort_Slice_by_priority hooks hs"
  shows "let (run, err, evs) = shutdown_Shutdown out hs in
     sorted (map hook_Priority run) \<and> mset run \<subseteq># mset hooks
     \<and> (\<forall>h \<in> set run. \<forall>h' \<in># mset hooks - mset run. hook_Priority h \<le> hook_Priority h')
     \<and> ((\<forall>h \<in> set hooks. out h \<noteq> HookCtxDone) \<longrightarrow> mset run = mset hooks)
     \<and> (ShutdownCompleted \<in> set evs \<longleftrightarrow> (\<forall>h \<in> set hooks. out h \<noteq> HookCtxDone))
     \<and> (err = None \<longleftrightarrow> (\<forall>h \<in> set hooks. out h = HookOk))"
proof -
  define run where "run = fst (shutdown_loop out None hs)"
  have hs: "mset hs = mset hooks" "sorted (map hook_Priority hs)" "set hs = set hooks"
    using assms by (auto simp: sort_Slice_by_priority_def dest: mset_eq_setD)
  obtain rest where rest: "hs = run @ rest"
    using takeWhile_take1_prefix [of hs "\<lambda>h. \<not> hook_cut out h"] unfolding run_def shutdown_loop_run by blast
  have split: "mset hooks = mset run + mset rest" using hs(1) rest by simp
  have ord: "sorted (map hook_Priority run)" "\<forall>h \<in> set run. \<forall>h' \<in> set rest. hook_Priority h \<le> hook_Priority h'"
    using hs(2) rest by (simp_all add: sorted_append)
  have all: "mset run = mset hooks" if "\<forall>h \<in> set hooks. out h \<noteq> HookCtxDone"
  proof -
    have "run = hs" using that hs(3) by (simp add: run_def shutdown_loop_run takeWhile_eq_all_conv [THEN iffD2])
    then show ?thesis using hs(1) by simp
  qed
  have "shutdown_Shutdown out hs = (run, fst (snd (shutdown_loop out None hs)),
      ShutdownStarted (length hs) # (if snd (snd (shutdown_loop out None hs)) then [ShutdownCompleted] else []))"
    by (simp add: shutdown_Shutdown_def run_def case_prod_beta)
  then show ?thesis
    using ord all split by (simp add: shutdown_loop_err_None shutdown_loop_fin hs(3))
qed

lemma shutdown_priority_order_example:
  "let hooks = shutdown_Register ''db'' 2 2 (shutdown_Register ''http'' 1 1 (shutdown_Register ''log'' 3 3 []));
       hs = shutdown_Register ''log'' 3 3 (shutdown_Register ''db'' 2 2 (shutdown_Register ''http'' 1 1 []))
   in sort_Slice_by_priority hooks hs
      \<and> map hook_Name (fst (shutdown_Shutdown (\<lambda>h. HookErr ''x'') hs)) = [''http'', ''db'', ''log'']
      \<and> mset (fst (shutdown_Shutdown (\<lambda>h. HookErr ''x'') hs)) = mset hooks"
proof -
  let ?hooks = "shutdown_Register ''db'' 2 2 (shutdown_Register ''http'' 1 1 (shutdown_Register ''log'' 3 3 []))"
  let ?hs = "shutdown_Register ''log'' 3 3 (shutdown_Register ''db'' 2 2 (shutdown_Register ''http'' 1 1 []))"
  have s: "sort_Slice_by_priority ?hooks ?hs"
    by (simp add: sort_Slice_by_priority_def shutdown_Register_def add_mset_commute)
  have "map hook_Name (fst (shutdown_Shutdown (\<lambda>h. HookErr ''x'') ?hs)) = [''http'', ''db'', ''log'']"
    by (simp add: shutdown_Shutdown_def shutdown_Register_def Let_def)
  then show ?thesis
    using shutdown_priority_order [OF s, of "\<lambda>h. HookErr ''x''"] s by (simp add: Let_def case_prod_beta)
qed

end
