(* ===== verification/Stream_Client.thy ===== *)
theory Stream_Client
  imports CPIP_Prelude "HOL-Library.Product_Lexorder"
begin

text \<open>
  The command surface of the queue's streams, \<open>queue/redisstream/stream.go\<close>: entry identifiers and
  their order, the arguments of the commands, the interface \<open>Client\<close> as a record of operations, and
  the contract that the queue relies on. The Redis adapter and the in-memory emulator both
  implement the interface; what a client may conclude from the contract alone, above all that
  a consumer group is given every entry exactly once and in order, is proved here for both.
\<close>

section \<open>Entry identifiers\<close>

text \<open>\<open>strconv.ParseUint\<close> and \<open>ParseInt\<close> in base ten for 64 bits, as \<open>parseID\<close> uses them: it drops the
  error and keeps the value, which is 0 on a syntax error and the nearest bound on a range error.\<close>

definition is_digit :: "char \<Rightarrow> bool" where
  "is_digit c \<longleftrightarrow> 48 \<le> (of_char c :: int) \<and> (of_char c :: int) \<le> 57"

definition digit_val :: "char \<Rightarrow> int" where
  "digit_val c = of_char c - 48"

definition maxUint64 :: int where
  "maxUint64 = 2 ^ 64 - 1"

fun ParseUint_loop :: "int \<Rightarrow> string \<Rightarrow> int option" where
  "ParseUint_loop n [] = Some n"
| "ParseUint_loop n (c # cs) =
    (if \<not> is_digit c then None
     else if maxUint64 div 10 + 1 \<le> n then Some maxUint64
     else let n1 = n * 10 + digit_val c
       in if maxUint64 < n1 then Some maxUint64 else ParseUint_loop n1 cs)"

definition ParseUint :: "string \<Rightarrow> int option" where
  "ParseUint s = (if s = [] then None else ParseUint_loop 0 s)"

fun ParseInt :: "string \<Rightarrow> int" where
  "ParseInt [] = 0"
| "ParseInt (c # cs) =
    (let neg = (c = CHR ''-'');
         s = (if c = CHR ''+'' \<or> c = CHR ''-'' then cs else c # cs)
     in case ParseUint s of
          None \<Rightarrow> 0
        | Some un \<Rightarrow>
            if \<not> neg \<and> 2 ^ 63 \<le> un then 2 ^ 63 - 1
            else if neg \<and> 2 ^ 63 < un then - (2 ^ 63)
            else if neg then - un else un)"

definition format_id :: "int \<Rightarrow> int \<Rightarrow> string" where
  "format_id ms sq = dec_int ms @ CHR ''-'' # dec_int sq"

definition parseID :: "string \<Rightarrow> int \<times> int" where
  "parseID i =
    (if CHR ''-'' \<in> set i
     then (ParseInt (takeWhile (\<lambda>c. c \<noteq> CHR ''-'') i), ParseInt (tl (dropWhile (\<lambda>c. c \<noteq> CHR ''-'') i)))
     else (ParseInt i, 0))"

definition idLess :: "string \<Rightarrow> string \<Rightarrow> bool" where
  "idLess a b =
    (let (am, as) = parseID a; (bm, bs) = parseID b
     in if am \<noteq> bm then am < bm else as < bs)"

lemma idLess_iff: "idLess a b \<longleftrightarrow> parseID a < parseID b"
  by (auto simp: idLess_def less_prod_def split: prod.splits)

lemma of_char_digit: "(d :: nat) < 10 \<Longrightarrow> (of_char (char_of (48 + d)) :: int) = 48 + int d"
proof -
  assume d: "d < 10"
  have "(of_char (char_of (48 + d)) :: nat) = 48 + d" using d by (simp add: of_char_of)
  moreover have "(of_char (char_of (48 + d)) :: int) = int (of_char (char_of (48 + d)))" by (rule of_nat_of_char [symmetric])
  ultimately show ?thesis by (simp only: of_nat_add of_nat_numeral)
qed

lemma is_digit_char_of [simp]: "(d :: nat) < 10 \<Longrightarrow> is_digit (char_of (48 + d))"
  by (simp add: is_digit_def of_char_digit)

lemma digit_val_char_of [simp]: "(d :: nat) < 10 \<Longrightarrow> digit_val (char_of (48 + d)) = int d"
  by (simp add: digit_val_def of_char_digit)

lemma dec_nat_digits: "c \<in> set (dec_nat n) \<Longrightarrow> is_digit c"
  by (induction n rule: dec_nat.induct) (subst (asm) (2) dec_nat.simps, auto split: if_splits)

lemma dec_nat_nonempty [simp]: "dec_nat n \<noteq> []"
  by (subst dec_nat.simps) simp

lemma not_digit_sign: "is_digit c \<Longrightarrow> c \<noteq> CHR ''-'' \<and> c \<noteq> CHR ''+''"
  by (auto simp: is_digit_def)

lemma ParseUint_loop_append:
  "ParseUint_loop n xs = Some m \<Longrightarrow> m < maxUint64 \<Longrightarrow> ParseUint_loop n (xs @ ys) = ParseUint_loop m ys"
  by (induction xs arbitrary: n) (auto simp: Let_def split: if_splits)

lemma ParseUint_loop_dec: "int n < maxUint64 \<Longrightarrow> ParseUint_loop 0 (dec_nat n) = Some (int n)"
proof (induction n rule: dec_nat.induct)
  case (1 n)
  show ?case
  proof (cases "n < 10")
    case True
    then show ?thesis by (subst dec_nat.simps) (simp add: maxUint64_def)
  next
    case False
    have n: "int (n div 10) = int n div 10" "int (n mod 10) = int n mod 10" by (simp_all add: zdiv_int zmod_int)
    have "\<not> maxUint64 div 10 + 1 \<le> int n div 10" using 1(2) by (simp add: maxUint64_def)
    then have small: "\<not> maxUint64 div 10 + 1 \<le> int (n div 10)" by (simp only: n(1) not_False_eq_True)
    have dm: "int (n div 10) * 10 + int (n mod 10) = int n" unfolding n by simp
    have lt: "int (n div 10) < maxUint64" using 1(2) unfolding n by linarith
    with 1(1) False have "ParseUint_loop 0 (dec_nat (n div 10)) = Some (int (n div 10))" by blast
    then have "ParseUint_loop 0 (dec_nat (n div 10) @ [char_of (48 + n mod 10)]) = ParseUint_loop (int (n div 10)) [char_of (48 + n mod 10)]"
      using ParseUint_loop_append lt by blast
    also have "\<dots> = Some (int n)"
      using small dm 1(2) unfolding ParseUint_loop.simps Let_def by (simp only: is_digit_char_of digit_val_char_of) simp
    finally show ?thesis using False dec_nat.simps [of n] by simp
  qed
qed

lemma ParseInt_dec: "0 \<le> i \<Longrightarrow> i < 2 ^ 63 \<Longrightarrow> ParseInt (dec_int i) = i"
proof -
  assume i: "0 \<le> i" "i < 2 ^ 63"
  obtain c cs where cs: "dec_nat (nat i) = c # cs" by (cases "dec_nat (nat i)") auto
  have "int (nat i) < maxUint64" using i by (simp add: maxUint64_def)
  then have "ParseUint (c # cs) = Some i" using ParseUint_loop_dec [of "nat i"] cs i by (simp add: ParseUint_def del: ParseUint_loop.simps)
  moreover have "c \<noteq> CHR ''-'' \<and> c \<noteq> CHR ''+''" using dec_nat_digits [of c "nat i"] cs not_digit_sign by simp
  ultimately show ?thesis using i cs by (simp add: dec_int_def)
qed

lemma parseID_format_id:
  assumes "0 \<le> ms" "ms < 2 ^ 63" "0 \<le> sq" "sq < 2 ^ 63"
  shows "parseID (format_id ms sq) = (ms, sq)"
proof -
  have nd: "c \<noteq> CHR ''-''" if "c \<in> set (dec_int ms)" for c
    using that assms(1) dec_nat_digits not_digit_sign by (auto simp: dec_int_def)
  have "takeWhile (\<lambda>c. c \<noteq> CHR ''-'') (format_id ms sq) = dec_int ms"
    "dropWhile (\<lambda>c. c \<noteq> CHR ''-'') (format_id ms sq) = CHR ''-'' # dec_int sq"
    using nd unfolding format_id_def by (simp_all add: takeWhile_append dropWhile_append)
  then show ?thesis using assms by (simp add: parseID_def ParseInt_dec) (simp add: format_id_def)
qed

lemma format_id_zero: "format_id 0 0 = ''0-0''"
  by code_simp

lemma parseID_zero [simp]: "parseID ''0-0'' = (0, 0)"
  using parseID_format_id [of 0 0] by (simp add: format_id_zero)

lemma idLess_irrefl [simp]: "\<not> idLess i i"
  by (simp add: idLess_iff)

lemma idLess_trans: "idLess a b \<Longrightarrow> idLess b c \<Longrightarrow> idLess a c"
  by (simp add: idLess_iff)

lemma idLess_distinct: "sorted_wrt idLess xs \<Longrightarrow> distinct xs"
  by (induction xs) auto

section \<open>The interface\<close>

datatype queue_error =
  ErrInvalidMessage | ErrDeserialize | ErrDuplicateMessage | ErrMessageNotFound | ErrIllegalMessageTransition
| ErrRedisUnavailable | ErrAckFailed | ErrClaimTimeout | ErrGroupExists
| ErrRetryOverflow | ErrDeadLetter
| ErrWorkerNotFound | ErrDuplicateWorker | ErrIllegalWorkerTransition | ErrHeartbeatTimeout
| ErrQueueClosed | ErrNoCapacity | ErrConfig
| ErrContextDone \<comment> \<open>\<open>ctx.Err()\<close>\<close>

type_synonym 'f entry = "string \<times> 'f"

record read_group_args =
  ra_Group :: string
  ra_Consumer :: string
  ra_Stream :: string
  ra_Count :: int
  ra_Block :: duration
  ra_NoAck :: bool

record pending_args =
  pa_Stream :: string
  pa_Group :: string
  pa_Idle :: duration
  pa_Start :: string
  pa_End :: string
  pa_Count :: int
  pa_Consumer :: string

record pending_entry =
  pe_ID :: string
  pe_Consumer :: string
  pe_Idle :: duration
  pe_DeliveryCount :: int

record auto_claim_args =
  ca_Stream :: string
  ca_Group :: string
  ca_Consumer :: string
  ca_MinIdle :: duration
  ca_Start :: string
  ca_Count :: int

record ('c, 'f) stream_ops =
  so_Add :: "time \<Rightarrow> string \<Rightarrow> 'f \<Rightarrow> 'c \<Rightarrow> 'c \<times> (queue_error + string)"
  so_CreateGroup :: "string \<Rightarrow> string \<Rightarrow> string \<Rightarrow> 'c \<Rightarrow> 'c \<times> queue_error option"
  so_ReadGroup :: "(nat \<Rightarrow> time) \<Rightarrow> read_group_args \<Rightarrow> 'c \<Rightarrow> 'c \<times> (queue_error + 'f entry list)"
  so_Ack :: "string \<Rightarrow> string \<Rightarrow> string list \<Rightarrow> 'c \<Rightarrow> 'c \<times> (queue_error + int)"
  so_Pending :: "time \<Rightarrow> pending_args \<Rightarrow> 'c \<Rightarrow> queue_error + pending_entry list"
  so_AutoClaim :: "time \<Rightarrow> auto_claim_args \<Rightarrow> 'c \<Rightarrow> 'c \<times> (queue_error + string \<times> 'f entry list)"
  so_Len :: "string \<Rightarrow> 'c \<Rightarrow> queue_error + nat"
  so_Delete :: "string \<Rightarrow> string list \<Rightarrow> 'c \<Rightarrow> 'c \<times> (queue_error + int)"
  so_Close :: "'c \<Rightarrow> 'c"

section \<open>Runs and their history\<close>

text \<open>
  A history records the entries added, the groups created, the entries that group reads and claims
  handed out, and the acknowledgements and deletions of entries that were handed out or added. The
  condition \<open>room\<close> says that the client still has a fresh identifier to issue.
\<close>

datatype 'f stream_event =
  LAdd string string 'f
| LGroup string string string
| LRead string string bool string
| LClaim string string string
| LAck string string string
| LDel string string

definition log_reads :: "string \<Rightarrow> string \<Rightarrow> 'f stream_event list \<Rightarrow> string list" where
  "log_reads n g l = concat (map (\<lambda>ev. case ev of LRead n' g' b i \<Rightarrow> if n' = n \<and> g' = g then [i] else [] | _ \<Rightarrow> []) l)"

definition log_skipped :: "string \<Rightarrow> string \<Rightarrow> 'f stream_event list \<Rightarrow> string set" where
  "log_skipped n g l = {i. \<exists>l1 l2 f. l = l1 @ LGroup n g ''$'' # l2 \<and> LAdd n i f \<in> set l1}"

inductive stream_run :: "('c, 'f) stream_ops \<Rightarrow> ('c \<Rightarrow> bool) \<Rightarrow> 'c \<Rightarrow> 'c \<Rightarrow> 'f stream_event list \<Rightarrow> bool"
  for ops room c0 where
  run_init: "stream_run ops room c0 c0 []"
| run_add: "stream_run ops room c0 c l \<Longrightarrow> room c \<Longrightarrow> so_Add ops now n f c = (c', Inr i) \<Longrightarrow>
    stream_run ops room c0 c' (l @ [LAdd n i f])"
| run_add_err: "stream_run ops room c0 c l \<Longrightarrow> so_Add ops now n f c = (c', Inl err) \<Longrightarrow> stream_run ops room c0 c' l"
| run_group: "stream_run ops room c0 c l \<Longrightarrow> so_CreateGroup ops n g start c = (c', None) \<Longrightarrow>
    stream_run ops room c0 c' (if \<exists>st. LGroup n g st \<in> set l then l else l @ [LGroup n g start])"
| run_group_err: "stream_run ops room c0 c l \<Longrightarrow> so_CreateGroup ops n g start c = (c', Some err) \<Longrightarrow> stream_run ops room c0 c' l"
| run_read: "stream_run ops room c0 c l \<Longrightarrow> so_ReadGroup ops clk args c = (c', Inr out) \<Longrightarrow>
    stream_run ops room c0 c' (l @ map (\<lambda>(i, f). LRead (ra_Stream args) (ra_Group args) (\<not> ra_NoAck args) i) out)"
| run_read_err: "stream_run ops room c0 c l \<Longrightarrow> so_ReadGroup ops clk args c = (c', Inl err) \<Longrightarrow> stream_run ops room c0 c' l"
| run_ack: "stream_run ops room c0 c l \<Longrightarrow> so_Ack ops n g ids c = (c', Inr k) \<Longrightarrow>
    stream_run ops room c0 c' (l @ map (LAck n g) (filter (\<lambda>i. i \<in> set (log_reads n g l)) ids))"
| run_ack_err: "stream_run ops room c0 c l \<Longrightarrow> so_Ack ops n g ids c = (c', Inl err) \<Longrightarrow> stream_run ops room c0 c' l"
| run_claim: "stream_run ops room c0 c l \<Longrightarrow> so_AutoClaim ops now cargs c = (c', Inr (cur, out)) \<Longrightarrow>
    stream_run ops room c0 c' (l @ map (\<lambda>(i, f). LClaim (ca_Stream cargs) (ca_Group cargs) i) out)"
| run_claim_err: "stream_run ops room c0 c l \<Longrightarrow> so_AutoClaim ops now cargs c = (c', Inl err) \<Longrightarrow> stream_run ops room c0 c' l"
| run_delete: "stream_run ops room c0 c l \<Longrightarrow> so_Delete ops n ids c = (c', Inr k) \<Longrightarrow>
    stream_run ops room c0 c' (l @ map (LDel n) (filter (\<lambda>i. \<exists>f. LAdd n i f \<in> set l) ids))"
| run_delete_err: "stream_run ops room c0 c l \<Longrightarrow> so_Delete ops n ids c = (c', Inl err) \<Longrightarrow> stream_run ops room c0 c' l"
| run_close: "stream_run ops room c0 c l \<Longrightarrow> stream_run ops room c0 (so_Close ops c) l"

lemma log_reads_append [simp]: "log_reads n g (l @ l') = log_reads n g l @ log_reads n g l'"
  by (simp add: log_reads_def)

lemma log_reads_none: "(\<And>b i. LRead n g b i \<notin> set l) \<Longrightarrow> log_reads n g l = []"
  by (force simp: log_reads_def split: stream_event.splits)

lemma log_reads_read: "log_reads n g (map (\<lambda>(i, f). LRead n' g' b i) out) = (if n' = n \<and> g' = g then map fst out else [])"
  by (induction out) (auto simp: log_reads_def)

lemma log_reads_set: "i \<in> set (log_reads n g l) \<longleftrightarrow> (\<exists>b. LRead n g b i \<in> set l)"
  by (force simp: log_reads_def split: stream_event.splits if_splits)

lemma log_skipped_added: "i \<in> log_skipped n g l \<Longrightarrow> \<exists>f. LAdd n i f \<in> set l"
  by (auto simp: log_skipped_def)

lemma log_skipped_append:
  assumes "LGroup n g ''$'' \<notin> set l'"
  shows "log_skipped n g (l @ l') = log_skipped n g l"
proof -
  have "\<exists>l2. l = l1 @ LGroup n g ''$'' # l2" if "l @ l' = l1 @ LGroup n g ''$'' # l3" for l1 l3
    using that assms by (auto simp: append_eq_append_conv2 append_eq_Cons_conv Cons_eq_append_conv)
  then show ?thesis unfolding log_skipped_def by fastforce
qed

lemma log_skipped_group:
  assumes "\<And>st. LGroup n g st \<notin> set l"
  shows "log_skipped n g l = {}" "log_skipped n g (l @ [LGroup n g st]) = (if st = ''$'' then {i. \<exists>f. LAdd n i f \<in> set l} else {})"
proof -
  show "log_skipped n g l = {}" using assms [of "''$''"] by (auto simp: log_skipped_def)
  have "l1 = l \<and> st = ''$''" if "l @ [LGroup n g st] = l1 @ LGroup n g ''$'' # l2" for l1 l2
    using that assms [of "''$''"] by (auto simp: append_eq_append_conv2 append_eq_Cons_conv Cons_eq_append_conv)
  then show "log_skipped n g (l @ [LGroup n g st]) = (if st = ''$'' then {i. \<exists>f. LAdd n i f \<in> set l} else {})"
    unfolding log_skipped_def by (auto 4 3)
qed

section \<open>The contract\<close>

text \<open>
  The contract speaks of what can be observed: the live entries of a stream, the point up to which a
  group has been given entries, the pending list of a group, and the identifiers issued so far.
\<close>

locale stream_client =
  fixes ops :: "('c, 'f) stream_ops"
    and ok :: "'c \<Rightarrow> bool"
    and room :: "'c \<Rightarrow> bool"
    and live :: "'c \<Rightarrow> string \<Rightarrow> string \<Rightarrow> 'f option"
    and mark :: "'c \<Rightarrow> string \<Rightarrow> string \<Rightarrow> string option"
    and pend :: "'c \<Rightarrow> string \<Rightarrow> string \<Rightarrow> string set"
    and issued :: "'c \<Rightarrow> string \<Rightarrow> bool"
  assumes live_issued: "ok c \<Longrightarrow> live c n i \<noteq> None \<Longrightarrow> issued c i"
    and pend_marked: "ok c \<Longrightarrow> i \<in> pend c n g \<Longrightarrow> \<exists>m. mark c n g = Some m \<and> \<not> idLess m i"
    and add_ok: "ok c \<Longrightarrow> room c \<Longrightarrow> so_Add ops now n f c = (c', Inr i) \<Longrightarrow>
      ok c' \<and> \<not> issued c i \<and> issued c' i \<and> (\<forall>j. issued c j \<longrightarrow> issued c' j) \<and> (\<forall>m h k. mark c m h = Some k \<longrightarrow> idLess k i)
      \<and> live c' = (live c)(n := (live c n)(i \<mapsto> f)) \<and> mark c' = mark c \<and> pend c' = pend c"
    and add_err: "ok c \<Longrightarrow> so_Add ops now n f c = (c', Inl err) \<Longrightarrow> c' = c"
    and group_ok: "ok c \<Longrightarrow> so_CreateGroup ops n g start c = (c', None) \<Longrightarrow>
      ok c' \<and> live c' = live c \<and> pend c' = pend c \<and> issued c' = issued c
      \<and> (if mark c n g = None
         then \<exists>m. mark c' = (mark c)(n := (mark c n)(g \<mapsto> m))
           \<and> (\<forall>i. live c n i \<noteq> None \<longrightarrow> (idLess m i \<longleftrightarrow> start \<noteq> ''$''))
         else mark c' = mark c)"
    and group_err: "ok c \<Longrightarrow> so_CreateGroup ops n g start c = (c', Some err) \<Longrightarrow> c' = c"
    and read_ok: "ok c \<Longrightarrow> so_ReadGroup ops clk args c = (c', Inr out) \<Longrightarrow>
      ok c' \<and> live c' = live c \<and> issued c' = issued c
      \<and> pend c' = (if ra_NoAck args then pend c
           else (pend c)(ra_Stream args := (pend c (ra_Stream args))(ra_Group args := pend c (ra_Stream args) (ra_Group args) \<union> fst ` set out)))
      \<and> (\<exists>m m'. mark c (ra_Stream args) (ra_Group args) = Some m
           \<and> mark c' = (mark c)(ra_Stream args := (mark c (ra_Stream args))(ra_Group args \<mapsto> m')) \<and> \<not> idLess m' m
           \<and> sorted_wrt idLess (map fst out)
           \<and> (\<forall>(i, f) \<in> set out. live c (ra_Stream args) i = Some f \<and> idLess m i \<and> \<not> idLess m' i)
           \<and> (\<forall>i. live c (ra_Stream args) i \<noteq> None \<and> idLess m i \<and> \<not> idLess m' i \<longrightarrow> i \<in> fst ` set out)
           \<and> (ra_Count args \<le> 0 \<longrightarrow> (\<forall>i. live c (ra_Stream args) i \<noteq> None \<longrightarrow> \<not> idLess m' i)))"
    and read_err: "ok c \<Longrightarrow> so_ReadGroup ops clk args c = (c', Inl err) \<Longrightarrow> c' = c"
    and ack_ok: "ok c \<Longrightarrow> so_Ack ops n g ids c = (c', Inr k) \<Longrightarrow>
      ok c' \<and> live c' = live c \<and> mark c' = mark c \<and> issued c' = issued c
      \<and> pend c' = (pend c)(n := (pend c n)(g := pend c n g - set ids))"
    and ack_err: "ok c \<Longrightarrow> so_Ack ops n g ids c = (c', Inl err) \<Longrightarrow> c' = c"
    and claim_ok: "ok c \<Longrightarrow> so_AutoClaim ops now cargs c = (c', Inr (cur, out)) \<Longrightarrow>
      ok c' \<and> live c' = live c \<and> mark c' = mark c \<and> issued c' = issued c
      \<and> (\<forall>(i, f) \<in> set out. live c (ca_Stream cargs) i = Some f \<and> i \<in> pend c' (ca_Stream cargs) (ca_Group cargs))
      \<and> (\<forall>n g. pend c' n g \<subseteq> pend c n g) \<and> (\<forall>n g i. i \<in> pend c n g \<and> live c n i \<noteq> None \<longrightarrow> i \<in> pend c' n g)"
    and claim_err: "ok c \<Longrightarrow> so_AutoClaim ops now cargs c = (c', Inl err) \<Longrightarrow> c' = c"
    and delete_ok: "ok c \<Longrightarrow> so_Delete ops n ids c = (c', Inr k) \<Longrightarrow>
      ok c' \<and> live c' = (live c)(n := (\<lambda>i. if i \<in> set ids then None else live c n i))
      \<and> mark c' = mark c \<and> pend c' = pend c \<and> issued c' = issued c"
    and delete_err: "ok c \<Longrightarrow> so_Delete ops n ids c = (c', Inl err) \<Longrightarrow> c' = c"
    and close_ok: "ok c \<Longrightarrow> ok (so_Close ops c) \<and> live (so_Close ops c) = live c \<and> mark (so_Close ops c) = mark c
      \<and> pend (so_Close ops c) = pend c \<and> issued (so_Close ops c) = issued c"
begin

definition entries_inv :: "'c \<Rightarrow> 'f stream_event list \<Rightarrow> bool" where
  "entries_inv c l \<longleftrightarrow> (\<forall>n i f. live c n i = Some f \<longleftrightarrow> LAdd n i f \<in> set l \<and> LDel n i \<notin> set l)
     \<and> (\<forall>n i f. LAdd n i f \<in> set l \<longrightarrow> issued c i) \<and> (\<forall>n i. LDel n i \<in> set l \<longrightarrow> (\<exists>f. LAdd n i f \<in> set l))"

definition groups_inv :: "'c \<Rightarrow> 'f stream_event list \<Rightarrow> bool" where
  "groups_inv c l \<longleftrightarrow> (\<forall>n g. mark c n g = None \<longleftrightarrow> (\<forall>st. LGroup n g st \<notin> set l))
     \<and> (\<forall>n g i. i \<in> set (log_reads n g l) \<longrightarrow> (\<exists>f. LAdd n i f \<in> set l))
     \<and> (\<forall>n g i. i \<in> set (log_reads n g l) \<longrightarrow> (\<exists>m. mark c n g = Some m \<and> \<not> idLess m i))
     \<and> (\<forall>n g. sorted_wrt idLess (log_reads n g l))
     \<and> (\<forall>n g m i. mark c n g = Some m \<longrightarrow> live c n i \<noteq> None \<longrightarrow>
          (if i \<in> log_skipped n g l then \<not> idLess m i \<and> i \<notin> set (log_reads n g l) else i \<in> set (log_reads n g l) \<or> idLess m i))"

lemma groups_invI:
  assumes "\<And>n g. mark c n g = None \<longleftrightarrow> (\<forall>st. LGroup n g st \<notin> set l)"
    "\<And>n g i. i \<in> set (log_reads n g l) \<Longrightarrow> \<exists>f. LAdd n i f \<in> set l"
    "\<And>n g i. i \<in> set (log_reads n g l) \<Longrightarrow> \<exists>m. mark c n g = Some m \<and> \<not> idLess m i"
    "\<And>n g. sorted_wrt idLess (log_reads n g l)"
    "\<And>n g m i. mark c n g = Some m \<Longrightarrow> live c n i \<noteq> None \<Longrightarrow>
      if i \<in> log_skipped n g l then \<not> idLess m i \<and> i \<notin> set (log_reads n g l) else i \<in> set (log_reads n g l) \<or> idLess m i"
  shows "groups_inv c l"
  using assms unfolding groups_inv_def by blast

lemma groups_invD:
  assumes "groups_inv c l"
  shows "mark c n g = None \<longleftrightarrow> (\<forall>st. LGroup n g st \<notin> set l)"
    "i \<in> set (log_reads n g l) \<Longrightarrow> \<exists>f. LAdd n i f \<in> set l"
    "i \<in> set (log_reads n g l) \<Longrightarrow> \<exists>m. mark c n g = Some m \<and> \<not> idLess m i"
    "sorted_wrt idLess (log_reads n g l)"
    "mark c n g = Some m \<Longrightarrow> live c n i \<noteq> None \<Longrightarrow>
      if i \<in> log_skipped n g l then \<not> idLess m i \<and> i \<notin> set (log_reads n g l) else i \<in> set (log_reads n g l) \<or> idLess m i"
  using assms unfolding groups_inv_def by blast+

definition pending_inv :: "'c \<Rightarrow> 'f stream_event list \<Rightarrow> bool" where
  "pending_inv c l \<longleftrightarrow> (\<forall>n g i. LAck n g i \<in> set l \<longrightarrow> i \<in> set (log_reads n g l))
     \<and> (\<forall>n g i. i \<in> pend c n g \<longrightarrow> LRead n g True i \<in> set l \<and> LAck n g i \<notin> set l)
     \<and> (\<forall>n g i. LRead n g True i \<in> set l \<longrightarrow> LAck n g i \<notin> set l \<longrightarrow> live c n i \<noteq> None \<longrightarrow> i \<in> pend c n g)"

lemma pending_invI:
  assumes "\<And>n g i. LAck n g i \<in> set l \<Longrightarrow> i \<in> set (log_reads n g l)"
    "\<And>n g i. i \<in> pend c n g \<Longrightarrow> LRead n g True i \<in> set l \<and> LAck n g i \<notin> set l"
    "\<And>n g i. LRead n g True i \<in> set l \<Longrightarrow> LAck n g i \<notin> set l \<Longrightarrow> live c n i \<noteq> None \<Longrightarrow> i \<in> pend c n g"
  shows "pending_inv c l"
  using assms unfolding pending_inv_def by blast

lemma pending_invD:
  assumes "pending_inv c l"
  shows "LAck n g i \<in> set l \<Longrightarrow> i \<in> set (log_reads n g l)"
    "i \<in> pend c n g \<Longrightarrow> LRead n g True i \<in> set l \<and> LAck n g i \<notin> set l"
    "LRead n g True i \<in> set l \<Longrightarrow> LAck n g i \<notin> set l \<Longrightarrow> live c n i \<noteq> None \<Longrightarrow> i \<in> pend c n g"
  using assms unfolding pending_inv_def by blast+

definition run_inv :: "'c \<Rightarrow> 'f stream_event list \<Rightarrow> bool" where
  "run_inv c l \<longleftrightarrow> ok c \<and> entries_inv c l \<and> groups_inv c l \<and> pending_inv c l"

lemma run_inv_same:
  assumes "run_inv c l" "ok c'" "live c' = live c" "mark c' = mark c" "pend c' = pend c" "issued c' = issued c"
  shows "run_inv c' l"
  using assms(1,2) unfolding run_inv_def entries_inv_def groups_inv_def pending_inv_def assms(3-6) by (intro conjI) (elim conjE; assumption)+

lemma run_inv_add:
  assumes "run_inv c l" "room c" "so_Add ops now n f c = (c', Inr i)"
  shows "run_inv c' (l @ [LAdd n i f])"
proof -
  note inv = assms(1) [unfolded run_inv_def]
  have a: "ok c'" "\<not> issued c i" "issued c' i" "\<And>j. issued c j \<Longrightarrow> issued c' j" "\<And>m h k. mark c m h = Some k \<Longrightarrow> idLess k i"
    "live c' = (live c)(n := (live c n)(i \<mapsto> f))" "mark c' = mark c" "pend c' = pend c"
    using add_ok [OF _ assms(2,3)] inv by auto
  have fresh: "LAdd m i h \<notin> set l" for m h using inv a(2) unfolding entries_inv_def by blast
  have del: "LDel m i \<notin> set l" for m using inv fresh unfolding entries_inv_def by blast
  have "i \<notin> set (log_reads m g l)" for m g using inv fresh unfolding groups_inv_def by blast
  then have nord: "LRead m g b i \<notin> set l" for m g b by (auto simp: log_reads_set)
  have sk: "log_skipped m g (l @ [LAdd n i f]) = log_skipped m g l" "i \<notin> log_skipped m g l" for m g
    using fresh log_skipped_added [of i m g l] by (simp add: log_skipped_append, blast)
  have rd: "log_reads m g (l @ [LAdd n i f]) = log_reads m g l" for m g by (simp add: log_reads_none)
  let ?l = "l @ [LAdd n i f]"
  note G = groups_invD [OF conjunct1 [OF conjunct2 [OF conjunct2 [OF inv]]]]
  note P = pending_invD [OF conjunct2 [OF conjunct2 [OF conjunct2 [OF inv]]]]
  have "entries_inv c' ?l" unfolding entries_inv_def
  proof (intro conjI allI)
    fix k j h show "live c' k j = Some h \<longleftrightarrow> LAdd k j h \<in> set ?l \<and> LDel k j \<notin> set ?l"
    proof (cases "k = n \<and> j = i")
      case True
      then show ?thesis using a(6) fresh del by auto
    next
      case False
      then have "live c' k j = live c k j" using a(6) by auto
      then show ?thesis using False inv unfolding entries_inv_def by auto
    qed
    have "LAdd k j h \<in> set l \<longrightarrow> issued c j" using inv unfolding entries_inv_def by blast
    then show "LAdd k j h \<in> set ?l \<longrightarrow> issued c' j" using a(3,4) by auto
    have "LDel k j \<in> set l \<longrightarrow> (\<exists>f. LAdd k j f \<in> set l)" using inv unfolding entries_inv_def by blast
    then show "LDel k j \<in> set ?l \<longrightarrow> (\<exists>f. LAdd k j f \<in> set ?l)" by auto
  qed
  moreover have "groups_inv c' ?l"
  proof (rule groups_invI, unfold rd sk(1) a(7))
    fix k h
    show "mark c k h = None \<longleftrightarrow> (\<forall>st. LGroup k h st \<notin> set ?l)" using G(1) by simp
    show "sorted_wrt idLess (log_reads k h l)" by (rule G(4))
    fix j m
    { assume j: "j \<in> set (log_reads k h l)"
      show "\<exists>f. LAdd k j f \<in> set ?l" using G(2) [OF j] by auto
      show "\<exists>m. mark c k h = Some m \<and> \<not> idLess m j" using G(3) [OF j] . }
    assume m: "mark c k h = Some m" and j: "live c' k j \<noteq> None"
    show "if j \<in> log_skipped k h l then \<not> idLess m j \<and> j \<notin> set (log_reads k h l) else j \<in> set (log_reads k h l) \<or> idLess m j"
    proof (cases "j = i")
      case True
      then show ?thesis using sk(2) a(5) [OF m] by simp
    next
      case False
      then have "live c k j \<noteq> None" using j a(6) by (auto split: if_splits)
      then show ?thesis by (rule G(5) [OF m])
    qed
  qed
  moreover have "pending_inv c' ?l"
  proof (rule pending_invI, unfold rd a(8))
    fix k h j
    { assume "LAck k h j \<in> set ?l" then show "j \<in> set (log_reads k h l)" using P(1) by simp }
    { assume "j \<in> pend c k h" then show "LRead k h True j \<in> set ?l \<and> LAck k h j \<notin> set ?l" using P(2) by simp }
    assume j: "LRead k h True j \<in> set ?l" "LAck k h j \<notin> set ?l" "live c' k j \<noteq> None"
    then have "j \<noteq> i" using nord by auto
    then have "live c k j \<noteq> None" using j(3) a(6) by (auto split: if_splits)
    then show "j \<in> pend c k h" using j(1,2) P(3) by simp
  qed
  ultimately have "entries_inv c' ?l" "groups_inv c' ?l" "pending_inv c' ?l" by blast+
  then show ?thesis using a(1) by (simp add: run_inv_def)
qed

lemma run_inv_group:
  assumes "run_inv c l" "so_CreateGroup ops n g start c = (c', None)"
  shows "run_inv c' (if \<exists>st. LGroup n g st \<in> set l then l else l @ [LGroup n g start])"
proof -
  note inv = assms(1) [unfolded run_inv_def]
  have a: "ok c'" "live c' = live c" "pend c' = pend c" "issued c' = issued c"
    and mk: "if mark c n g = None
         then \<exists>m. mark c' = (mark c)(n := (mark c n)(g \<mapsto> m)) \<and> (\<forall>i. live c n i \<noteq> None \<longrightarrow> (idLess m i \<longleftrightarrow> start \<noteq> ''$''))
         else mark c' = mark c"
    using group_ok [OF _ assms(2)] inv by auto
  show ?thesis
  proof (cases "\<exists>st. LGroup n g st \<in> set l")
    case True
    then have "mark c n g \<noteq> None" using inv unfolding groups_inv_def by blast
    then have "mark c' = mark c" using mk by simp
    then show ?thesis using run_inv_same [OF assms(1) a(1,2) _ a(3,4)] True by simp
  next
    case False
    then have none: "mark c n g = None" "\<And>st. LGroup n g st \<notin> set l" using inv unfolding groups_inv_def by blast+
    then obtain m where m: "mark c' = (mark c)(n := (mark c n)(g \<mapsto> m))" "\<And>i. live c n i \<noteq> None \<Longrightarrow> idLess m i \<longleftrightarrow> start \<noteq> ''$''"
      using mk by auto
    let ?l = "l @ [LGroup n g start]"
    have rd: "log_reads k h ?l = log_reads k h l" for k h by (simp add: log_reads_none)
    have rn: "log_reads n g l = []" using inv none(1) groups_invD(3) [of c l _ n g] by (cases "log_reads n g l") fastforce+
    have sk: "log_skipped k h ?l = (if k = n \<and> h = g then if start = ''$'' then {i. \<exists>f. LAdd n i f \<in> set l} else {} else log_skipped k h l)" for k h
      using log_skipped_group(2) [OF none(2)] log_skipped_append [of k h "[LGroup n g start]" l] by auto
    have lv: "\<exists>f. LAdd n i f \<in> set l" if "live c n i \<noteq> None" for i using inv that unfolding entries_inv_def by blast
    note G = groups_invD [OF conjunct1 [OF conjunct2 [OF conjunct2 [OF inv]]]]
    have "groups_inv c' ?l"
    proof (rule groups_invI, unfold rd a(2))
      fix k h
      show "mark c' k h = None \<longleftrightarrow> (\<forall>st. LGroup k h st \<notin> set ?l)" unfolding m(1) using G(1) [of k h] by (cases "k = n \<and> h = g") auto
      show "sorted_wrt idLess (log_reads k h l)" by (rule G(4))
      fix i m'
      { assume i: "i \<in> set (log_reads k h l)"
        then show "\<exists>f. LAdd k i f \<in> set ?l" using G(2) [of i k h] by auto
        have "\<not> (k = n \<and> h = g)" using i rn by auto
        then have "mark c' k h = mark c k h" unfolding m(1) by auto
        then show "\<exists>m. mark c' k h = Some m \<and> \<not> idLess m i" using G(3) [OF i] by simp }
      assume m': "mark c' k h = Some m'" and i: "live c k i \<noteq> None"
      show "if i \<in> log_skipped k h ?l then \<not> idLess m' i \<and> i \<notin> set (log_reads k h l) else i \<in> set (log_reads k h l) \<or> idLess m' i"
      proof (cases "k = n \<and> h = g")
        case True
        then have "m' = m" "live c n i \<noteq> None" using m' m(1) i by auto
        then show ?thesis using True m(2) [of i] lv [of i] rn unfolding sk by simp
      next
        case False
        then have "mark c k h = Some m'" using m' unfolding m(1) by (auto split: if_splits)
        moreover have "log_skipped k h ?l = log_skipped k h l" using False unfolding sk by (rule if_not_P)
        ultimately show ?thesis using G(5) [OF _ i] by simp
      qed
    qed
    moreover have "entries_inv c' ?l" using inv unfolding entries_inv_def a by simp
    moreover have "pending_inv c' ?l" using inv unfolding pending_inv_def rd a by simp
    ultimately show ?thesis using a(1) False by (simp add: run_inv_def)
  qed
qed

lemma run_inv_read:
  assumes "run_inv c l" "so_ReadGroup ops clk args c = (c', Inr out)"
  defines "evs \<equiv> map (\<lambda>(i, f). LRead (ra_Stream args) (ra_Group args) (\<not> ra_NoAck args) i) out"
  shows "run_inv c' (l @ evs)"
proof -
  note inv = assms(1) [unfolded run_inv_def]
  define n g where "n = ra_Stream args" and "g = ra_Group args"
  obtain m m' where a: "ok c'" "live c' = live c" "issued c' = issued c"
    and p: "pend c' = (if ra_NoAck args then pend c else (pend c)(n := (pend c n)(g := pend c n g \<union> fst ` set out)))"
    and mk: "mark c n g = Some m" "mark c' = (mark c)(n := (mark c n)(g \<mapsto> m'))" "\<not> idLess m' m"
    and out: "sorted_wrt idLess (map fst out)" "\<forall>(i, f) \<in> set out. live c n i = Some f \<and> idLess m i \<and> \<not> idLess m' i"
      "\<forall>i. live c n i \<noteq> None \<and> idLess m i \<and> \<not> idLess m' i \<longrightarrow> i \<in> fst ` set out"
    using read_ok [OF _ assms(2)] inv unfolding n_def g_def by blast
  have ev: "LRead k h b i \<in> set evs \<longleftrightarrow> k = n \<and> h = g \<and> b = (\<not> ra_NoAck args) \<and> i \<in> fst ` set out" for k h b i
    by (force simp: evs_def n_def g_def)
  have ev': "LAdd k i f \<notin> set evs" "LDel k i \<notin> set evs" "LAck k h i \<notin> set evs" "LGroup k h i \<notin> set evs" for k h i f
    by (auto simp: evs_def)
  have rd: "log_reads k h (l @ evs) = log_reads k h l @ (if k = n \<and> h = g then map fst out else [])" for k h
    unfolding evs_def n_def g_def by (auto simp: log_reads_read)
  have sk: "log_skipped k h (l @ evs) = log_skipped k h l" for k h using ev' by (intro log_skipped_append) simp
  have up: "\<not> idLess m' i" if "\<not> idLess m i" for i
    using that mk(3) by (simp add: idLess_iff)
  have old: "\<not> idLess m i" if "i \<in> set (log_reads n g l)" for i using inv that mk(1) groups_invD(3) [of c l i n g] by auto
  have new: "live c n i \<noteq> None" "idLess m i" "\<not> idLess m' i" "\<exists>f. LAdd n i f \<in> set l" if "i \<in> fst ` set out" for i
    using that out(2) inv unfolding entries_inv_def by fastforce+
  have "entries_inv c' (l @ evs)" using inv ev' unfolding entries_inv_def a by simp
  moreover have "groups_inv c' (l @ evs)"
  proof (rule groups_invI, unfold rd sk a(2))
    note G = groups_invD [OF conjunct1 [OF conjunct2 [OF conjunct2 [OF inv]]]]
    fix k h
    have mk': "mark c' k h = (if k = n \<and> h = g then Some m' else mark c k h)" unfolding mk(2) by simp
    have "\<exists>st. LGroup n g st \<in> set l" using mk(1) G(1) [of n g] by auto
    then show "mark c' k h = None \<longleftrightarrow> (\<forall>st. LGroup k h st \<notin> set (l @ evs))"
      using ev' G(1) [of k h] unfolding mk' by auto
    have "sorted_wrt idLess (log_reads n g l @ map fst out)"
      using out(1) old new(2) G(4) [of n g] unfolding sorted_wrt_append by (fastforce simp: idLess_iff)
    then show "sorted_wrt idLess (log_reads k h l @ (if k = n \<and> h = g then map fst out else []))"
      using G(4) [of k h] by auto
    fix i x
    { assume i: "i \<in> set (log_reads k h l @ (if k = n \<and> h = g then map fst out else []))"
      show "\<exists>f. LAdd k i f \<in> set (l @ evs)"
        using i new(4) [of i] G(2) [of i k h] by (auto split: if_splits)
      show "\<exists>x. mark c' k h = Some x \<and> \<not> idLess x i"
        using i new(3) [of i] up [OF old, of i] G(3) [of i k h] unfolding mk' by (auto split: if_splits) }
    assume x: "mark c' k h = Some x" "live c k i \<noteq> None"
    show "if i \<in> log_skipped k h l
        then \<not> idLess x i \<and> i \<notin> set (log_reads k h l @ (if k = n \<and> h = g then map fst out else []))
        else i \<in> set (log_reads k h l @ (if k = n \<and> h = g then map fst out else [])) \<or> idLess x i"
    proof (cases "k = n \<and> h = g")
      case True
      then have xi: "x = m'" "live c n i \<noteq> None" using x unfolding mk' by auto
      then have o: "if i \<in> log_skipped n g l then \<not> idLess m i \<and> i \<notin> set (log_reads n g l) else i \<in> set (log_reads n g l) \<or> idLess m i"
        using G(5) [OF mk(1)] by blast
      have e: "i \<in> fst ` set out \<longleftrightarrow> idLess m i \<and> \<not> idLess m' i" using out(3) new(2,3) [of i] xi(2) by blast
      show ?thesis unfolding xi(1) using True o e up [of i] by (cases "i \<in> log_skipped n g l") auto
    next
      case False
      then have "mark c k h = Some x" using x(1) unfolding mk' by (simp split: if_splits)
      from G(5) [OF this x(2)] show ?thesis using False by auto
    qed
  qed
  moreover have "pending_inv c' (l @ evs)"
  proof (rule pending_invI, unfold a(2))
    note P = pending_invD [OF conjunct2 [OF conjunct2 [OF conjunct2 [OF inv]]]]
    fix k h i
    have nack: "LAck n g i \<notin> set l" if "i \<in> fst ` set out" using that old new(2) [of i] inv P(1) [of n g i] by blast
    { assume "LAck k h i \<in> set (l @ evs)"
      then show "i \<in> set (log_reads k h (l @ evs))" using inv P(1) [of k h i] ev' by auto }
    { assume i: "i \<in> pend c' k h"
      show "LRead k h True i \<in> set (l @ evs) \<and> LAck k h i \<notin> set (l @ evs)"
      proof (cases "i \<in> pend c k h")
        case True
        then show ?thesis using inv P(2) ev' by simp
      next
        case False
        then have "k = n \<and> h = g \<and> \<not> ra_NoAck args \<and> i \<in> fst ` set out" using i unfolding p by (auto split: if_splits)
        then show ?thesis using ev ev' nack by simp
      qed }
    assume i: "LRead k h True i \<in> set (l @ evs)" "LAck k h i \<notin> set (l @ evs)" "live c k i \<noteq> None"
    show "i \<in> pend c' k h"
    proof (cases "LRead k h True i \<in> set l")
      case True
      then have "i \<in> pend c k h" using inv P(3) i(2,3) by simp
      then show ?thesis unfolding p by auto
    next
      case False
      then show ?thesis using i(1) ev unfolding p by simp
    qed
  qed
  ultimately show ?thesis using a(1) by (simp add: run_inv_def)
qed

text \<open>The steps that neither add, read nor create groups.\<close>

lemma groups_inv_extend:
  assumes "groups_inv c l" "mark c' = mark c" "\<And>n i. live c' n i \<noteq> None \<Longrightarrow> live c n i \<noteq> None"
    "\<And>n g i b. LGroup n g i \<notin> set evs \<and> LRead n g b i \<notin> set evs"
  shows "groups_inv c' (l @ evs)"
proof -
  have rd: "log_reads k h (l @ evs) = log_reads k h l" for k h using assms(4) by (simp add: log_reads_none)
  have sk: "log_skipped k h (l @ evs) = log_skipped k h l" for k h using assms(4) by (intro log_skipped_append) simp
  note G = groups_invD [OF assms(1)]
  show ?thesis
  proof (rule groups_invI, unfold rd sk assms(2))
    fix k h
    show "mark c k h = None \<longleftrightarrow> (\<forall>st. LGroup k h st \<notin> set (l @ evs))" using G(1) assms(4) by simp
    show "sorted_wrt idLess (log_reads k h l)" by (rule G(4))
    fix i m
    { assume i: "i \<in> set (log_reads k h l)"
      show "\<exists>f. LAdd k i f \<in> set (l @ evs)" using G(2) [OF i] by auto
      show "\<exists>m. mark c k h = Some m \<and> \<not> idLess m i" by (rule G(3) [OF i]) }
    assume "mark c k h = Some m" "live c' k i \<noteq> None"
    then show "if i \<in> log_skipped k h l then \<not> idLess m i \<and> i \<notin> set (log_reads k h l) else i \<in> set (log_reads k h l) \<or> idLess m i"
      using G(5) assms(3) by blast
  qed
qed

lemma run_inv_ack:
  assumes "run_inv c l" "so_Ack ops n g ids c = (c', Inr k)"
  defines "evs \<equiv> map (LAck n g) (filter (\<lambda>i. i \<in> set (log_reads n g l)) ids) :: 'f stream_event list"
  shows "run_inv c' (l @ evs)"
proof -
  note inv = assms(1) [unfolded run_inv_def]
  have a: "ok c'" "live c' = live c" "mark c' = mark c" "issued c' = issued c"
    and p: "pend c' = (pend c)(n := (pend c n)(g := pend c n g - set ids))"
    using ack_ok [OF _ assms(2)] inv by auto
  have ev: "LAck k h i \<in> set evs \<longleftrightarrow> k = n \<and> h = g \<and> i \<in> set ids \<and> i \<in> set (log_reads n g l)" for k h i
    by (auto simp: evs_def)
  have ev': "LAdd k i f \<notin> set evs" "LDel k i \<notin> set evs" "LRead k h b i \<notin> set evs" "LGroup k h i \<notin> set evs" for k h i f b
    by (auto simp: evs_def)
  have rd: "log_reads k h (l @ evs) = log_reads k h l" for k h using ev' by (simp add: log_reads_none)
  note P = pending_invD [OF conjunct2 [OF conjunct2 [OF conjunct2 [OF inv]]]]
  have "entries_inv c' (l @ evs)" using inv ev' unfolding entries_inv_def a by simp
  moreover have "groups_inv c' (l @ evs)"
    by (rule groups_inv_extend [of c]) (use inv a ev' in auto)
  moreover have "pending_inv c' (l @ evs)"
  proof (rule pending_invI, unfold rd a)
    fix k h i
    { assume "LAck k h i \<in> set (l @ evs)" then show "i \<in> set (log_reads k h l)" using P(1) ev by auto }
    { assume i: "i \<in> pend c' k h"
      then have "i \<in> pend c k h" "\<not> (k = n \<and> h = g \<and> i \<in> set ids)" unfolding p by (auto split: if_splits)
      then show "LRead k h True i \<in> set (l @ evs) \<and> LAck k h i \<notin> set (l @ evs)" using P(2) ev by auto }
    assume i: "LRead k h True i \<in> set (l @ evs)" "LAck k h i \<notin> set (l @ evs)" "live c k i \<noteq> None"
    then have "i \<in> pend c k h" using P(3) [of k h i] ev' by simp
    moreover have "i \<in> set (log_reads k h l)" using i(1) ev' by (auto simp: log_reads_set)
    ultimately show "i \<in> pend c' k h" using i(2) ev unfolding p by auto
  qed
  ultimately show ?thesis using a(1) by (simp add: run_inv_def)
qed

lemma run_inv_claim:
  assumes "run_inv c l" "so_AutoClaim ops now cargs c = (c', Inr (cur, out))"
  defines "evs \<equiv> map (\<lambda>(i, f). LClaim (ca_Stream cargs) (ca_Group cargs) i) out :: 'f stream_event list"
  shows "run_inv c' (l @ evs)"
proof -
  note inv = assms(1) [unfolded run_inv_def]
  have a: "ok c'" "live c' = live c" "mark c' = mark c" "issued c' = issued c"
    and p: "\<And>n g. pend c' n g \<subseteq> pend c n g" "\<And>n g i. i \<in> pend c n g \<Longrightarrow> live c n i \<noteq> None \<Longrightarrow> i \<in> pend c' n g"
    using claim_ok [OF _ assms(2)] inv by auto
  have ev': "LAdd k i f \<notin> set evs" "LDel k i \<notin> set evs" "LRead k h b i \<notin> set evs" "LGroup k h i \<notin> set evs" "LAck k h i \<notin> set evs" for k h i f b
    by (auto simp: evs_def)
  have rd: "log_reads k h (l @ evs) = log_reads k h l" for k h using ev' by (simp add: log_reads_none)
  note P = pending_invD [OF conjunct2 [OF conjunct2 [OF conjunct2 [OF inv]]]]
  have "entries_inv c' (l @ evs)" using inv ev' unfolding entries_inv_def a by simp
  moreover have "groups_inv c' (l @ evs)"
    by (rule groups_inv_extend [of c]) (use inv a ev' in auto)
  moreover have "pending_inv c' (l @ evs)"
  proof (rule pending_invI, unfold rd a)
    fix k h i
    { assume "LAck k h i \<in> set (l @ evs)" then show "i \<in> set (log_reads k h l)" using P(1) ev' by simp }
    { assume "i \<in> pend c' k h" then show "LRead k h True i \<in> set (l @ evs) \<and> LAck k h i \<notin> set (l @ evs)"
        using P(2) [of i k h] p(1) ev' by auto }
    assume "LRead k h True i \<in> set (l @ evs)" "LAck k h i \<notin> set (l @ evs)" "live c k i \<noteq> None"
    then show "i \<in> pend c' k h" using P(3) [of k h i] p(2) ev' by simp
  qed
  ultimately show ?thesis using a(1) by (simp add: run_inv_def)
qed

lemma run_inv_delete:
  assumes "run_inv c l" "so_Delete ops n ids c = (c', Inr k)"
  defines "evs \<equiv> map (LDel n) (filter (\<lambda>i. \<exists>f. LAdd n i f \<in> set l) ids) :: 'f stream_event list"
  shows "run_inv c' (l @ evs)"
proof -
  note inv = assms(1) [unfolded run_inv_def]
  have a: "ok c'" "live c' = (live c)(n := (\<lambda>i. if i \<in> set ids then None else live c n i))"
      "mark c' = mark c" "pend c' = pend c" "issued c' = issued c"
    using delete_ok [OF _ assms(2)] inv by auto
  have ev: "LDel k i \<in> set evs \<longleftrightarrow> k = n \<and> i \<in> set ids \<and> (\<exists>f. LAdd n i f \<in> set l)" for k i by (auto simp: evs_def)
  have ev': "LAdd k i f \<notin> set evs" "LAck k h i \<notin> set evs" "LRead k h b i \<notin> set evs" "LGroup k h i \<notin> set evs" for k h i f b
    by (auto simp: evs_def)
  have rd: "log_reads k h (l @ evs) = log_reads k h l" for k h using ev' by (simp add: log_reads_none)
  have lv: "live c k i \<noteq> None" if "live c' k i \<noteq> None" for k i using that unfolding a(2) by (auto split: if_splits)
  note P = pending_invD [OF conjunct2 [OF conjunct2 [OF conjunct2 [OF inv]]]]
  have "live c' m i = Some f \<longleftrightarrow> LAdd m i f \<in> set (l @ evs) \<and> LDel m i \<notin> set (l @ evs)" for m i f
  proof -
    have "live c m i = Some f \<longleftrightarrow> LAdd m i f \<in> set l \<and> LDel m i \<notin> set l" using inv unfolding entries_inv_def by blast
    then show ?thesis using ev ev' unfolding a(2) by auto
  qed
  then have "entries_inv c' (l @ evs)" using inv ev ev' unfolding entries_inv_def a(5) by auto
  moreover have "groups_inv c' (l @ evs)"
    by (rule groups_inv_extend [of c]) (use inv a(3) lv ev' in auto)
  moreover have "pending_inv c' (l @ evs)"
    by (rule pending_invI, unfold rd a(4)) (use P(1) ev' in simp, use P(2) ev' in simp, use P(3) lv ev' in simp)
  ultimately show ?thesis using a(1) by (simp add: run_inv_def)
qed

theorem run_inv_run:
  assumes "stream_run ops room c0 c l" "ok c0" "live c0 = (\<lambda>_ _. None)" "mark c0 = (\<lambda>_ _. None)" "pend c0 = (\<lambda>_ _. {})"
  shows "run_inv c l"
  using assms(1)
proof (induction rule: stream_run.induct)
  case run_init
  then show ?case using assms(2-) by (simp add: run_inv_def entries_inv_def groups_inv_def pending_inv_def log_reads_def)
next
  case (run_close c l)
  then show ?case using close_ok [of c] run_inv_same [of c l "so_Close ops c"] by (simp add: run_inv_def)
next
  case (run_add_err c l now n f c' err)
  then show ?case using add_err run_inv_def by blast
next
  case (run_group_err c l n g start c' err)
  then show ?case using group_err run_inv_def by blast
next
  case (run_read_err c l clk args c' err)
  then show ?case using read_err run_inv_def by blast
next
  case (run_ack_err c l n g ids c' err)
  then show ?case using ack_err run_inv_def by blast
next
  case (run_claim_err c l now cargs c' err)
  then show ?case using claim_err run_inv_def by blast
next
  case (run_delete_err c l n ids c' err)
  then show ?case using delete_err run_inv_def by blast
qed (rule run_inv_add run_inv_group run_inv_read run_inv_ack run_inv_claim run_inv_delete; assumption)+

text \<open>A read hands out entries that are live, came after the group was created, and were never read
  before; without a limit it hands out all of them.\<close>

lemma run_inv_read_exact:
  assumes "run_inv c l" "so_ReadGroup ops clk args c = (c', Inr out)"
  defines "fresh \<equiv> {(i, f). live c (ra_Stream args) i = Some f \<and> i \<notin> log_skipped (ra_Stream args) (ra_Group args) l
    \<and> i \<notin> set (log_reads (ra_Stream args) (ra_Group args) l)}"
  shows "set out \<subseteq> fresh \<and> (ra_Count args \<le> 0 \<longrightarrow> fresh \<subseteq> set out)"
proof -
  define n g where "n = ra_Stream args" and "g = ra_Group args"
  have ok: "ok c" and G: "groups_inv c l" using assms(1) by (auto simp: run_inv_def)
  obtain m m' where m: "mark c n g = Some m"
    and o1: "\<forall>(i, f) \<in> set out. live c n i = Some f \<and> idLess m i \<and> \<not> idLess m' i"
    and o2: "\<forall>i. live c n i \<noteq> None \<and> idLess m i \<and> \<not> idLess m' i \<longrightarrow> i \<in> fst ` set out"
    and o3: "ra_Count args \<le> 0 \<longrightarrow> (\<forall>i. live c n i \<noteq> None \<longrightarrow> \<not> idLess m' i)"
    using read_ok [OF ok assms(2)] unfolding n_def g_def by blast
  have mem: "idLess m i \<longleftrightarrow> i \<notin> log_skipped n g l \<and> i \<notin> set (log_reads n g l)" if i: "live c n i \<noteq> None" for i
    using groups_invD(5) [OF G m i] groups_invD(3) [OF G, of i n g] m by (auto split: if_splits)
  have "set out \<subseteq> fresh" using o1 mem unfolding fresh_def n_def [symmetric] g_def [symmetric] by force
  moreover have "fresh \<subseteq> set out" if all: "ra_Count args \<le> 0"
  proof
    fix z assume "z \<in> fresh"
    then obtain i f where z: "z = (i, f)" "live c n i = Some f" "idLess m i"
      using mem unfolding fresh_def n_def [symmetric] g_def [symmetric] by fastforce
    then obtain f' where "(i, f') \<in> set out" using o2 o3 all by fastforce
    moreover from this have "f' = f" using o1 z(2) by fastforce
    ultimately show "z \<in> set out" using z(1) by simp
  qed
  ultimately show ?thesis by blast
qed

end

end
