(* ===== verification/Queue_Stream.thy ===== *)
theory Queue_Stream
  imports Stream_Client
begin

text \<open>
  The in-memory \<open>Emulator\<close> of \<open>queue/redisstream/emulator.go\<close> and that it keeps the contract of
  a stream client.

  The emulator works under one mutex, so every command is one step; only \<open>ReadGroup\<close> gives the
  mutex up while it waits, and it changes nothing before its last round. The entries of a stream
  are shared by the list \<open>entries\<close> and the map \<open>index\<close>: the index holds their positions in
  the list, so that \<open>Delete\<close> marks the entry that both see. What an entry carries is left
  polymorphic; \<open>copyFields\<close> is the identity on values.
\<close>

section \<open>The emulator\<close>

record 'f em_entry =
  ee_id :: string
  ee_fields :: 'f
  ee_deleted :: bool

record em_pending =
  ep_id :: string
  ep_consumer :: string
  ep_deliveredAt :: time
  ep_count :: int

record em_group =
  eg_lastDelivered :: string
  eg_pending :: "(string, em_pending) gomap"

record 'f em_stream =
  es_entries :: "'f em_entry list"
  es_index :: "(string, nat) gomap"
  es_groups :: "(string, em_group) gomap"

record 'f emulator =
  em_streams :: "(string, 'f em_stream) gomap"
  em_ms :: int
  em_seq :: int
  em_closed :: bool

text \<open>\<open>time.Time.UnixMilli\<close>: Go's zero time is 62135596800 seconds before the Unix epoch.\<close>

definition UnixMilli :: "time \<Rightarrow> int" where
  "UnixMilli t = wrap64 ((t - 62135596800 * Second) div Millisecond)"

definition NewEmulator :: "'f emulator" where
  "NewEmulator = \<lparr>em_streams = [], em_ms = 0, em_seq = 0, em_closed = False\<rparr>"

definition es_empty :: "'f em_stream" where
  "es_empty = \<lparr>es_entries = [], es_index = [], es_groups = []\<rparr>"

definition em_getStream :: "string \<Rightarrow> 'f emulator \<Rightarrow> 'f em_stream" where
  "em_getStream name e = (case map_of (em_streams e) name of Some s \<Rightarrow> s | None \<Rightarrow> es_empty)"

definition em_set :: "string \<Rightarrow> 'f em_stream \<Rightarrow> 'f emulator \<Rightarrow> 'f emulator" where
  "em_set name s e = e\<lparr>em_streams := AList.update name s (em_streams e)\<rparr>"

definition em_nextID :: "time \<Rightarrow> 'f emulator \<Rightarrow> 'f emulator \<times> string" where
  "em_nextID now e =
    (let n = UnixMilli now;
         e = (if em_ms e < n then e\<lparr>em_ms := n, em_seq := 0\<rparr> else e\<lparr>em_seq := wrap64 (em_seq e + 1)\<rparr>)
     in (e, format_id (em_ms e) (em_seq e)))"

definition em_Add :: "time \<Rightarrow> string \<Rightarrow> 'f \<Rightarrow> 'f emulator \<Rightarrow> 'f emulator \<times> (queue_error + string)" where
  "em_Add now name f e =
    (if em_closed e then (e, Inl ErrRedisUnavailable)
     else let s = em_getStream name e;
              (e, i) = em_nextID now e;
              s = s\<lparr>es_entries := es_entries s @ [\<lparr>ee_id = i, ee_fields = f, ee_deleted = False\<rparr>],
                    es_index := AList.update i (length (es_entries s)) (es_index s)\<rparr>
          in (em_set name s e, Inr i))"

definition em_CreateGroup :: "string \<Rightarrow> string \<Rightarrow> string \<Rightarrow> 'f emulator \<Rightarrow> 'f emulator \<times> queue_error option" where
  "em_CreateGroup name grp start e =
    (if em_closed e then (e, Some ErrRedisUnavailable)
     else let s = em_getStream name e
          in if gm_has (es_groups s) grp then (em_set name s e, None)
             else let final = (if start = ''$'' \<and> es_entries s \<noteq> [] then ee_id (last (es_entries s)) else ''0-0'')
               in (em_set name (s\<lparr>es_groups := AList.update grp \<lparr>eg_lastDelivered = final, eg_pending = []\<rparr> (es_groups s)\<rparr>) e, None))"

text \<open>The locked section of \<open>ReadGroup\<close>. The clock is read once per delivered entry:
  \<open>now n\<close> is the reading at the \<open>n\<close>-th delivery of the round.\<close>

fun em_read_loop :: "(nat \<Rightarrow> time) \<Rightarrow> read_group_args \<Rightarrow> int \<Rightarrow> 'f em_entry list \<Rightarrow> em_group \<Rightarrow> 'f entry list
    \<Rightarrow> em_group \<times> 'f entry list" where
  "em_read_loop now args n [] g out = (g, out)"
| "em_read_loop now args n (x # xs) g out =
    (if n \<le> int (length out) then (g, out)
     else if ee_deleted x \<or> \<not> idLess (eg_lastDelivered g) (ee_id x) then em_read_loop now args n xs g out
     else let g = g\<lparr>eg_lastDelivered := ee_id x\<rparr>;
              g = (if ra_NoAck args then g
                   else g\<lparr>eg_pending := AList.update (ee_id x)
                       \<lparr>ep_id = ee_id x, ep_consumer = ra_Consumer args, ep_deliveredAt = now (length out), ep_count = 1\<rparr>
                       (eg_pending g)\<rparr>)
          in em_read_loop now args n xs g (out @ [(ee_id x, ee_fields x)]))"

definition em_read_round :: "(nat \<Rightarrow> time) \<Rightarrow> read_group_args \<Rightarrow> 'f emulator \<Rightarrow> 'f emulator \<times> (queue_error + 'f entry list)" where
  "em_read_round now args e =
    (if em_closed e then (e, Inl ErrRedisUnavailable)
     else case map_of (em_streams e) (ra_Stream args) of
       None \<Rightarrow> (e, Inl ErrRedisUnavailable)
     | Some s \<Rightarrow>
         (case map_of (es_groups s) (ra_Group args) of
            None \<Rightarrow> (e, Inl ErrRedisUnavailable)
          | Some g \<Rightarrow>
              let n = (if ra_Count args \<le> 0 then int (length (es_entries s)) else ra_Count args);
                  (g, out) = em_read_loop now args n (es_entries s) g []
              in (em_set (ra_Stream args) (s\<lparr>es_groups := AList.update (ra_Group args) g (es_groups s)\<rparr>) e, Inr out)))"

text \<open>The rounds of a blocking read. After a round that found nothing the call waits, unless it does
  not block or its deadline has passed; each element of \<open>waits\<close> gives what the other clients did to the
  emulator meanwhile, whether the context was cancelled, and the clock for the next round. A read that
  still waits when the list ends has no result.\<close>

fun em_read_wait :: "time \<Rightarrow> read_group_args \<Rightarrow> time \<Rightarrow> (nat \<Rightarrow> time) \<Rightarrow> (('f emulator \<Rightarrow> 'f emulator) \<times> bool \<times> time \<times> (nat \<Rightarrow> time)) list
    \<Rightarrow> 'f emulator \<Rightarrow> ('f emulator \<times> (queue_error + 'f entry list)) option" where
  "em_read_wait deadline args check now waits e =
    (case em_read_round now args e of
       (e, Inl err) \<Rightarrow> Some (e, Inl err)
     | (e, Inr out) \<Rightarrow>
         if out \<noteq> [] \<or> ra_Block args \<le> 0 then Some (e, Inr out)
         else if deadline - check \<le> 0 then Some (e, Inr [])
         else case waits of
           [] \<Rightarrow> None
         | (others, done, check, now) # waits \<Rightarrow>
             if done then Some (others e, Inl ErrContextDone) else em_read_wait deadline args check now waits (others e))"

declare em_read_wait.simps [simp del]

definition em_ReadGroup :: "time \<Rightarrow> read_group_args \<Rightarrow> time \<Rightarrow> (nat \<Rightarrow> time) \<Rightarrow> (('f emulator \<Rightarrow> 'f emulator) \<times> bool \<times> time \<times> (nat \<Rightarrow> time)) list
    \<Rightarrow> 'f emulator \<Rightarrow> ('f emulator \<times> (queue_error + 'f entry list)) option" where
  "em_ReadGroup start args = em_read_wait (start + ra_Block args) args"

text \<open>A blocking read returns by the first round whose clock has reached the deadline.\<close>

lemma em_read_wait_deadline: "deadline \<le> check \<Longrightarrow> em_read_wait deadline args check now waits e \<noteq> None"
  by (subst em_read_wait.simps) (simp split: prod.split sum.split)

lemma em_ReadGroup_returns:
  assumes "\<exists>(others, done, check, now) \<in> set waits. start + ra_Block args \<le> check"
  shows "em_ReadGroup start args check0 now0 waits e \<noteq> None"
  using assms unfolding em_ReadGroup_def
proof (induction waits arbitrary: check0 now0 e)
  case (Cons w waits)
  obtain others "done" check now where w: "w = (others, done, check, now)" by (cases w) auto
  have next': "em_read_wait (start + ra_Block args) args check now waits e' \<noteq> None" for e'
  proof (cases "start + ra_Block args \<le> check")
    case True
    then show ?thesis by (rule em_read_wait_deadline)
  next
    case False
    then show ?thesis using Cons.prems by (intro Cons.IH) (auto simp: w)
  qed
  show ?case by (subst em_read_wait.simps) (use next' in \<open>auto simp: w split: prod.split sum.split\<close>)
qed simp

fun em_ack_loop :: "string list \<Rightarrow> (string, em_pending) gomap \<Rightarrow> int \<Rightarrow> (string, em_pending) gomap \<times> int" where
  "em_ack_loop [] p n = (p, n)"
| "em_ack_loop (i # ids) p n =
    (if gm_has p i then em_ack_loop ids (AList.delete i p) (n + 1) else em_ack_loop ids p n)"

definition em_Ack :: "string \<Rightarrow> string \<Rightarrow> string list \<Rightarrow> 'f emulator \<Rightarrow> 'f emulator \<times> int" where
  "em_Ack name grp ids e =
    (case map_of (em_streams e) name of
       None \<Rightarrow> (e, 0)
     | Some s \<Rightarrow>
         (case map_of (es_groups s) grp of
            None \<Rightarrow> (e, 0)
          | Some g \<Rightarrow>
              let (p, n) = em_ack_loop ids (eg_pending g) 0
              in (em_set name (s\<lparr>es_groups := AList.update grp (g\<lparr>eg_pending := p\<rparr>) (es_groups s)\<rparr>) e, n)))"

definition pending_matches :: "time \<Rightarrow> pending_args \<Rightarrow> em_pending \<Rightarrow> bool" where
  "pending_matches now args p \<longleftrightarrow>
     \<not> now - ep_deliveredAt p < pa_Idle args
   \<and> \<not> (pa_Consumer args \<noteq> [] \<and> ep_consumer p \<noteq> pa_Consumer args)
   \<and> \<not> (pa_Start args \<noteq> [] \<and> pa_Start args \<noteq> ''-'' \<and> idLess (ep_id p) (pa_Start args))
   \<and> \<not> (pa_End args \<noteq> [] \<and> pa_End args \<noteq> ''+'' \<and> idLess (pa_End args) (ep_id p))"

definition em_Pending :: "time \<Rightarrow> pending_args \<Rightarrow> 'f emulator \<Rightarrow> pending_entry list" where
  "em_Pending now args e =
    (case map_of (em_streams e) (pa_Stream args) of
       None \<Rightarrow> []
     | Some s \<Rightarrow>
         (case map_of (es_groups s) (pa_Group args) of
            None \<Rightarrow> []
          | Some g \<Rightarrow>
              let out = map (\<lambda>p. \<lparr>pe_ID = ep_id p, pe_Consumer = ep_consumer p, pe_Idle = now - ep_deliveredAt p,
                                  pe_DeliveryCount = ep_count p\<rparr>)
                          (filter (pending_matches now args) (map snd (eg_pending g)));
                  out = sort_key (\<lambda>p. parseID (pe_ID p)) out
              in if 0 < pa_Count args \<and> pa_Count args < int (length out) then take (nat (pa_Count args)) out else out))"

text \<open>The scan of \<open>AutoClaim\<close> over the sorted identifiers of the pending list.\<close>

definition em_live_entry :: "'f em_stream \<Rightarrow> string \<Rightarrow> 'f em_entry option" where
  "em_live_entry s i =
    (case map_of (es_index s) i of
       None \<Rightarrow> None
     | Some p \<Rightarrow> if ee_deleted (es_entries s ! p) then None else Some (es_entries s ! p))"

fun em_claim_loop :: "time \<Rightarrow> auto_claim_args \<Rightarrow> string \<Rightarrow> int \<Rightarrow> 'f em_stream \<Rightarrow> string list
    \<Rightarrow> (string, em_pending) gomap \<Rightarrow> 'f entry list \<Rightarrow> (string, em_pending) gomap \<times> string \<times> 'f entry list" where
  "em_claim_loop now args start n s [] ps out = (ps, ''0-0'', out)"
| "em_claim_loop now args start n s (i # ids) ps out =
    (if idLess i start then em_claim_loop now args start n s ids ps out
     else case map_of ps i of
       None \<Rightarrow> em_claim_loop now args start n s ids ps out
     | Some p \<Rightarrow>
         if now - ep_deliveredAt p < ca_MinIdle args then em_claim_loop now args start n s ids ps out
         else case em_live_entry s i of
           None \<Rightarrow> em_claim_loop now args start n s ids (AList.delete i ps) out
         | Some x \<Rightarrow>
             if n \<le> int (length out) then (ps, i, out)
             else em_claim_loop now args start n s ids
                 (AList.update i (p\<lparr>ep_consumer := ca_Consumer args, ep_deliveredAt := now, ep_count := ep_count p + 1\<rparr>) ps)
                 (out @ [(i, ee_fields x)]))"

definition em_AutoClaim :: "time \<Rightarrow> auto_claim_args \<Rightarrow> 'f emulator \<Rightarrow> 'f emulator \<times> string \<times> 'f entry list" where
  "em_AutoClaim now args e =
    (case map_of (em_streams e) (ca_Stream args) of
       None \<Rightarrow> (e, ''0-0'', [])
     | Some s \<Rightarrow>
         (case map_of (es_groups s) (ca_Group args) of
            None \<Rightarrow> (e, ''0-0'', [])
          | Some g \<Rightarrow>
              let start = (if ca_Start args = [] then ''0-0'' else ca_Start args);
                  ids = sort_key parseID (map fst (eg_pending g));
                  n = (if ca_Count args \<le> 0 then 100 else ca_Count args);
                  (ps, cursor, out) = em_claim_loop now args start n s ids (eg_pending g) []
              in (em_set (ca_Stream args) (s\<lparr>es_groups := AList.update (ca_Group args) (g\<lparr>eg_pending := ps\<rparr>) (es_groups s)\<rparr>) e,
                  cursor, out)))"

definition em_Len :: "string \<Rightarrow> 'f emulator \<Rightarrow> nat" where
  "em_Len name e =
    (case map_of (em_streams e) name of None \<Rightarrow> 0 | Some s \<Rightarrow> length (filter (\<lambda>x. \<not> ee_deleted x) (es_entries s)))"

fun em_delete_loop :: "string list \<Rightarrow> 'f em_stream \<Rightarrow> int \<Rightarrow> 'f em_stream \<times> int" where
  "em_delete_loop [] s n = (s, n)"
| "em_delete_loop (i # ids) s n =
    (case map_of (es_index s) i of
       None \<Rightarrow> em_delete_loop ids s n
     | Some p \<Rightarrow>
         if ee_deleted (es_entries s ! p) then em_delete_loop ids s n
         else em_delete_loop ids
             (s\<lparr>es_entries := (es_entries s)[p := (es_entries s ! p)\<lparr>ee_deleted := True\<rparr>],
                es_index := AList.delete i (es_index s)\<rparr>) (n + 1))"

definition em_Delete :: "string \<Rightarrow> string list \<Rightarrow> 'f emulator \<Rightarrow> 'f emulator \<times> int" where
  "em_Delete name ids e =
    (case map_of (em_streams e) name of
       None \<Rightarrow> (e, 0)
     | Some s \<Rightarrow> let (s, n) = em_delete_loop ids s 0 in (em_set name s e, n))"

definition em_Close :: "'f emulator \<Rightarrow> 'f emulator" where
  "em_Close e = e\<lparr>em_closed := True\<rparr>"

definition em_PendingCount :: "string \<Rightarrow> string \<Rightarrow> 'f emulator \<Rightarrow> nat" where
  "em_PendingCount name grp e =
    (case map_of (em_streams e) name of
       None \<Rightarrow> 0
     | Some s \<Rightarrow> (case map_of (es_groups s) grp of None \<Rightarrow> 0 | Some g \<Rightarrow> length (eg_pending g)))"

section \<open>Well-formed emulators\<close>

text \<open>An identifier that has been issued is the text of a pair up to the current one, so that
  comparing identifiers compares the pairs.\<close>

definition id_issued :: "int \<times> int \<Rightarrow> string \<Rightarrow> bool" where
  "id_issued b i \<longleftrightarrow> (\<exists>m q. i = format_id m q \<and> 0 \<le> m \<and> m < 2 ^ 63 \<and> 0 \<le> q \<and> q < 2 ^ 63 \<and> (m, q) \<le> b)"

definition eg_ok :: "int \<times> int \<Rightarrow> string set \<Rightarrow> em_group \<Rightarrow> bool" where
  "eg_ok b ids g \<longleftrightarrow> id_issued b (eg_lastDelivered g) \<and> gm_wf (eg_pending g)
     \<and> (\<forall>i p. map_of (eg_pending g) i = Some p \<longrightarrow>
          ep_id p = i \<and> 1 \<le> ep_count p \<and> i \<in> ids \<and> \<not> idLess (eg_lastDelivered g) i)"

definition es_ok :: "int \<times> int \<Rightarrow> 'f em_stream \<Rightarrow> bool" where
  "es_ok b s \<longleftrightarrow> (\<forall>x \<in> set (es_entries s). id_issued b (ee_id x) \<and> idLess ''0-0'' (ee_id x))
     \<and> sorted_wrt idLess (map ee_id (es_entries s))
     \<and> (\<forall>i p. map_of (es_index s) i = Some p \<longleftrightarrow>
          p < length (es_entries s) \<and> ee_id (es_entries s ! p) = i \<and> \<not> ee_deleted (es_entries s ! p))
     \<and> (\<forall>n g. map_of (es_groups s) n = Some g \<longrightarrow> eg_ok b (ee_id ` set (es_entries s)) g)"

definition em_ok :: "'f emulator \<Rightarrow> bool" where
  "em_ok e \<longleftrightarrow> 0 \<le> em_ms e \<and> em_ms e < 2 ^ 63 \<and> 0 \<le> em_seq e \<and> em_seq e < 2 ^ 63
     \<and> (\<forall>n s. map_of (em_streams e) n = Some s \<longrightarrow> es_ok (em_ms e, em_seq e) s)"

lemma id_issued_le: "id_issued b i \<Longrightarrow> parseID i \<le> b"
  by (auto simp: id_issued_def parseID_format_id)

lemma id_issued_mono: "id_issued b i \<Longrightarrow> b \<le> b' \<Longrightarrow> id_issued b' i"
  unfolding id_issued_def using order_trans [of _ b b'] by blast

lemma id_issued_inj: "id_issued b i \<Longrightarrow> id_issued b' j \<Longrightarrow> parseID i = parseID j \<longleftrightarrow> i = j"
  by (auto simp: id_issued_def parseID_format_id)

lemma id_issued_zero [simp]: "0 \<le> m \<Longrightarrow> 0 \<le> q \<Longrightarrow> id_issued (m, q) ''0-0''"
  unfolding id_issued_def using format_id_zero by (intro exI [of _ 0]) (auto simp: less_eq_prod_def)

lemma eg_ok_mono: "eg_ok b ids g \<Longrightarrow> b \<le> b' \<Longrightarrow> ids \<subseteq> ids' \<Longrightarrow> eg_ok b' ids' g"
  unfolding eg_ok_def using id_issued_mono [of b _ b'] by blast

lemma es_ok_mono: "es_ok b s \<Longrightarrow> b \<le> b' \<Longrightarrow> es_ok b' s"
  unfolding es_ok_def using id_issued_mono [of b _ b'] eg_ok_mono [of b _ _ b', OF _ _ order_refl] by blast

lemma es_ok_empty [simp]: "es_ok b es_empty"
  by (simp add: es_ok_def es_empty_def)

lemma em_ok_New: "em_ok NewEmulator"
  by (simp add: em_ok_def NewEmulator_def)

lemma em_ok_getStream: "em_ok e \<Longrightarrow> es_ok (em_ms e, em_seq e) (em_getStream n e)"
  by (auto simp: em_ok_def em_getStream_def split: option.split)

lemma em_ok_set: "em_ok e \<Longrightarrow> es_ok (em_ms e, em_seq e) s \<Longrightarrow> em_ok (em_set n s e)"
  by (auto simp: em_ok_def em_set_def)

lemma em_ok_Close: "em_ok e \<Longrightarrow> em_ok (em_Close e)"
  by (simp add: em_ok_def em_Close_def)

lemma em_set_sel [simp]: "em_ms (em_set n s e) = em_ms e" "em_seq (em_set n s e) = em_seq e"
  "em_closed (em_set n s e) = em_closed e" "map_of (em_streams (em_set n s e)) = (map_of (em_streams e))(n \<mapsto> s)"
  by (simp_all add: em_set_def)

lemma UnixMilli_range: "UnixMilli t < 2 ^ 63"
proof -
  have "sint (w :: 64 word) < 2 ^ 63" for w using sint_lt [of w] by simp
  then show ?thesis unfolding UnixMilli_def wrap64_def .
qed

lemma em_nextID_ok:
  assumes "em_ok e" "em_seq e < 2 ^ 63 - 1" "em_nextID now e = (e', i)"
  shows "em_ok e' \<and> (em_ms e, em_seq e) < (em_ms e', em_seq e') \<and> i = format_id (em_ms e') (em_seq e')
    \<and> em_streams e' = em_streams e \<and> em_closed e' = em_closed e"
proof -
  have w: "wrap64 (em_seq e + 1) = em_seq e + 1" using assms(1,2) by (intro wrap64_small) (auto simp: em_ok_def)
  have lt: "(em_ms e, em_seq e) < (em_ms e', em_seq e')"
    using assms(3) w by (auto simp: em_nextID_def Let_def split: if_splits)
  have "em_streams e' = em_streams e" "em_closed e' = em_closed e" "i = format_id (em_ms e') (em_seq e')"
    using assms(3) by (auto simp: em_nextID_def Let_def split: if_splits)
  moreover have "em_ok e'"
  proof -
    have "es_ok (em_ms e', em_seq e') s" if "map_of (em_streams e') n = Some s" for n s
    proof -
      have "es_ok (em_ms e, em_seq e) s" using that assms(1) calculation(1) by (auto simp: em_ok_def)
      then show ?thesis using es_ok_mono less_imp_le [OF lt] by blast
    qed
    moreover have "0 \<le> em_ms e' \<and> em_ms e' < 2 ^ 63 \<and> 0 \<le> em_seq e' \<and> em_seq e' < 2 ^ 63"
      using assms w UnixMilli_range [of now] by (auto simp: em_ok_def em_nextID_def Let_def split: if_splits)
    ultimately show ?thesis by (simp add: em_ok_def)
  qed
  ultimately show ?thesis using lt by simp
qed

text \<open>What a client sees of a stream: its live entries, the entries a group has not been given yet, in
  order, and the pending list of the group.\<close>

definition es_live :: "'f em_stream \<Rightarrow> string \<Rightarrow> 'f option" where
  "es_live s i = map_option ee_fields (em_live_entry s i)"

definition es_todo :: "'f em_stream \<Rightarrow> string \<Rightarrow> 'f em_entry list" where
  "es_todo s final = filter (\<lambda>x. \<not> ee_deleted x \<and> idLess final (ee_id x)) (es_entries s)"

lemma es_ok_index: "es_ok b s \<Longrightarrow> map_of (es_index s) i = Some p \<longleftrightarrow>
    p < length (es_entries s) \<and> ee_id (es_entries s ! p) = i \<and> \<not> ee_deleted (es_entries s ! p)"
  by (simp add: es_ok_def)

lemma em_live_entry_iff:
  "es_ok b s \<Longrightarrow> em_live_entry s i = Some x \<longleftrightarrow> x \<in> set (es_entries s) \<and> ee_id x = i \<and> \<not> ee_deleted x"
proof
  assume ok: "es_ok b s"
  { assume "em_live_entry s i = Some x"
    with ok show "x \<in> set (es_entries s) \<and> ee_id x = i \<and> \<not> ee_deleted x"
      by (auto simp: em_live_entry_def es_ok_index split: option.splits if_splits) }
  assume x: "x \<in> set (es_entries s) \<and> ee_id x = i \<and> \<not> ee_deleted x"
  then obtain p where "p < length (es_entries s)" "es_entries s ! p = x" by (auto simp: in_set_conv_nth)
  with x have "map_of (es_index s) i = Some p" using ok by (simp add: es_ok_index)
  with x \<open>es_entries s ! p = x\<close> show "em_live_entry s i = Some x" by (simp add: em_live_entry_def)
qed

lemma es_live_iff:
  "es_ok b s \<Longrightarrow> es_live s i = Some f \<longleftrightarrow> (\<exists>x \<in> set (es_entries s). ee_id x = i \<and> \<not> ee_deleted x \<and> ee_fields x = f)"
  by (auto simp: es_live_def em_live_entry_iff)

lemma es_ok_append:
  assumes ok: "es_ok b s" and lt: "b < b'" and i: "id_issued b' i" "parseID i = b'" and pos: "(0, 0) < b'"
  shows "es_ok b' (s\<lparr>es_entries := es_entries s @ [\<lparr>ee_id = i, ee_fields = f, ee_deleted = False\<rparr>],
                    es_index := AList.update i (length (es_entries s)) (es_index s)\<rparr>)" (is "es_ok b' ?s")
    and "i \<notin> ee_id ` set (es_entries s)"
proof -
  have less: "idLess (ee_id x) i" if "x \<in> set (es_entries s)" for x
  proof -
    have "parseID (ee_id x) \<le> b" using ok that id_issued_le by (auto simp only: es_ok_def)
    with lt i(2) show ?thesis by (simp only: idLess_iff)
  qed
  then show fresh: "i \<notin> ee_id ` set (es_entries s)" using idLess_irrefl by blast
  have "\<forall>x \<in> set (es_entries ?s). id_issued b' (ee_id x) \<and> idLess ''0-0'' (ee_id x)"
    using ok i pos id_issued_mono [OF _ less_imp_le [OF lt]] by (auto simp: es_ok_def idLess_iff)
  moreover have "sorted_wrt idLess (map ee_id (es_entries ?s))"
    using ok less by (auto simp: es_ok_def sorted_wrt_append)
  moreover have "map_of (es_index ?s) j = Some p \<longleftrightarrow>
      p < length (es_entries ?s) \<and> ee_id (es_entries ?s ! p) = j \<and> \<not> ee_deleted (es_entries ?s ! p)" for j p
  proof (cases "j = i")
    case True
    have "ee_id (es_entries s ! p) \<noteq> i" if "p < length (es_entries s)" using that fresh nth_mem by fastforce
    with True show ?thesis by (auto simp: nth_append less_Suc_eq)
  next
    case False
    then show ?thesis using es_ok_index [OF ok, of j p] by (auto simp: nth_append less_Suc_eq)
  qed
  moreover have "eg_ok b' (ee_id ` set (es_entries ?s)) g" if "map_of (es_groups ?s) n = Some g" for n g
  proof -
    have "eg_ok b (ee_id ` set (es_entries s)) g" using ok that by (simp add: es_ok_def)
    then show ?thesis by (rule eg_ok_mono) (use lt in auto)
  qed
  ultimately show "es_ok b' ?s" by (simp add: es_ok_def)
qed

lemma es_ok_groups:
  "es_ok b s \<Longrightarrow> eg_ok b (ee_id ` set (es_entries s)) g \<Longrightarrow> es_ok b (s\<lparr>es_groups := AList.update n g (es_groups s)\<rparr>)"
  by (auto simp: es_ok_def)

lemma em_Add_ok:
  assumes "em_ok e" "em_seq e < 2 ^ 63 - 1" "em_Add now n f e = (e', r)"
  shows "em_ok e'"
proof (cases "em_closed e")
  case True
  then show ?thesis using assms by (simp add: em_Add_def)
next
  case False
  obtain e1 i where e1: "em_nextID now e = (e1, i)" by fastforce
  note nx = em_nextID_ok [OF assms(1,2) e1]
  have "id_issued (em_ms e1, em_seq e1) i" "parseID i = (em_ms e1, em_seq e1)"
    using nx by (auto simp: id_issued_def em_ok_def parseID_format_id)
  moreover have "(0, 0) < (em_ms e1, em_seq e1)" using nx assms(1) by (auto simp: em_ok_def)
  ultimately show ?thesis
    using es_ok_append(1) [OF em_ok_getStream [OF assms(1)], of "(em_ms e1, em_seq e1)" i n f] nx assms(3) False e1
    by (auto simp: em_Add_def Let_def intro: em_ok_set)
qed

lemma em_CreateGroup_ok: "em_ok e \<Longrightarrow> em_ok (fst (em_CreateGroup n g st e))"
proof -
  assume ok: "em_ok e"
  let ?s = "em_getStream n e" and ?b = "(em_ms e, em_seq e)"
  have s: "es_ok ?b ?s" using em_ok_getStream [OF ok] .
  define final where "final = (if st = ''$'' \<and> es_entries ?s \<noteq> [] then ee_id (last (es_entries ?s)) else ''0-0'')"
  have "id_issued ?b final" using s ok by (auto simp: final_def es_ok_def em_ok_def)
  then have "eg_ok ?b (ee_id ` set (es_entries ?s)) \<lparr>eg_lastDelivered = final, eg_pending = []\<rparr>" by (simp add: eg_ok_def)
  from es_ok_groups [OF s this] s ok show ?thesis
    by (auto simp: em_CreateGroup_def Let_def final_def intro: em_ok_set)
qed

text \<open>A read round gives the first entries the group has not been given, in stream order, and files
  each of them as pending.\<close>

definition delivered :: "'f em_entry list \<Rightarrow> 'f entry list" where
  "delivered xs = map (\<lambda>x. (ee_id x, ee_fields x)) xs"

lemma em_read_loop_spec:
  fixes xs :: "'f em_entry list"
  assumes "sorted_wrt idLess (map ee_id xs)" "em_read_loop now args n xs g out = (g', out')"
  defines "ys \<equiv> take (nat (n - int (length out))) (filter (\<lambda>x. \<not> ee_deleted x \<and> idLess (eg_lastDelivered g) (ee_id x)) xs)"
  shows "out' = out @ delivered ys"
    and "eg_lastDelivered g' = (if ys = [] then eg_lastDelivered g else ee_id (last ys))"
    and "ra_NoAck args \<or> i \<notin> ee_id ` set ys \<Longrightarrow> map_of (eg_pending g') i = map_of (eg_pending g) i"
    and "\<not> ra_NoAck args \<Longrightarrow> i \<in> ee_id ` set ys \<Longrightarrow>
      \<exists>t. map_of (eg_pending g') i = Some \<lparr>ep_id = i, ep_consumer = ra_Consumer args, ep_deliveredAt = t, ep_count = 1\<rparr>"
    and "gm_wf (eg_pending g) \<Longrightarrow> gm_wf (eg_pending g')"
proof -
  have "out' = out @ delivered ys
    \<and> eg_lastDelivered g' = (if ys = [] then eg_lastDelivered g else ee_id (last ys))
    \<and> (ra_NoAck args \<or> i \<notin> ee_id ` set ys \<longrightarrow> map_of (eg_pending g') i = map_of (eg_pending g) i)
    \<and> (\<not> ra_NoAck args \<and> i \<in> ee_id ` set ys \<longrightarrow>
        (\<exists>t. map_of (eg_pending g') i = Some \<lparr>ep_id = i, ep_consumer = ra_Consumer args, ep_deliveredAt = t, ep_count = 1\<rparr>))
    \<and> (gm_wf (eg_pending g) \<longrightarrow> gm_wf (eg_pending g'))" for i
    using assms(1,2) unfolding ys_def
  proof (induction xs arbitrary: g out)
    case (Cons x xs)
    consider (full) "n \<le> int (length out)" | (skip) "\<not> n \<le> int (length out)" "ee_deleted x \<or> \<not> idLess (eg_lastDelivered g) (ee_id x)"
      | (take) "\<not> (n \<le> int (length out) \<or> ee_deleted x \<or> \<not> idLess (eg_lastDelivered g) (ee_id x))" by blast
    then show ?case
    proof cases
      case full
      then show ?thesis using Cons.prems by (simp add: delivered_def)
    next
      case skip
      then have step: "em_read_loop now args n xs g out = (g', out')" using Cons.prems(2) by (simp split: if_splits)
      have srt: "sorted_wrt idLess (map ee_id xs)" using Cons.prems(1) by simp
      have flt: "filter (\<lambda>x. \<not> ee_deleted x \<and> idLess (eg_lastDelivered g) (ee_id x)) (x # xs)
        = filter (\<lambda>x. \<not> ee_deleted x \<and> idLess (eg_lastDelivered g) (ee_id x)) xs" using skip(2) by auto
      show ?thesis unfolding flt by (rule Cons.IH [OF srt step])
    next
      case False: take
      define h where "h = (let g = g\<lparr>eg_lastDelivered := ee_id x\<rparr> in if ra_NoAck args then g
        else g\<lparr>eg_pending := AList.update (ee_id x) \<lparr>ep_id = ee_id x, ep_consumer = ra_Consumer args,
                 ep_deliveredAt = now (length out), ep_count = 1\<rparr> (eg_pending g)\<rparr>)"
      define zs where "zs = take (nat (n - int (length (out @ [(ee_id x, ee_fields x)]))))
        (filter (\<lambda>y. \<not> ee_deleted y \<and> idLess (eg_lastDelivered h) (ee_id y)) xs)"
      have hl: "eg_lastDelivered h = ee_id x" by (simp add: h_def Let_def)
      have hp: "map_of (eg_pending h) j = (if \<not> ra_NoAck args \<and> j = ee_id x then Some \<lparr>ep_id = ee_id x, ep_consumer = ra_Consumer args,
          ep_deliveredAt = now (length out), ep_count = 1\<rparr> else map_of (eg_pending g) j)" for j
        by (simp add: h_def Let_def)
      have hw: "gm_wf (eg_pending g) \<longrightarrow> gm_wf (eg_pending h)" by (simp add: h_def Let_def)
      have step: "em_read_loop now args n xs h (out @ [(ee_id x, ee_fields x)]) = (g', out')"
        using False Cons.prems(2) by (simp add: h_def Let_def)
      have after: "idLess (ee_id x) (ee_id y)" if "y \<in> set xs" for y using Cons.prems(1) that by simp
      have flt: "filter (\<lambda>y. \<not> ee_deleted y \<and> idLess (eg_lastDelivered h) (ee_id y)) xs
        = filter (\<lambda>y. \<not> ee_deleted y \<and> idLess (eg_lastDelivered g) (ee_id y)) xs"
        using after False idLess_trans by (intro filter_cong) (auto simp: hl)
      have n: "nat (n - int (length out)) = Suc (nat (n - int (length (out @ [(ee_id x, ee_fields x)]))))" using False by auto
      have ys: "take (nat (n - int (length out))) (filter (\<lambda>x. \<not> ee_deleted x \<and> idLess (eg_lastDelivered g) (ee_id x)) (x # xs)) = x # zs"
        using False unfolding n zs_def flt by simp
      have "ee_id y \<noteq> ee_id x" if "y \<in> set zs" for y
        using that after [of y] set_take_subset unfolding zs_def by fastforce
      then have xz: "ee_id x \<notin> ee_id ` set zs" by fastforce
      have srt: "sorted_wrt idLess (map ee_id xs)" using Cons.prems(1) by simp
      have ih: "out' = (out @ [(ee_id x, ee_fields x)]) @ delivered zs
        \<and> eg_lastDelivered g' = (if zs = [] then eg_lastDelivered h else ee_id (last zs))
        \<and> (ra_NoAck args \<or> i \<notin> ee_id ` set zs \<longrightarrow> map_of (eg_pending g') i = map_of (eg_pending h) i)
        \<and> (\<not> ra_NoAck args \<and> i \<in> ee_id ` set zs \<longrightarrow>
            (\<exists>t. map_of (eg_pending g') i = Some \<lparr>ep_id = i, ep_consumer = ra_Consumer args, ep_deliveredAt = t, ep_count = 1\<rparr>))
        \<and> (gm_wf (eg_pending h) \<longrightarrow> gm_wf (eg_pending g'))"
        unfolding zs_def by (rule Cons.IH [OF srt step])
      show ?thesis unfolding ys using ih hl hp [of i] hw xz
        by (intro conjI impI) (simp_all add: delivered_def, metis+)
    qed
  qed (simp add: delivered_def)
  then show "out' = out @ delivered ys"
    "eg_lastDelivered g' = (if ys = [] then eg_lastDelivered g else ee_id (last ys))"
    "ra_NoAck args \<or> i \<notin> ee_id ` set ys \<Longrightarrow> map_of (eg_pending g') i = map_of (eg_pending g) i"
    "\<not> ra_NoAck args \<Longrightarrow> i \<in> ee_id ` set ys \<Longrightarrow>
      \<exists>t. map_of (eg_pending g') i = Some \<lparr>ep_id = i, ep_consumer = ra_Consumer args, ep_deliveredAt = t, ep_count = 1\<rparr>"
    "gm_wf (eg_pending g) \<Longrightarrow> gm_wf (eg_pending g')"
    by blast+
qed

lemma em_ack_loop_spec:
  "em_ack_loop ids p n = (p', n') \<Longrightarrow> map_of p' = (\<lambda>i. if i \<in> set ids then None else map_of p i)"
  "em_ack_loop ids p n = (p', n') \<Longrightarrow> gm_wf p \<Longrightarrow> gm_wf p'"
  by (induction ids p n rule: em_ack_loop.induct)
    (auto simp: fun_eq_iff gm_has_def split: if_splits)

text \<open>A claim scan hands over entries that are pending, live and idle, and drops from the pending list
  only entries that are no longer live.\<close>

definition claimable :: "time \<Rightarrow> auto_claim_args \<Rightarrow> 'f em_stream \<Rightarrow> (string, em_pending) gomap \<Rightarrow> string \<Rightarrow> bool" where
  "claimable now args s ps i \<longleftrightarrow>
     (\<exists>p. map_of ps i = Some p \<and> ca_MinIdle args \<le> now - ep_deliveredAt p) \<and> em_live_entry s i \<noteq> None"

definition claim_frame :: "time \<Rightarrow> auto_claim_args \<Rightarrow> 'f em_stream \<Rightarrow> string set \<Rightarrow> (string, em_pending) gomap \<Rightarrow> (string, em_pending) gomap \<Rightarrow> bool" where
  "claim_frame now args s Z ps ps' \<longleftrightarrow>
    (\<forall>i. case map_of ps i of
       None \<Rightarrow> map_of ps' i = None
     | Some p \<Rightarrow>
         if i \<in> Z
         then map_of ps' i = Some (p\<lparr>ep_consumer := ca_Consumer args, ep_deliveredAt := now, ep_count := ep_count p + 1\<rparr>)
         else map_of ps' i = Some p \<or> map_of ps' i = None \<and> em_live_entry s i = None)"

definition claimed_ok :: "time \<Rightarrow> auto_claim_args \<Rightarrow> string \<Rightarrow> 'f em_stream \<Rightarrow> string set \<Rightarrow> (string, em_pending) gomap \<Rightarrow> 'f entry list \<Rightarrow> bool" where
  "claimed_ok now args start s ids ps zs \<longleftrightarrow> distinct (map fst zs)
     \<and> (\<forall>(i, f) \<in> set zs. i \<in> ids \<and> \<not> idLess i start \<and> es_live s i = Some f \<and> claimable now args s ps i)"

lemma claim_frame_refl: "claim_frame now args s {} ps ps"
  by (simp add: claim_frame_def split: option.split)

lemma claim_frame_drop:
  assumes "claim_frame now args s Z (AList.delete i ps) ps'" "em_live_entry s i = None" "i \<notin> Z"
  shows "claim_frame now args s Z ps ps'"
  unfolding claim_frame_def
proof
  fix j
  show "case map_of ps j of None \<Rightarrow> map_of ps' j = None
     | Some p \<Rightarrow> if j \<in> Z
         then map_of ps' j = Some (p\<lparr>ep_consumer := ca_Consumer args, ep_deliveredAt := now, ep_count := ep_count p + 1\<rparr>)
         else map_of ps' j = Some p \<or> map_of ps' j = None \<and> em_live_entry s j = None"
    using assms unfolding claim_frame_def by (cases "j = i") (auto split: option.splits dest: spec [of _ j])
qed

lemma claim_frame_claim:
  assumes "claim_frame now args s Z (AList.update i (p\<lparr>ep_consumer := ca_Consumer args, ep_deliveredAt := now, ep_count := ep_count p + 1\<rparr>) ps) ps'"
    "map_of ps i = Some p" "i \<notin> Z" "em_live_entry s i \<noteq> None"
  shows "claim_frame now args s (insert i Z) ps ps'"
  unfolding claim_frame_def
proof
  fix j
  show "case map_of ps j of None \<Rightarrow> map_of ps' j = None
     | Some p \<Rightarrow> if j \<in> insert i Z
         then map_of ps' j = Some (p\<lparr>ep_consumer := ca_Consumer args, ep_deliveredAt := now, ep_count := ep_count p + 1\<rparr>)
         else map_of ps' j = Some p \<or> map_of ps' j = None \<and> em_live_entry s j = None"
    using assms unfolding claim_frame_def by (cases "j = i") (auto split: option.splits dest: spec [of _ j])
qed

lemma claimed_ok_weaken:
  assumes "claimed_ok now args start s ids ps zs" "ids \<subseteq> ids'" "\<And>j. j \<in> ids \<Longrightarrow> map_of ps j = map_of ps' j"
  shows "claimed_ok now args start s ids' ps' zs"
  using assms unfolding claimed_ok_def claimable_def by fastforce

lemma em_claim_loop_spec:
  assumes "em_claim_loop now args start n s ids ps out = (ps', c, out')" "distinct ids" "gm_wf ps"
  shows "\<exists>zs. out' = out @ zs \<and> claimed_ok now args start s (set ids) ps zs
    \<and> claim_frame now args s (fst ` set zs) ps ps' \<and> gm_wf ps' \<and> length out' \<le> max (length out) (nat n)"
  using assms
proof (induction ids arbitrary: ps out)
  case Nil
  then show ?case by (auto simp: claimed_ok_def claim_frame_refl)
next
  case (Cons i ids)
  note wf = Cons.prems(3) and d = Cons.prems(2)
  consider (skip) "em_claim_loop now args start n s ids ps out = (ps', c, out')"
    | (drop) p where "map_of ps i = Some p" "em_live_entry s i = None"
        "em_claim_loop now args start n s ids (AList.delete i ps) out = (ps', c, out')"
    | (stop) "ps' = ps" "out' = out"
    | (claim) p x where "\<not> idLess i start" "map_of ps i = Some p" "\<not> now - ep_deliveredAt p < ca_MinIdle args" "em_live_entry s i = Some x"
        "\<not> n \<le> int (length out)"
        "em_claim_loop now args start n s ids (AList.update i (p\<lparr>ep_consumer := ca_Consumer args, ep_deliveredAt := now, ep_count := ep_count p + 1\<rparr>) ps)
          (out @ [(i, ee_fields x)]) = (ps', c, out')"
    using Cons.prems(1) by (auto split: if_splits option.splits)
  then show ?case
  proof cases
    case skip
    from Cons.IH [OF this _ wf] d obtain zs where "out' = out @ zs" "claimed_ok now args start s (set ids) ps zs"
      "claim_frame now args s (fst ` set zs) ps ps'" "gm_wf ps'" "length out' \<le> max (length out) (nat n)" by auto
    then show ?thesis using claimed_ok_weaken [of now args start s "set ids" ps zs "set (i # ids)" ps] by auto
  next
    case drop
    from Cons.IH [OF drop(3)] d wf obtain zs where zs: "out' = out @ zs" "claimed_ok now args start s (set ids) (AList.delete i ps) zs"
      "claim_frame now args s (fst ` set zs) (AList.delete i ps) ps'" "gm_wf ps'" "length out' \<le> max (length out) (nat n)" by auto
    have "i \<notin> fst ` set zs" using zs(2) d by (auto simp: claimed_ok_def)
    moreover have "claimed_ok now args start s (set (i # ids)) ps zs"
      by (rule claimed_ok_weaken [OF zs(2)]) (use d in auto)
    ultimately show ?thesis using zs claim_frame_drop [OF zs(3) drop(2)] by blast
  next
    case stop
    then show ?thesis using wf by (auto simp: claimed_ok_def claim_frame_refl)
  next
    case claim
    from Cons.IH [OF claim(6)] d wf obtain zs where zs: "out' = (out @ [(i, ee_fields x)]) @ zs"
      "claimed_ok now args start s (set ids) (AList.update i (p\<lparr>ep_consumer := ca_Consumer args, ep_deliveredAt := now, ep_count := ep_count p + 1\<rparr>) ps) zs"
      "claim_frame now args s (fst ` set zs) (AList.update i (p\<lparr>ep_consumer := ca_Consumer args, ep_deliveredAt := now, ep_count := ep_count p + 1\<rparr>) ps) ps'"
      "gm_wf ps'" "length out' \<le> max (length (out @ [(i, ee_fields x)])) (nat n)" by auto
    have iz: "i \<notin> fst ` set zs" using zs(2) d by (auto simp: claimed_ok_def)
    have "claimed_ok now args start s (set (i # ids)) ps zs"
      by (rule claimed_ok_weaken [OF zs(2)]) (use d in auto)
    then have "claimed_ok now args start s (set (i # ids)) ps ((i, ee_fields x) # zs)"
      using claim iz by (auto simp: claimed_ok_def claimable_def es_live_def)
    moreover have "claim_frame now args s (fst ` set ((i, ee_fields x) # zs)) ps ps'"
      using claim_frame_claim [OF zs(3) claim(2) iz] claim(4) by simp
    moreover have "length out' \<le> max (length out) (nat n)" using zs(5) claim(5) by (auto simp: max_def split: if_splits)
    ultimately show ?thesis using zs(1,4) by (intro exI [of _ "(i, ee_fields x) # zs"]) simp
  qed
qed

lemma em_delete_one:
  assumes ok: "es_ok b s" and p: "map_of (es_index s) i = Some p"
  defines "s' \<equiv> s\<lparr>es_entries := (es_entries s)[p := (es_entries s ! p)\<lparr>ee_deleted := True\<rparr>], es_index := AList.delete i (es_index s)\<rparr>"
  shows "es_ok b s' \<and> map ee_id (es_entries s') = map ee_id (es_entries s)
    \<and> (\<forall>j. em_live_entry s' j = (if j = i then None else em_live_entry s j))"
proof -
  have pl: "p < length (es_entries s)" and pi: "ee_id (es_entries s ! p) = i" using ok p by (auto simp: es_ok_index)
  have ids: "map ee_id (es_entries s') = map ee_id (es_entries s)"
    by (rule nth_equalityI) (use pl in \<open>auto simp: s'_def nth_list_update\<close>)
  have ids': "ee_id ` set (es_entries s') = ee_id ` set (es_entries s)" using arg_cong [OF ids, of set] by simp
  have dist: "distinct (map ee_id (es_entries s))" using ok idLess_distinct by (simp add: es_ok_def)
  have ix: "map_of (es_index s') j = Some q \<longleftrightarrow>
      q < length (es_entries s') \<and> ee_id (es_entries s' ! q) = j \<and> \<not> ee_deleted (es_entries s' ! q)" for j q
  proof (cases "q = p")
    case True
    have "map_of (es_index s) j = Some p \<Longrightarrow> j = i" using es_ok_index [OF ok, of j p] pi by blast
    then show ?thesis using True pl by (auto simp: s'_def)
  next
    case False
    then have "ee_id (es_entries s ! q) \<noteq> i" if "q < length (es_entries s)"
      using that pl pi nth_eq_iff_index_eq [OF dist, of q p] by auto
    moreover have "map_of (es_index s') j = Some q \<longleftrightarrow> j \<noteq> i \<and> map_of (es_index s) j = Some q" by (simp add: s'_def)
    moreover have "es_entries s' ! q = es_entries s ! q" "length (es_entries s') = length (es_entries s)" using False by (simp_all add: s'_def)
    ultimately show ?thesis using es_ok_index [OF ok, of j q] by metis
  qed
  have "\<forall>x \<in> set (es_entries s'). id_issued b (ee_id x) \<and> idLess ''0-0'' (ee_id x)"
  proof
    fix x assume "x \<in> set (es_entries s')"
    then have "ee_id x \<in> ee_id ` set (es_entries s)" using ids' by blast
    then show "id_issued b (ee_id x) \<and> idLess ''0-0'' (ee_id x)" using ok by (auto simp only: es_ok_def)
  qed
  moreover have "sorted_wrt idLess (map ee_id (es_entries s'))" using ok unfolding ids es_ok_def by blast
  moreover have "eg_ok b (ee_id ` set (es_entries s')) g" if "map_of (es_groups s') m = Some g" for m g
  proof -
    have "map_of (es_groups s) m = Some g" using that by (simp add: s'_def)
    then show ?thesis using ok unfolding ids' es_ok_def by blast
  qed
  ultimately have "es_ok b s'" using ix unfolding es_ok_def by blast
  moreover have "em_live_entry s' j = (if j = i then None else em_live_entry s j)" for j
  proof (cases "map_of (es_index s) j")
    case None
    then show ?thesis by (simp add: em_live_entry_def s'_def)
  next
    case (Some q)
    then have "ee_id (es_entries s ! q) = j" using es_ok_index [OF ok, of j q] by blast
    then have "q \<noteq> p" if "j \<noteq> i" using that pi by blast
    then show ?thesis using Some by (cases "j = i") (simp_all add: em_live_entry_def s'_def)
  qed
  ultimately show ?thesis using ids by blast
qed

lemma em_delete_loop_spec:
  assumes "em_delete_loop ids s n = (s', n')" "es_ok b s"
  shows "es_ok b s' \<and> es_groups s' = es_groups s \<and> map ee_id (es_entries s') = map ee_id (es_entries s)
    \<and> (\<forall>i. em_live_entry s' i = (if i \<in> set ids then None else em_live_entry s i))"
  using assms
proof (induction ids arbitrary: s n)
  case (Cons i ids)
  show ?case
  proof (cases "map_of (es_index s) i")
    case None
    then have "em_live_entry s i = None" by (simp add: em_live_entry_def)
    with Cons None show ?thesis by auto
  next
    case (Some p)
    then have "\<not> ee_deleted (es_entries s ! p)" using Cons.prems(2) by (simp add: es_ok_index)
    with Cons.prems(1) Some have "em_delete_loop ids
        (s\<lparr>es_entries := (es_entries s)[p := (es_entries s ! p)\<lparr>ee_deleted := True\<rparr>], es_index := AList.delete i (es_index s)\<rparr>) (n + 1) = (s', n')"
      by simp
    from Cons.IH [OF this] em_delete_one [OF Cons.prems(2) Some] show ?thesis by auto
  qed
qed simp

section \<open>The emulator keeps the contract\<close>

definition es_mark :: "'f em_stream \<Rightarrow> string \<Rightarrow> string option" where
  "es_mark s g = map_option eg_lastDelivered (map_of (es_groups s) g)"

definition es_pend :: "'f em_stream \<Rightarrow> string \<Rightarrow> string set" where
  "es_pend s g = (case map_of (es_groups s) g of None \<Rightarrow> {} | Some gr \<Rightarrow> {i. map_of (eg_pending gr) i \<noteq> None})"

definition em_live :: "'f emulator \<Rightarrow> string \<Rightarrow> string \<Rightarrow> 'f option" where
  "em_live e n = es_live (em_getStream n e)"

definition em_mark :: "'f emulator \<Rightarrow> string \<Rightarrow> string \<Rightarrow> string option" where
  "em_mark e n = es_mark (em_getStream n e)"

definition em_pend :: "'f emulator \<Rightarrow> string \<Rightarrow> string \<Rightarrow> string set" where
  "em_pend e n = es_pend (em_getStream n e)"

definition em_issued :: "'f emulator \<Rightarrow> string \<Rightarrow> bool" where
  "em_issued e = id_issued (em_ms e, em_seq e)"

definition em_room :: "'f emulator \<Rightarrow> bool" where
  "em_room e \<longleftrightarrow> em_seq e < 2 ^ 63 - 1"

definition em_ops :: "('f emulator, 'f) stream_ops" where
  "em_ops = \<lparr>so_Add = em_Add, so_CreateGroup = em_CreateGroup, so_ReadGroup = em_read_round,
     so_Ack = (\<lambda>n g ids e. let (e, k) = em_Ack n g ids e in (e, Inr k)),
     so_Pending = (\<lambda>now args e. Inr (em_Pending now args e)),
     so_AutoClaim = (\<lambda>now args e. let (e, r) = em_AutoClaim now args e in (e, Inr r)),
     so_Len = (\<lambda>n e. Inr (em_Len n e)),
     so_Delete = (\<lambda>n ids e. let (e, k) = em_Delete n ids e in (e, Inr k)),
     so_Close = em_Close\<rparr>"

lemmas em_view_defs = em_live_def em_mark_def em_pend_def em_issued_def

lemma em_getStream_set [simp]: "em_getStream m (em_set n s e) = (if m = n then s else em_getStream m e)"
  by (simp add: em_getStream_def)

lemma em_getStream_cong: "em_streams e' = em_streams e \<Longrightarrow> em_getStream m e' = em_getStream m e"
  by (simp add: em_getStream_def)

lemma em_getStream_Some: "map_of (em_streams e) n = Some s \<Longrightarrow> em_getStream n e = s"
  by (simp add: em_getStream_def)

lemma es_view_groups [simp]:
  "es_live (s\<lparr>es_groups := gs\<rparr>) = es_live s" "em_live_entry (s\<lparr>es_groups := gs\<rparr>) = em_live_entry s"
  by (auto simp: es_live_def em_live_entry_def fun_eq_iff split: option.split)

lemma es_mark_update [simp]: "es_mark (s\<lparr>es_groups := AList.update g gr (es_groups s)\<rparr>) = (es_mark s)(g \<mapsto> eg_lastDelivered gr)"
  by (simp add: es_mark_def fun_eq_iff)

lemma es_pend_update [simp]:
  "es_pend (s\<lparr>es_groups := AList.update g gr (es_groups s)\<rparr>) = (es_pend s)(g := {i. map_of (eg_pending gr) i \<noteq> None})"
  by (simp add: es_pend_def fun_eq_iff)

lemma em_views_set:
  "em_live (em_set n s e) = (em_live e)(n := es_live s)" "em_mark (em_set n s e) = (em_mark e)(n := es_mark s)"
  "em_pend (em_set n s e) = (em_pend e)(n := es_pend s)" "em_issued (em_set n s e) = em_issued e"
  by (simp_all add: em_view_defs fun_eq_iff)

lemma em_live_issued: "em_ok e \<Longrightarrow> em_live e n i \<noteq> None \<Longrightarrow> em_issued e i"
proof -
  assume ok: "em_ok e" and l: "em_live e n i \<noteq> None"
  then obtain x where "x \<in> set (es_entries (em_getStream n e))" "ee_id x = i"
    using es_live_iff [OF em_ok_getStream [OF ok], of n i] by (auto simp: em_live_def)
  then show ?thesis using em_ok_getStream [OF ok, of n] by (auto simp: em_issued_def es_ok_def)
qed

lemma em_pend_marked: "em_ok e \<Longrightarrow> i \<in> em_pend e n g \<Longrightarrow> \<exists>m. em_mark e n g = Some m \<and> \<not> idLess m i"
proof -
  assume ok: "em_ok e" and i: "i \<in> em_pend e n g"
  then obtain gr where gr: "map_of (es_groups (em_getStream n e)) g = Some gr" "map_of (eg_pending gr) i \<noteq> None"
    by (auto simp: em_pend_def es_pend_def split: option.splits)
  then have "eg_ok (em_ms e, em_seq e) (ee_id ` set (es_entries (em_getStream n e))) gr"
    using em_ok_getStream [OF ok, of n] by (simp add: es_ok_def)
  then show ?thesis using gr by (auto simp: eg_ok_def em_mark_def es_mark_def)
qed

lemma em_mark_issued: "em_ok e \<Longrightarrow> em_mark e n g = Some m \<Longrightarrow> em_issued e m"
  using em_ok_getStream [of e n] by (auto simp: em_view_defs es_mark_def es_ok_def eg_ok_def)

lemma es_live_append:
  assumes "es_ok b s" "i \<notin> ee_id ` set (es_entries s)"
  shows "es_live (s\<lparr>es_entries := es_entries s @ [\<lparr>ee_id = i, ee_fields = f, ee_deleted = False\<rparr>],
       es_index := AList.update i (length (es_entries s)) (es_index s)\<rparr>) = (es_live s)(i \<mapsto> f)"
proof
  fix j
  have "p < length (es_entries s)" if "map_of (es_index s) j = Some p" for p using assms(1) that by (simp add: es_ok_index)
  then show "es_live (s\<lparr>es_entries := es_entries s @ [\<lparr>ee_id = i, ee_fields = f, ee_deleted = False\<rparr>],
       es_index := AList.update i (length (es_entries s)) (es_index s)\<rparr>) j = ((es_live s)(i \<mapsto> f)) j"
    by (auto simp: es_live_def em_live_entry_def nth_append split: option.split)
qed

lemma em_add_law:
  assumes "em_ok e" "em_room e" "em_Add now n f e = (e', Inr i)"
  shows "em_ok e' \<and> \<not> em_issued e i \<and> em_issued e' i \<and> (\<forall>j. em_issued e j \<longrightarrow> em_issued e' j)
    \<and> (\<forall>m h k. em_mark e m h = Some k \<longrightarrow> idLess k i)
    \<and> em_live e' = (em_live e)(n := (em_live e n)(i \<mapsto> f)) \<and> em_mark e' = em_mark e \<and> em_pend e' = em_pend e"
proof -
  have open': "\<not> em_closed e" using assms(3) by (auto simp: em_Add_def)
  obtain e1 where e1: "em_nextID now e = (e1, i)"
    and e': "e' = em_set n ((em_getStream n e)\<lparr>es_entries := es_entries (em_getStream n e) @ [\<lparr>ee_id = i, ee_fields = f, ee_deleted = False\<rparr>],
        es_index := AList.update i (length (es_entries (em_getStream n e))) (es_index (em_getStream n e))\<rparr>) e1"
    using assms(3) open' by (auto simp: em_Add_def Let_def split: prod.splits)
  have room: "em_seq e < 2 ^ 63 - 1" using assms(2) by (simp add: em_room_def)
  note nx = em_nextID_ok [OF assms(1) room e1]
  have b: "(em_ms e, em_seq e) < (em_ms e1, em_seq e1)" and st: "em_getStream m e1 = em_getStream m e" for m
    using nx em_getStream_cong by blast+
  have pi: "parseID i = (em_ms e1, em_seq e1)" and isd: "id_issued (em_ms e1, em_seq e1) i"
    using nx by (auto simp: id_issued_def em_ok_def parseID_format_id)
  have old: "idLess j i" if "em_issued e j" for j
    using id_issued_le [of _ j] that b unfolding em_issued_def idLess_iff pi by (meson order.strict_trans1)
  have ni: "\<not> em_issued e i" using old [of i] by auto
  then have "i \<notin> ee_id ` set (es_entries (em_getStream n e))"
    using em_ok_getStream [OF assms(1), of n] by (auto simp: es_ok_def em_issued_def)
  from es_live_append [OF em_ok_getStream [OF assms(1)] this] have
    "em_live e' = (em_live e)(n := (em_live e n)(i \<mapsto> f))" unfolding e' em_views_set by (auto simp: em_live_def fun_eq_iff st)
  moreover have "em_mark e' = em_mark e" "em_pend e' = em_pend e"
    unfolding e' em_views_set by (auto simp: em_view_defs fun_eq_iff st es_mark_def es_pend_def)
  moreover have "em_issued e' i" "em_issued e j \<longrightarrow> em_issued e' j" for j
    using isd id_issued_mono [OF _ less_imp_le [OF b]] unfolding e' em_views_set em_issued_def by auto
  ultimately show ?thesis using em_Add_ok [OF assms(1) room assms(3)] ni old em_mark_issued [OF assms(1)] by blast
qed

lemma sorted_wrt_idLess_last: "sorted_wrt idLess (map ee_id xs) \<Longrightarrow> x \<in> set xs \<Longrightarrow> \<not> idLess (ee_id (last xs)) (ee_id x)"
proof (induction xs)
  case (Cons y ys)
  have "idLess (ee_id y) (ee_id (last ys))" if "ys \<noteq> []" using Cons.prems(1) last_in_set [OF that] by simp
  then show ?case using Cons idLess_trans [of "ee_id (last ys)" "ee_id y" "ee_id (last ys)"] by (auto 4 3)
qed simp

lemma em_group_law:
  assumes "em_ok e" "em_CreateGroup n g start e = (e', None)"
  shows "em_ok e' \<and> em_live e' = em_live e \<and> em_pend e' = em_pend e \<and> em_issued e' = em_issued e
    \<and> (if em_mark e n g = None
       then \<exists>m. em_mark e' = (em_mark e)(n := (em_mark e n)(g \<mapsto> m)) \<and> (\<forall>i. em_live e n i \<noteq> None \<longrightarrow> (idLess m i \<longleftrightarrow> start \<noteq> ''$''))
       else em_mark e' = em_mark e)"
proof -
  let ?s = "em_getStream n e"
  have ok: "em_ok e'" using em_CreateGroup_ok [OF assms(1), of n g start] assms(2) by simp
  have s: "es_ok (em_ms e, em_seq e) ?s" by (rule em_ok_getStream [OF assms(1)])
  have open': "\<not> em_closed e" using assms(2) by (auto simp: em_CreateGroup_def)
  show ?thesis
  proof (cases "gm_has (es_groups ?s) g")
    case True
    then have "em_mark e n g \<noteq> None" by (auto simp: em_mark_def es_mark_def gm_has_def)
    moreover have "e' = em_set n ?s e" using assms(2) open' True by (simp add: em_CreateGroup_def Let_def)
    moreover have "em_live (em_set n ?s e) = em_live e" "em_mark (em_set n ?s e) = em_mark e" "em_pend (em_set n ?s e) = em_pend e"
      by (simp_all add: em_view_defs fun_eq_iff)
    ultimately show ?thesis using ok by (auto simp: em_views_set(4))
  next
    case False
    then have none: "em_mark e n g = None" "map_of (es_groups ?s) g = None" by (auto simp: em_mark_def es_mark_def gm_has_def)
    define final where "final = (if start = ''$'' \<and> es_entries ?s \<noteq> [] then ee_id (last (es_entries ?s)) else ''0-0'')"
    have e': "e' = em_set n (?s\<lparr>es_groups := AList.update g \<lparr>eg_lastDelivered = final, eg_pending = []\<rparr> (es_groups ?s)\<rparr>) e"
      using assms(2) open' False by (simp add: em_CreateGroup_def Let_def final_def)
    have "es_pend ?s g = {}" using none(2) by (simp add: es_pend_def)
    then have "em_live e' = em_live e" "em_pend e' = em_pend e" "em_issued e' = em_issued e"
      "em_mark e' = (em_mark e)(n := (em_mark e n)(g \<mapsto> final))"
      unfolding e' em_views_set by (auto simp: em_view_defs fun_eq_iff)
    moreover have "idLess final i \<longleftrightarrow> start \<noteq> ''$''" if live: "em_live e n i \<noteq> None" for i
    proof -
      obtain x where x: "x \<in> set (es_entries ?s)" "ee_id x = i" using live es_live_iff [OF s] by (auto simp: em_live_def)
      have "sorted_wrt idLess (map ee_id (es_entries ?s))" "idLess ''0-0'' i" using s x by (auto simp: es_ok_def)
      with x sorted_wrt_idLess_last [of "es_entries ?s" x] show ?thesis by (auto simp: final_def)
    qed
    ultimately show ?thesis using ok none(1) by auto
  qed
qed

lemma es_take_todo:
  assumes ok: "es_ok b s" and ys_def: "ys = take k (es_todo s m)"
    and m'_def: "m' = (if ys = [] then m else ee_id (last ys))"
  shows "sorted_wrt idLess (map ee_id ys)"
    and "x \<in> set ys \<Longrightarrow> x \<in> set (es_entries s) \<and> \<not> ee_deleted x \<and> idLess m (ee_id x) \<and> \<not> idLess m' (ee_id x)"
    and "x \<in> set (es_entries s) \<Longrightarrow> \<not> ee_deleted x \<Longrightarrow> idLess m (ee_id x) \<Longrightarrow> \<not> idLess m' (ee_id x) \<Longrightarrow> x \<in> set ys"
    and "\<not> idLess m' m"
    and "length (es_entries s) \<le> k \<Longrightarrow> x \<in> set (es_entries s) \<Longrightarrow> \<not> ee_deleted x \<Longrightarrow> \<not> idLess m' (ee_id x)"
proof -
  have srt: "sorted_wrt idLess (map ee_id (es_todo s m))"
    using ok sorted_wrt_filter by (auto simp: es_ok_def es_todo_def sorted_wrt_map)
  then show ys: "sorted_wrt idLess (map ee_id ys)" unfolding ys_def by (simp add: take_map [symmetric] sorted_wrt_take)
  have todo: "x \<in> set (es_todo s m) \<longleftrightarrow> x \<in> set (es_entries s) \<and> \<not> ee_deleted x \<and> idLess m (ee_id x)" for x
    by (auto simp: es_todo_def)
  have inys: "x \<in> set ys \<Longrightarrow> x \<in> set (es_todo s m)" for x unfolding ys_def by (rule in_set_takeD)
  show b: "x \<in> set (es_entries s) \<and> \<not> ee_deleted x \<and> idLess m (ee_id x) \<and> \<not> idLess m' (ee_id x)" if "x \<in> set ys" for x
    using that inys [OF that] todo sorted_wrt_idLess_last [OF ys that] by (auto simp: m'_def)
  show "x \<in> set ys" if x: "x \<in> set (es_entries s)" "\<not> ee_deleted x" "idLess m (ee_id x)" "\<not> idLess m' (ee_id x)"
  proof (rule ccontr)
    assume n: "x \<notin> set ys"
    have "x \<in> set ys \<union> set (drop k (es_todo s m))" using todo x set_append [of "take k (es_todo s m)" "drop k (es_todo s m)"] by (simp add: ys_def)
    then have d: "x \<in> set (drop k (es_todo s m))" using n by blast
    have "sorted_wrt idLess (map ee_id (take k (es_todo s m)) @ map ee_id (drop k (es_todo s m)))"
      using srt by (simp flip: map_append)
    then have "idLess (ee_id y) (ee_id x)" if "y \<in> set ys" for y using d that by (auto simp: sorted_wrt_append ys_def)
    then have "idLess m' (ee_id x)" using x(3) by (simp add: m'_def)
    with x(4) show False by blast
  qed
  show d: "\<not> idLess m' m"
  proof (cases "ys = []")
    case False
    then have "idLess m (ee_id (last ys))" using b [of "last ys"] by simp
    then show ?thesis using False idLess_trans idLess_irrefl unfolding m'_def by (simp only: if_False) blast
  qed (simp add: m'_def)
  show "\<not> idLess m' (ee_id x)" if "length (es_entries s) \<le> k" "x \<in> set (es_entries s)" "\<not> ee_deleted x"
  proof (rule ccontr)
    assume l: "\<not> \<not> idLess m' (ee_id x)"
    have "idLess m (ee_id x)" using l d unfolding idLess_iff by (auto simp del: less_prod_simp)
    moreover have "length (es_todo s m) \<le> k" using that(1) length_filter_le [of _ "es_entries s"] unfolding es_todo_def by (meson order_trans)
    ultimately have "x \<in> set ys" using todo that by (simp add: ys_def)
    with b l show False by blast
  qed
qed

lemma eg_ok_read:
  assumes sok: "es_ok b s" and gok: "eg_ok b (ee_id ` set (es_entries s)) g"
    and "em_read_loop clk args n (es_entries s) g [] = (g', out)"
  shows "eg_ok b (ee_id ` set (es_entries s)) g'"
proof -
  define ys where "ys = take (nat n) (es_todo s (eg_lastDelivered g))"
  have srt: "sorted_wrt idLess (map ee_id (es_entries s))" using sok by (simp add: es_ok_def)
  have mk: "eg_lastDelivered g' = (if ys = [] then eg_lastDelivered g else ee_id (last ys))"
    and sp3: "\<And>i. ra_NoAck args \<or> i \<notin> ee_id ` set ys \<Longrightarrow> map_of (eg_pending g') i = map_of (eg_pending g) i"
    and sp4: "\<And>i. \<not> ra_NoAck args \<Longrightarrow> i \<in> ee_id ` set ys \<Longrightarrow>
      \<exists>t. map_of (eg_pending g') i = Some \<lparr>ep_id = i, ep_consumer = ra_Consumer args, ep_deliveredAt = t, ep_count = 1\<rparr>"
    and sp5: "gm_wf (eg_pending g')"
    using em_read_loop_spec [OF srt assms(3)] gok unfolding ys_def es_todo_def eg_ok_def by simp_all
  note T = es_take_todo [OF sok ys_def refl]
  have "id_issued b (eg_lastDelivered g')"
    using gok sok T(2) [of "last ys"] unfolding mk by (auto simp: eg_ok_def es_ok_def)
  moreover have "ep_id p = i \<and> 1 \<le> ep_count p \<and> i \<in> ee_id ` set (es_entries s) \<and> \<not> idLess (eg_lastDelivered g') i"
    if p: "map_of (eg_pending g') i = Some p" for i p
  proof (cases "ra_NoAck args \<or> i \<notin> ee_id ` set ys")
    case True
    then have "map_of (eg_pending g) i = Some p" using sp3 p by simp
    then have "ep_id p = i \<and> 1 \<le> ep_count p \<and> i \<in> ee_id ` set (es_entries s) \<and> \<not> idLess (eg_lastDelivered g) i"
      using gok unfolding eg_ok_def by blast
    moreover have "\<not> idLess (eg_lastDelivered g') (eg_lastDelivered g)" using T(4) unfolding mk .
    ultimately show ?thesis by (auto simp: idLess_iff simp del: less_prod_simp)
  next
    case False
    then obtain x where x: "x \<in> set ys" "ee_id x = i" by blast
    obtain t where "map_of (eg_pending g') i = Some \<lparr>ep_id = i, ep_consumer = ra_Consumer args, ep_deliveredAt = t, ep_count = 1\<rparr>"
      using sp4 [of i] False by blast
    then show ?thesis using p T(2) [OF x(1)] x(2) unfolding mk by auto
  qed
  ultimately show ?thesis using gok sp5 unfolding eg_ok_def by blast
qed

lemma em_read_law:
  fixes e :: "'f emulator"
  assumes "em_ok e" "em_read_round clk args e = (e', Inr out)"
  shows "em_ok e' \<and> em_live e' = em_live e \<and> em_issued e' = em_issued e
    \<and> em_pend e' = (if ra_NoAck args then em_pend e
         else (em_pend e)(ra_Stream args := (em_pend e (ra_Stream args))(ra_Group args := em_pend e (ra_Stream args) (ra_Group args) \<union> fst ` set out)))
    \<and> (\<exists>m m'. em_mark e (ra_Stream args) (ra_Group args) = Some m
         \<and> em_mark e' = (em_mark e)(ra_Stream args := (em_mark e (ra_Stream args))(ra_Group args \<mapsto> m')) \<and> \<not> idLess m' m
         \<and> sorted_wrt idLess (map fst out)
         \<and> (\<forall>(i, f) \<in> set out. em_live e (ra_Stream args) i = Some f \<and> idLess m i \<and> \<not> idLess m' i)
         \<and> (\<forall>i. em_live e (ra_Stream args) i \<noteq> None \<and> idLess m i \<and> \<not> idLess m' i \<longrightarrow> i \<in> fst ` set out)
         \<and> (ra_Count args \<le> 0 \<longrightarrow> (\<forall>i. em_live e (ra_Stream args) i \<noteq> None \<longrightarrow> \<not> idLess m' i)))"
proof -
  define N G where "N = ra_Stream args" and "G = ra_Group args"
  obtain s g where s: "map_of (em_streams e) N = Some s" and g: "map_of (es_groups s) G = Some g"
    using assms(2) by (auto simp: em_read_round_def N_def G_def split: if_splits option.splits)
  define n where "n = (if ra_Count args \<le> 0 then int (length (es_entries s)) else ra_Count args)"
  obtain g' where loop: "em_read_loop clk args n (es_entries s) g [] = (g', out)"
    and e': "e' = em_set N (s\<lparr>es_groups := AList.update G g' (es_groups s)\<rparr>) e"
    using assms(2) s g by (auto simp: em_read_round_def N_def G_def n_def Let_def split: if_splits prod.splits)
  have gs: "em_getStream N e = s" using em_getStream_Some [OF s] .
  let ?b = "(em_ms e, em_seq e)"
  have sok: "es_ok ?b s" using em_ok_getStream [OF assms(1), of N] gs by simp
  have gok: "eg_ok ?b (ee_id ` set (es_entries s)) g" using sok g by (simp add: es_ok_def)
  have srt: "sorted_wrt idLess (map ee_id (es_entries s))" using sok by (simp add: es_ok_def)
  define m where "m = eg_lastDelivered g"
  define ys where "ys = take (nat n) (es_todo s m)"
  have sp: "out = delivered ys" "eg_lastDelivered g' = (if ys = [] then m else ee_id (last ys))"
    "\<And>i. ra_NoAck args \<or> i \<notin> ee_id ` set ys \<Longrightarrow> map_of (eg_pending g') i = map_of (eg_pending g) i"
    "\<And>i. \<not> ra_NoAck args \<Longrightarrow> i \<in> ee_id ` set ys \<Longrightarrow>
      \<exists>t. map_of (eg_pending g') i = Some \<lparr>ep_id = i, ep_consumer = ra_Consumer args, ep_deliveredAt = t, ep_count = 1\<rparr>"
    "gm_wf (eg_pending g')"
    using em_read_loop_spec [OF srt loop] gok unfolding ys_def es_todo_def m_def eg_ok_def by simp_all
  define m' where "m' = (if ys = [] then m else ee_id (last ys))"
  note T = es_take_todo [OF sok ys_def m'_def]
  have mk: "em_mark e N G = Some m" "em_mark e' = (em_mark e)(N := (em_mark e N)(G \<mapsto> m'))"
    using gs g sp(2) unfolding e' em_views_set by (auto simp: em_mark_def es_mark_def m_def m'_def)
  have live: "em_live e N i = Some f \<longleftrightarrow> (\<exists>x \<in> set (es_entries s). ee_id x = i \<and> \<not> ee_deleted x \<and> ee_fields x = f)" for i f
    using es_live_iff [OF sok] gs by (simp add: em_live_def)
  have outs: "map fst out = map ee_id ys" "fst ` set out = ee_id ` set ys" unfolding sp(1) delivered_def by force+
  have "em_ok e'" unfolding e' using em_ok_set [OF assms(1) es_ok_groups [OF sok eg_ok_read [OF sok gok loop]]] .
  moreover have "em_live e' = em_live e" "em_issued e' = em_issued e" using gs unfolding e' em_views_set by (auto simp: em_live_def)
  moreover have "em_pend e' = (if ra_NoAck args then em_pend e else (em_pend e)(N := (em_pend e N)(G := em_pend e N G \<union> fst ` set out)))"
  proof -
    have "{i. map_of (eg_pending g') i \<noteq> None} = (if ra_NoAck args then es_pend s G else es_pend s G \<union> fst ` set out)"
    proof (rule set_eqI)
      fix i show "i \<in> {i. map_of (eg_pending g') i \<noteq> None} \<longleftrightarrow> i \<in> (if ra_NoAck args then es_pend s G else es_pend s G \<union> fst ` set out)"
        using g sp(3,4) [of i] unfolding outs(2) by (cases "ra_NoAck args \<or> i \<notin> ee_id ` set ys") (auto simp: es_pend_def)
    qed
    then show ?thesis unfolding e' em_views_set using gs by (auto simp: em_pend_def fun_upd_idem)
  qed
  moreover have "\<forall>(i, f) \<in> set out. em_live e N i = Some f \<and> idLess m i \<and> \<not> idLess m' i"
    using T(2) live unfolding sp(1) delivered_def by auto
  moreover have "i \<in> fst ` set out" if i: "em_live e N i \<noteq> None \<and> idLess m i \<and> \<not> idLess m' i" for i
  proof -
    obtain x where "x \<in> set (es_entries s)" "ee_id x = i" "\<not> ee_deleted x" using i live by auto
    then show ?thesis using i T(3) [of x] unfolding outs(2) by blast
  qed
  moreover have "\<not> idLess m' i" if "ra_Count args \<le> 0" "em_live e N i \<noteq> None" for i
    using that T(5) live by (auto simp: n_def)
  ultimately show ?thesis unfolding N_def [symmetric] G_def [symmetric] outs(1) using mk T(1,4) by blast
qed

lemma em_ack_law:
  assumes "em_ok e" "em_Ack n g ids e = (e', k)"
  shows "em_ok e' \<and> em_live e' = em_live e \<and> em_mark e' = em_mark e \<and> em_issued e' = em_issued e
    \<and> em_pend e' = (em_pend e)(n := (em_pend e n)(g := em_pend e n g - set ids))"
proof (cases "map_of (es_groups (em_getStream n e)) g")
  case None
  then have "e' = e" using assms(2) by (auto simp: em_Ack_def em_getStream_def split: option.splits)
  then show ?thesis using None assms(1) by (auto simp: em_pend_def es_pend_def fun_eq_iff)
next
  case (Some gr)
  define s where "s = em_getStream n e"
  have s: "map_of (em_streams e) n = Some s" using Some by (auto simp: s_def em_getStream_def es_empty_def split: option.splits)
  obtain p where p: "em_ack_loop ids (eg_pending gr) 0 = (p, k)"
    and e': "e' = em_set n (s\<lparr>es_groups := AList.update g (gr\<lparr>eg_pending := p\<rparr>) (es_groups s)\<rparr>) e"
    using assms(2) s Some by (auto simp: em_Ack_def s_def Let_def split: prod.splits)
  have sok: "es_ok (em_ms e, em_seq e) s" using em_ok_getStream [OF assms(1)] by (simp add: s_def)
  then have "eg_ok (em_ms e, em_seq e) (ee_id ` set (es_entries s)) gr" using Some by (simp add: es_ok_def s_def)
  then have "eg_ok (em_ms e, em_seq e) (ee_id ` set (es_entries s)) (gr\<lparr>eg_pending := p\<rparr>)"
    using em_ack_loop_spec [OF p] by (auto simp: eg_ok_def split: if_splits)
  then have "em_ok e'" unfolding e' by (intro em_ok_set assms(1) es_ok_groups sok)
  moreover have "es_mark s g = Some (eg_lastDelivered gr)" using Some by (simp add: es_mark_def s_def)
  moreover have "{i. map_of p i \<noteq> None} = es_pend s g - set ids" using em_ack_loop_spec(1) [OF p] Some by (auto simp: es_pend_def s_def)
  ultimately show ?thesis unfolding e' em_views_set by (auto simp: em_view_defs s_def fun_eq_iff)
qed

lemma em_claim_law:
  assumes "em_ok e" "em_AutoClaim now args e = (e', cur, out)"
  shows "em_ok e' \<and> em_live e' = em_live e \<and> em_mark e' = em_mark e \<and> em_issued e' = em_issued e
    \<and> (\<forall>(i, f) \<in> set out. em_live e (ca_Stream args) i = Some f \<and> i \<in> em_pend e' (ca_Stream args) (ca_Group args))
    \<and> (\<forall>n g. em_pend e' n g \<subseteq> em_pend e n g) \<and> (\<forall>n g i. i \<in> em_pend e n g \<and> em_live e n i \<noteq> None \<longrightarrow> i \<in> em_pend e' n g)"
proof (cases "map_of (es_groups (em_getStream (ca_Stream args) e)) (ca_Group args)")
  case None
  then have "e' = e \<and> out = []" using assms(2) by (auto simp: em_AutoClaim_def em_getStream_def split: option.splits)
  then show ?thesis using assms(1) by simp
next
  case (Some gr)
  define n g where "n = ca_Stream args" and "g = ca_Group args"
  define s where "s = em_getStream n e"
  have s: "map_of (em_streams e) n = Some s" using Some by (auto simp: s_def n_def em_getStream_def es_empty_def split: option.splits)
  have gr: "map_of (es_groups s) g = Some gr" using Some by (simp add: s_def n_def g_def)
  define ids where "ids = sort_key parseID (map fst (eg_pending gr))"
  obtain ps start k where loop: "em_claim_loop now args start k s ids (eg_pending gr) [] = (ps, cur, out)"
    and e': "e' = em_set n (s\<lparr>es_groups := AList.update g (gr\<lparr>eg_pending := ps\<rparr>) (es_groups s)\<rparr>) e"
    using assms(2) s gr unfolding em_AutoClaim_def n_def [symmetric] g_def [symmetric] ids_def
    by (auto simp: Let_def split: prod.splits)
  have sok: "es_ok (em_ms e, em_seq e) s" using em_ok_getStream [OF assms(1)] by (simp add: s_def)
  then have gok: "eg_ok (em_ms e, em_seq e) (ee_id ` set (es_entries s)) gr" using gr by (simp add: es_ok_def)
  have "distinct ids" "gm_wf (eg_pending gr)" using gok by (auto simp: ids_def eg_ok_def gm_wf_def)
  from em_claim_loop_spec [OF loop this] have zs: "claimed_ok now args start s (set ids) (eg_pending gr) out"
    "claim_frame now args s (fst ` set out) (eg_pending gr) ps" "gm_wf ps" by auto
  have fr: "case map_of (eg_pending gr) i of None \<Rightarrow> map_of ps i = None
      | Some p \<Rightarrow> if i \<in> fst ` set out
         then map_of ps i = Some (p\<lparr>ep_consumer := ca_Consumer args, ep_deliveredAt := now, ep_count := ep_count p + 1\<rparr>)
         else map_of ps i = Some p \<or> map_of ps i = None \<and> em_live_entry s i = None" for i
    using zs(2) unfolding claim_frame_def by blast
  have "ep_id p = i \<and> 1 \<le> ep_count p \<and> i \<in> ee_id ` set (es_entries s) \<and> \<not> idLess (eg_lastDelivered gr) i"
    if p: "map_of ps i = Some p" for i p
  proof -
    obtain q where q: "map_of (eg_pending gr) i = Some q" using p fr [of i] by (cases "map_of (eg_pending gr) i") auto
    then have "ep_id q = i \<and> 1 \<le> ep_count q \<and> i \<in> ee_id ` set (es_entries s) \<and> \<not> idLess (eg_lastDelivered gr) i"
      using gok unfolding eg_ok_def by blast
    then show ?thesis using p q fr [of i] by (auto split: if_splits)
  qed
  then have "eg_ok (em_ms e, em_seq e) (ee_id ` set (es_entries s)) (gr\<lparr>eg_pending := ps\<rparr>)"
    using gok zs(3) by (simp add: eg_ok_def)
  then have "em_ok e'" unfolding e' by (intro em_ok_set assms(1) es_ok_groups sok)
  moreover have "em_live e' = em_live e" "em_mark e' = em_mark e" "em_issued e' = em_issued e"
    unfolding e' em_views_set using gr by (auto simp: em_view_defs s_def fun_eq_iff es_mark_def)
  moreover have pn: "em_pend e' k h = (if k = n \<and> h = g then {i. map_of ps i \<noteq> None} else em_pend e k h)" for k h
    unfolding e' em_views_set by (simp add: em_pend_def s_def)
  moreover have pg: "em_pend e n g = {i. map_of (eg_pending gr) i \<noteq> None}" using gr by (simp add: em_pend_def es_pend_def s_def)
  moreover have "em_live e n i = Some f \<and> i \<in> em_pend e' n g" if "(i, f) \<in> set out" for i f
  proof -
    have "es_live s i = Some f" "claimable now args s (eg_pending gr) i" "i \<in> fst ` set out"
      using zs(1) that unfolding claimed_ok_def by force+
    moreover from this have "map_of ps i \<noteq> None" using fr [of i] by (auto simp: claimable_def simp del: fst_conv)
    ultimately show ?thesis unfolding pn by (simp add: em_live_def s_def)
  qed
  moreover have "em_pend e' k h \<subseteq> em_pend e k h" for k h
  proof
    fix i assume "i \<in> em_pend e' k h"
    then show "i \<in> em_pend e k h" using fr [of i] pg unfolding pn by (auto split: if_splits option.splits)
  qed
  moreover have "i \<in> em_pend e' k h" if "i \<in> em_pend e k h" "em_live e k i \<noteq> None" for k h i
    using that fr [of i] pg unfolding pn by (auto simp: em_live_def es_live_def s_def split: if_splits option.splits)
  ultimately show ?thesis unfolding n_def [symmetric] g_def [symmetric] by fastforce
qed

lemma em_delete_law:
  assumes "em_ok e" "em_Delete n ids e = (e', k)"
  shows "em_ok e' \<and> em_live e' = (em_live e)(n := (\<lambda>i. if i \<in> set ids then None else em_live e n i))
    \<and> em_mark e' = em_mark e \<and> em_pend e' = em_pend e \<and> em_issued e' = em_issued e"
proof (cases "map_of (em_streams e) n")
  case None
  then have "e' = e" using assms(2) by (simp add: em_Delete_def)
  moreover have "em_live e n = (\<lambda>_. None)" using None by (simp add: em_live_def em_getStream_def es_live_def em_live_entry_def es_empty_def fun_eq_iff)
  ultimately show ?thesis using assms(1) by (auto simp: fun_eq_iff)
next
  case (Some s)
  then obtain s' where s': "em_delete_loop ids s 0 = (s', k)" and e': "e' = em_set n s' e"
    using assms(2) by (auto simp: em_Delete_def Let_def split: prod.splits)
  have gs: "em_getStream n e = s" using em_getStream_Some [OF Some] .
  have "es_ok (em_ms e, em_seq e) s" using em_ok_getStream [OF assms(1)] gs by metis
  note sp = em_delete_loop_spec [OF s' this]
  have "em_ok e'" unfolding e' using sp assms(1) em_ok_set by blast
  moreover have "es_mark s' = es_mark s" "es_pend s' = es_pend s" using sp by (auto simp: es_mark_def es_pend_def fun_eq_iff)
  moreover have "es_live s' i = (if i \<in> set ids then None else es_live s i)" for i using sp by (simp add: es_live_def)
  ultimately show ?thesis unfolding e' em_views_set using gs by (auto simp: em_view_defs fun_eq_iff)
qed

interpretation em: stream_client em_ops em_ok em_room em_live em_mark em_pend em_issued
proof (unfold_locales, goal_cases)
  case (1 c n i) then show ?case by (rule em_live_issued)
next
  case (2 c i n g) then show ?case by (rule em_pend_marked)
next
  case (3 c now n f c' i) then show ?case by (simp add: em_ops_def em_add_law)
next
  case (4 c now n f c' err) then show ?case by (auto simp: em_ops_def em_Add_def Let_def split: if_splits prod.splits)
next
  case (5 c n g start c')
  then have "em_CreateGroup n g start c = (c', None)" by (simp add: em_ops_def)
  then show ?case by (rule em_group_law [OF 5(1)])
next
  case (6 c n g start c' err) then show ?case by (auto simp: em_ops_def em_CreateGroup_def Let_def split: if_splits)
next
  case (7 c clk args c' out) then show ?case using em_read_law [of c clk args c' out] by (simp add: em_ops_def)
next
  case (8 c clk args c' err) then show ?case
    by (auto simp: em_ops_def em_read_round_def Let_def split: if_splits option.splits prod.splits)
next
  case (9 c n g ids c' k) then show ?case using em_ack_law [of c n g ids] by (auto simp: em_ops_def Let_def split: prod.splits)
next
  case (11 c now cargs c' cur out)
  then have "em_AutoClaim now cargs c = (c', cur, out)" by (auto simp: em_ops_def Let_def split: prod.splits)
  then show ?case using em_claim_law [OF 11(1)] by blast
next
  case (13 c n ids c' k) then show ?case using em_delete_law [of c n ids] by (auto simp: em_ops_def Let_def split: prod.splits)
next
  case (15 c) then show ?case
    by (auto simp: em_ops_def em_ok_Close [unfolded em_Close_def] em_view_defs em_Close_def em_getStream_def fun_eq_iff)
qed (auto simp: em_ops_def Let_def split: prod.splits)

section \<open>Exactly-once delivery to a consumer group\<close>


definition ex_read_args :: read_group_args where
  "ex_read_args = \<lparr>ra_Group = ''g'', ra_Consumer = ''c'', ra_Stream = ''s'', ra_Count = 0, ra_Block = 0, ra_NoAck = False\<rparr>"

definition ex_em0 :: "nat emulator" where
  "ex_em0 = fst (em_CreateGroup ''s'' ''g'' ''$'' NewEmulator)"

definition ex_em1 :: "nat emulator" where
  "ex_em1 = fst (em_Add 0 ''s'' 7 ex_em0)"

definition ex_em2 :: "nat emulator" where
  "ex_em2 = fst (em_read_round (\<lambda>_. 5) ex_read_args ex_em1)"

lemma ex_em_steps:
  "em_CreateGroup ''s'' ''g'' ''$'' (NewEmulator :: nat emulator) = (ex_em0, None)"
  "em_Add 0 ''s'' 7 ex_em0 = (ex_em1, Inr ''0-1'')"
  "em_read_round (\<lambda>_. 5) ex_read_args ex_em1 = (ex_em2, Inr [(''0-1'', 7)])"
  "em_seq ex_em0 = 0" "em_live ex_em2 ''s'' ''0-1'' = Some 7"
  by code_simp+

lemma ex_em_run:
  "stream_run em_ops em_room (NewEmulator :: nat emulator) ex_em2
    [LGroup ''s'' ''g'' ''$'', LAdd ''s'' ''0-1'' 7, LRead ''s'' ''g'' True ''0-1'']"
proof -
  have "stream_run em_ops em_room (NewEmulator :: nat emulator) ex_em0 [LGroup ''s'' ''g'' ''$'']"
    using run_group [OF run_init, of em_ops "''s''" "''g''" "''$''"] ex_em_steps(1) by (simp add: em_ops_def)
  from run_add [OF this, of 0 "''s''" 7] have "stream_run em_ops em_room (NewEmulator :: nat emulator) ex_em1 [LGroup ''s'' ''g'' ''$'', LAdd ''s'' ''0-1'' 7]"
    using ex_em_steps(2,4) by (simp add: em_ops_def em_room_def)
  from run_read [OF this, of "\<lambda>_. 5" ex_read_args] show ?thesis
    using ex_em_steps(3) by (simp add: em_ops_def ex_read_args_def)
qed


end
