(* ===== verification/Queue_Message.thy ===== *)
theory Queue_Message
  imports Queue_Stream "HOL-Library.Monad_Syntax"
begin

text \<open>
  Queue messages, \<open>queue/types/message.go\<close>: the lifecycle of a message, the message itself and its
  wire form.

  A message travels as JSON in one field of a stream entry. The text that \<open>encoding/json\<close> writes is
  represented by its syntax tree: objects as association lists, strings after the encoder's
  replacement of bytes that are not UTF-8, integers, and instants, whose RFC 3339 text
  exists for the years 0 to 9999. Reading a field of the wrong kind or out of the range of
  its Go type is an error, a missing field is the zero value.
\<close>

section \<open>Message lifecycle\<close>

datatype msg_state =
  MsgCreated | MsgQueued | MsgClaimed | MsgAcknowledged | MsgCompleted | MsgRetry | MsgDeadLetter | MsgArchived
| MsgUnknown nat \<comment> \<open>a value of \<open>uint8\<close> without a name: \<open>MsgUnknown n\<close> is \<open>8 + n\<close>\<close>

fun msg_state_String :: "msg_state \<Rightarrow> string" where
  "msg_state_String MsgCreated = ''created''"
| "msg_state_String MsgQueued = ''queued''"
| "msg_state_String MsgClaimed = ''claimed''"
| "msg_state_String MsgAcknowledged = ''acknowledged''"
| "msg_state_String MsgCompleted = ''completed''"
| "msg_state_String MsgRetry = ''retry''"
| "msg_state_String MsgDeadLetter = ''dead_letter''"
| "msg_state_String MsgArchived = ''archived''"
| "msg_state_String (MsgUnknown n) = ''unknown''"

definition messageTransitions :: "(msg_state, msg_state list) gomap" where
  "messageTransitions =
    [(MsgCreated, [MsgQueued]),
     (MsgQueued, [MsgClaimed, MsgDeadLetter]),
     (MsgClaimed, [MsgAcknowledged, MsgRetry, MsgDeadLetter]),
     (MsgAcknowledged, [MsgCompleted, MsgRetry, MsgDeadLetter]),
     (MsgCompleted, [MsgArchived]),
     (MsgRetry, [MsgQueued, MsgDeadLetter]),
     (MsgDeadLetter, [MsgArchived]),
     (MsgArchived, [])]"

definition CanTransitionMessage :: "msg_state \<Rightarrow> msg_state \<Rightarrow> bool" where
  "CanTransitionMessage from to = (case map_of messageTransitions from of None \<Rightarrow> False | Some nxt \<Rightarrow> to \<in> set nxt)"

definition msg_IsTerminal :: "msg_state \<Rightarrow> bool" where
  "msg_IsTerminal s \<longleftrightarrow> s = MsgArchived"

fun msg_IsFinished :: "msg_state \<Rightarrow> bool" where
  "msg_IsFinished MsgCompleted = True"
| "msg_IsFinished MsgDeadLetter = True"
| "msg_IsFinished MsgArchived = True"
| "msg_IsFinished _ = False"

fun msg_state_code :: "msg_state \<Rightarrow> int" where
  "msg_state_code MsgCreated = 0"
| "msg_state_code MsgQueued = 1"
| "msg_state_code MsgClaimed = 2"
| "msg_state_code MsgAcknowledged = 3"
| "msg_state_code MsgCompleted = 4"
| "msg_state_code MsgRetry = 5"
| "msg_state_code MsgDeadLetter = 6"
| "msg_state_code MsgArchived = 7"
| "msg_state_code (MsgUnknown n) = 8 + int n"

definition msg_state_of :: "int \<Rightarrow> msg_state" where
  "msg_state_of i =
    (if i = 0 then MsgCreated else if i = 1 then MsgQueued else if i = 2 then MsgClaimed else if i = 3 then MsgAcknowledged
     else if i = 4 then MsgCompleted else if i = 5 then MsgRetry else if i = 6 then MsgDeadLetter else if i = 7 then MsgArchived
     else MsgUnknown (nat (i - 8)))"

lemma msg_state_of_code [simp]: "msg_state_of (msg_state_code s) = s"
  by (cases s) (simp_all add: msg_state_of_def)

section \<open>Messages\<close>

record trace_context =
  tr_TraceID :: string
  tr_SpanID :: string

record msg_context =
  mc_Deadline :: time
  mc_Attempt :: int
  mc_Resources :: "(string, string) gomap"
  mc_Env :: "(string, string) gomap"

record qmessage =
  qm_MessageID :: string
  qm_StreamID :: string
  qm_JobID :: string
  qm_CorrelationID :: string
  qm_RequestID :: string
  qm_UserID :: string
  qm_RoomID :: string
  qm_Language :: string
  qm_Priority :: int
  qm_RetryCount :: int
  qm_MaxRetries :: int
  qm_EnqueueTime :: time
  qm_ScheduleTime :: time
  qm_VisibilityTimeout :: duration
  qm_Context :: msg_context
  qm_Metadata :: "(string, string) gomap"
  qm_Trace :: trace_context
  qm_Version :: int
  qm_State :: msg_state
  qm_WorkerID :: string
  qm_Stream :: string
  qm_Group :: string
  qm_Consumer :: string

section \<open>The wire form\<close>

text \<open>UTF-8 as \<open>unicode/utf8\<close> decodes it: the length of the rune at the start of a string, 0 when the
  bytes there are not one. The encoder writes U+FFFD, bytes EF BF BD, for each such byte.\<close>

definition byte_in :: "int \<Rightarrow> int \<Rightarrow> char \<Rightarrow> bool" where
  "byte_in lo hi c \<longleftrightarrow> lo \<le> of_char c \<and> of_char c \<le> hi"

fun utf8_len :: "string \<Rightarrow> nat" where
  "utf8_len [] = 0"
| "utf8_len (c # cs) =
    (if byte_in 0 127 c then 1
     else case cs of
       [] \<Rightarrow> 0
     | d # ds \<Rightarrow>
         if byte_in 194 223 c \<and> byte_in 128 191 d then 2
         else case ds of
           [] \<Rightarrow> 0
         | x # xs \<Rightarrow>
             if byte_in 128 191 x \<and> (byte_in 224 224 c \<and> byte_in 160 191 d \<or> byte_in 225 236 c \<and> byte_in 128 191 d
                 \<or> byte_in 237 237 c \<and> byte_in 128 159 d \<or> byte_in 238 239 c \<and> byte_in 128 191 d) then 3
             else case xs of
               [] \<Rightarrow> 0
             | y # ys \<Rightarrow>
                 if byte_in 128 191 x \<and> byte_in 128 191 y \<and> (byte_in 240 240 c \<and> byte_in 144 191 d
                     \<or> byte_in 241 243 c \<and> byte_in 128 191 d \<or> byte_in 244 244 c \<and> byte_in 128 143 d) then 4
                 else 0)"

function json_text :: "string \<Rightarrow> string" where
  "json_text s =
    (if s = [] then []
     else if utf8_len s = 0 then [char_of (239 :: int), char_of (191 :: int), char_of (189 :: int)] @ json_text (tl s)
     else take (utf8_len s) s @ json_text (drop (utf8_len s) s))"
  by pat_completeness auto
termination by (relation "measure length") auto

function utf8_valid :: "string \<Rightarrow> bool" where
  "utf8_valid s = (if s = [] then True else if utf8_len s = 0 then False else utf8_valid (drop (utf8_len s) s))"
  by pat_completeness auto
termination by (relation "measure length") auto

declare json_text.simps [simp del] utf8_valid.simps [simp del]

lemma json_text_valid: "utf8_valid s \<Longrightarrow> json_text s = s"
proof (induction s rule: json_text.induct)
  case (1 s)
  then show ?case
    by (cases "s = []") (auto simp: json_text.simps [of s] json_text.simps [of "[]"] utf8_valid.simps [of s])
qed

lemma json_text_Nil [simp]: "json_text [] = []"
  by (simp add: json_text.simps)

text \<open>The length of the first rune depends on its own bytes only.\<close>

lemma utf8_len_first:
  assumes "utf8_len s \<noteq> 0"
  shows "utf8_len s \<le> length s \<and> utf8_len (take (utf8_len s) s @ r) = utf8_len s"
proof -
  obtain c cs where s: "s = c # cs" using assms by (cases s) auto
  show ?thesis
  proof (cases "byte_in 0 127 c")
    case True
    then show ?thesis using s by simp
  next
    case c: False
    then obtain d ds where cs: "cs = d # ds" using assms s by (cases cs) auto
    show ?thesis
    proof (cases "byte_in 194 223 c \<and> byte_in 128 191 d")
      case True
      then show ?thesis using s cs c by simp
    next
      case d: False
      then obtain x xs where ds: "ds = x # xs" using assms s cs c by (cases ds) (auto split: if_splits)
      define P where "P \<longleftrightarrow> byte_in 128 191 x \<and> (byte_in 224 224 c \<and> byte_in 160 191 d \<or> byte_in 225 236 c \<and> byte_in 128 191 d
                 \<or> byte_in 237 237 c \<and> byte_in 128 159 d \<or> byte_in 238 239 c \<and> byte_in 128 191 d)"
      define Q where "Q y \<longleftrightarrow> byte_in 128 191 x \<and> byte_in 128 191 y \<and> (byte_in 240 240 c \<and> byte_in 144 191 d
                     \<or> byte_in 241 243 c \<and> byte_in 128 191 d \<or> byte_in 244 244 c \<and> byte_in 128 143 d)" for y
      have e: "utf8_len (c # d # x # r) = (if P then 3 else case r of [] \<Rightarrow> 0 | y # ys \<Rightarrow> if Q y then 4 else 0)" for r
        unfolding P_def Q_def utf8_len.simps by (simp only: list.case c d if_False)
      have s: "s = c # d # x # xs" using s cs ds by simp
      show ?thesis
      proof (cases P)
        case True
        then show ?thesis unfolding s e by (simp del: utf8_len.simps add: e)
      next
        case False
        then obtain y ys where "xs = y # ys" "Q y" using assms unfolding s e by (cases xs) (auto split: if_splits)
        then show ?thesis using False unfolding s by (simp del: utf8_len.simps add: e)
      qed
    qed
  qed
qed

lemma utf8_len_replacement: "utf8_len ([char_of (239 :: int), char_of (191 :: int), char_of (189 :: int)] @ r) = 3"
  by (simp add: byte_in_def)

lemma utf8_valid_json_text: "utf8_valid (json_text s)"
proof (induction s rule: json_text.induct)
  case (1 s)
  show ?case
  proof (cases "s = [] \<or> utf8_len s = 0")
    case True
    have "utf8_valid ([char_of (239 :: int), char_of (191 :: int), char_of (189 :: int)] @ json_text (tl s))" if "s \<noteq> []" "utf8_len s = 0"
      using 1(1) [OF that] by (subst utf8_valid.simps) (simp add: utf8_len_replacement [simplified])
    then show ?thesis using True by (cases "s = []") (auto simp: json_text.simps [of s] utf8_valid.simps [of "[]"])
  next
    case False
    let ?n = "utf8_len s"
    have "drop ?n (take ?n s @ json_text (drop ?n s)) = json_text (drop ?n s)" using utf8_len_first [of s] False by simp
    then have "utf8_valid (take ?n s @ json_text (drop ?n s))" using 1(2) False utf8_len_first [of s]
      by (subst utf8_valid.simps) simp
    then show ?thesis using False by (simp add: json_text.simps [of s])
  qed
qed

datatype jv = JStr string | JInt int | JTime time | JObj "(string \<times> jv) list"

text \<open>The years 0 to 9999, which \<open>time.Time.MarshalJSON\<close> accepts.\<close>

definition json_time_ok :: "time \<Rightarrow> bool" where
  "json_time_ok t \<longleftrightarrow> - (366 * 86400 * Second) \<le> t \<and> t < 3652059 * 86400 * Second"

definition j_str_omit :: "string \<Rightarrow> string \<Rightarrow> (string \<times> jv) list" where
  "j_str_omit k v = (if v = [] then [] else [(k, JStr (json_text v))])"

definition j_map_omit :: "string \<Rightarrow> (string, string) gomap \<Rightarrow> (string \<times> jv) list" where
  "j_map_omit k m = (if m = [] then [] else [(k, JObj (map (\<lambda>(k, v). (json_text k, JStr (json_text v))) m))])"

definition json_context :: "msg_context \<Rightarrow> jv" where
  "json_context x = JObj
    ([(''deadline'', JTime (mc_Deadline x)), (''attempt'', JInt (mc_Attempt x))]
     @ j_map_omit ''resources'' (mc_Resources x) @ j_map_omit ''env'' (mc_Env x))"

definition json_trace :: "trace_context \<Rightarrow> jv" where
  "json_trace t = JObj (j_str_omit ''trace_id'' (tr_TraceID t) @ j_str_omit ''span_id'' (tr_SpanID t))"

definition json_message :: "qmessage \<Rightarrow> jv option" where
  "json_message m =
    (if json_time_ok (qm_EnqueueTime m) \<and> json_time_ok (qm_ScheduleTime m) \<and> json_time_ok (mc_Deadline (qm_Context m))
     then Some (JObj
       ([(''message_id'', JStr (json_text (qm_MessageID m)))] @ j_str_omit ''stream_id'' (qm_StreamID m)
        @ [(''job_id'', JStr (json_text (qm_JobID m))), (''correlation_id'', JStr (json_text (qm_CorrelationID m))),
           (''request_id'', JStr (json_text (qm_RequestID m))), (''user_id'', JStr (json_text (qm_UserID m))),
           (''room_id'', JStr (json_text (qm_RoomID m))), (''language'', JStr (json_text (qm_Language m))),
           (''priority'', JInt (qm_Priority m)), (''retry_count'', JInt (qm_RetryCount m)), (''max_retries'', JInt (qm_MaxRetries m)),
           (''enqueue_time'', JTime (qm_EnqueueTime m)), (''schedule_time'', JTime (qm_ScheduleTime m)),
           (''visibility_timeout'', JInt (qm_VisibilityTimeout m)), (''execution_context'', json_context (qm_Context m))]
        @ j_map_omit ''metadata'' (qm_Metadata m)
        @ [(''trace'', json_trace (qm_Trace m)), (''version'', JInt (qm_Version m)), (''state'', JInt (msg_state_code (qm_State m)))]
        @ j_str_omit ''worker_id'' (qm_WorkerID m)))
     else None)"

text \<open>Reading the fields of an object; \<open>None\<close> is the error of a value of the wrong kind or range.\<close>

definition j_get_str :: "string \<Rightarrow> (string \<times> jv) list \<Rightarrow> string option" where
  "j_get_str k obj = (case map_of obj k of None \<Rightarrow> Some [] | Some (JStr s) \<Rightarrow> Some s | _ \<Rightarrow> None)"

definition j_get_int :: "int \<Rightarrow> int \<Rightarrow> string \<Rightarrow> (string \<times> jv) list \<Rightarrow> int option" where
  "j_get_int lo hi k obj =
    (case map_of obj k of None \<Rightarrow> Some 0 | Some (JInt i) \<Rightarrow> if lo \<le> i \<and> i \<le> hi then Some i else None | _ \<Rightarrow> None)"

definition j_get_time :: "string \<Rightarrow> (string \<times> jv) list \<Rightarrow> time option" where
  "j_get_time k obj = (case map_of obj k of None \<Rightarrow> Some 0 | Some (JTime t) \<Rightarrow> Some t | _ \<Rightarrow> None)"

definition j_get_obj :: "string \<Rightarrow> (string \<times> jv) list \<Rightarrow> (string \<times> jv) list option" where
  "j_get_obj k obj = (case map_of obj k of None \<Rightarrow> Some [] | Some (JObj o') \<Rightarrow> Some o' | _ \<Rightarrow> None)"

fun j_str_map :: "(string \<times> jv) list \<Rightarrow> (string, string) gomap option" where
  "j_str_map [] = Some []"
| "j_str_map ((k, JStr v) # kvs) = map_option (\<lambda>m. (k, v) # m) (j_str_map kvs)"
| "j_str_map _ = None"

definition j_get_map :: "string \<Rightarrow> (string \<times> jv) list \<Rightarrow> (string, string) gomap option" where
  "j_get_map k obj = j_get_obj k obj \<bind> j_str_map"

definition j_get_int64 :: "string \<Rightarrow> (string \<times> jv) list \<Rightarrow> int option" where
  "j_get_int64 = j_get_int (- (2 ^ 63)) (2 ^ 63 - 1)"

definition parse_context :: "(string \<times> jv) list \<Rightarrow> msg_context option" where
  "parse_context obj = do {
     deadline \<leftarrow> j_get_time ''deadline'' obj;
     attempt \<leftarrow> j_get_int64 ''attempt'' obj;
     resources \<leftarrow> j_get_map ''resources'' obj;
     env \<leftarrow> j_get_map ''env'' obj;
     Some \<lparr>mc_Deadline = deadline, mc_Attempt = attempt, mc_Resources = resources, mc_Env = env\<rparr>
   }"

definition parse_trace :: "(string \<times> jv) list \<Rightarrow> trace_context option" where
  "parse_trace obj = do {
     trace \<leftarrow> j_get_str ''trace_id'' obj;
     span \<leftarrow> j_get_str ''span_id'' obj;
     Some \<lparr>tr_TraceID = trace, tr_SpanID = span\<rparr>
   }"

definition parse_message :: "jv \<Rightarrow> qmessage option" where
  "parse_message j = (case j of
     JObj obj \<Rightarrow> do {
       messageID \<leftarrow> j_get_str ''message_id'' obj;
       streamID \<leftarrow> j_get_str ''stream_id'' obj;
       jobID \<leftarrow> j_get_str ''job_id'' obj;
       correlationID \<leftarrow> j_get_str ''correlation_id'' obj;
       requestID \<leftarrow> j_get_str ''request_id'' obj;
       userID \<leftarrow> j_get_str ''user_id'' obj;
       roomID \<leftarrow> j_get_str ''room_id'' obj;
       language \<leftarrow> j_get_str ''language'' obj;
       priority \<leftarrow> j_get_int (- 128) 127 ''priority'' obj;
       retryCount \<leftarrow> j_get_int64 ''retry_count'' obj;
       maxRetries \<leftarrow> j_get_int64 ''max_retries'' obj;
       enqueueTime \<leftarrow> j_get_time ''enqueue_time'' obj;
       scheduleTime \<leftarrow> j_get_time ''schedule_time'' obj;
       visibilityTimeout \<leftarrow> j_get_int64 ''visibility_timeout'' obj;
       context \<leftarrow> j_get_obj ''execution_context'' obj \<bind> parse_context;
       metadata \<leftarrow> j_get_map ''metadata'' obj;
       trace \<leftarrow> j_get_obj ''trace'' obj \<bind> parse_trace;
       version \<leftarrow> j_get_int64 ''version'' obj;
       state \<leftarrow> j_get_int 0 255 ''state'' obj;
       workerID \<leftarrow> j_get_str ''worker_id'' obj;
       Some \<lparr>qm_MessageID = messageID, qm_StreamID = streamID, qm_JobID = jobID, qm_CorrelationID = correlationID,
             qm_RequestID = requestID, qm_UserID = userID, qm_RoomID = roomID, qm_Language = language,
             qm_Priority = priority, qm_RetryCount = retryCount, qm_MaxRetries = maxRetries,
             qm_EnqueueTime = enqueueTime, qm_ScheduleTime = scheduleTime, qm_VisibilityTimeout = visibilityTimeout,
             qm_Context = context, qm_Metadata = metadata, qm_Trace = trace, qm_Version = version,
             qm_State = msg_state_of state, qm_WorkerID = workerID, qm_Stream = [], qm_Group = [], qm_Consumer = []\<rparr>
     }
   | _ \<Rightarrow> None)"

datatype wire = WText string | WJson jv
type_synonym msg_fields = "(string, wire) gomap"

definition Marshal :: "qmessage \<Rightarrow> queue_error + msg_fields" where
  "Marshal m =
    (let m = (if qm_Version m = 0 then m\<lparr>qm_Version := 1\<rparr> else m)
     in case json_message m of
          None \<Rightarrow> Inl ErrInvalidMessage
        | Some j \<Rightarrow> Inr [(''v'', WText (dec_int (qm_Version m))), (''data'', WJson j)])"

definition Unmarshal :: "string \<Rightarrow> msg_fields \<Rightarrow> queue_error + qmessage" where
  "Unmarshal streamID fs =
    (case map_of fs ''data'' of
       None \<Rightarrow> Inl ErrDeserialize
     | Some (WText _) \<Rightarrow> Inl ErrDeserialize
     | Some (WJson j) \<Rightarrow>
         (case parse_message j of
            None \<Rightarrow> Inl ErrDeserialize
          | Some m \<Rightarrow> Inr (m\<lparr>qm_StreamID := streamID\<rparr>)))"

section \<open>Round trip\<close>

text \<open>The values a message of Go's types can hold.\<close>

definition int64_ok :: "int \<Rightarrow> bool" where
  "int64_ok i \<longleftrightarrow> - (2 ^ 63) \<le> i \<and> i \<le> 2 ^ 63 - 1"

definition texts_ok :: "(string, string) gomap \<Rightarrow> bool" where
  "texts_ok m \<longleftrightarrow> (\<forall>(k, v) \<in> set m. utf8_valid k \<and> utf8_valid v)"

definition msg_wf :: "qmessage \<Rightarrow> bool" where
  "msg_wf m \<longleftrightarrow>
     (\<forall>s \<in> {qm_MessageID m, qm_StreamID m, qm_JobID m, qm_CorrelationID m, qm_RequestID m, qm_UserID m, qm_RoomID m,
        qm_Language m, qm_WorkerID m, tr_TraceID (qm_Trace m), tr_SpanID (qm_Trace m)}. utf8_valid s)
   \<and> (\<forall>i \<in> {qm_RetryCount m, qm_MaxRetries m, qm_VisibilityTimeout m, mc_Attempt (qm_Context m), qm_Version m}. int64_ok i)
   \<and> - 128 \<le> qm_Priority m \<and> qm_Priority m \<le> 127 \<and> msg_state_code (qm_State m) \<le> 255
   \<and> texts_ok (qm_Metadata m) \<and> texts_ok (mc_Resources (qm_Context m)) \<and> texts_ok (mc_Env (qm_Context m))"

definition msg_times_ok :: "qmessage \<Rightarrow> bool" where
  "msg_times_ok m \<longleftrightarrow> json_time_ok (qm_EnqueueTime m) \<and> json_time_ok (qm_ScheduleTime m) \<and> json_time_ok (mc_Deadline (qm_Context m))"

definition msg_ints :: "qmessage \<Rightarrow> bool" where
  "msg_ints m \<longleftrightarrow>
     (\<forall>i \<in> {qm_RetryCount m, qm_MaxRetries m, qm_VisibilityTimeout m, mc_Attempt (qm_Context m), qm_Version m}. int64_ok i)
   \<and> - 128 \<le> qm_Priority m \<and> qm_Priority m \<le> 127 \<and> msg_state_code (qm_State m) \<le> 255"

text \<open>What is read back of any message: the texts as the encoder writes them.\<close>

definition wire_texts :: "(string, string) gomap \<Rightarrow> (string, string) gomap" where
  "wire_texts = map (\<lambda>(k, v). (json_text k, json_text v))"

definition wire_message :: "qmessage \<Rightarrow> qmessage" where
  "wire_message m = m\<lparr>qm_MessageID := json_text (qm_MessageID m), qm_StreamID := json_text (qm_StreamID m), qm_JobID := json_text (qm_JobID m),
     qm_CorrelationID := json_text (qm_CorrelationID m), qm_RequestID := json_text (qm_RequestID m), qm_UserID := json_text (qm_UserID m),
     qm_RoomID := json_text (qm_RoomID m), qm_Language := json_text (qm_Language m),
     qm_Context := (qm_Context m)\<lparr>mc_Resources := wire_texts (mc_Resources (qm_Context m)), mc_Env := wire_texts (mc_Env (qm_Context m))\<rparr>,
     qm_Metadata := wire_texts (qm_Metadata m),
     qm_Trace := \<lparr>tr_TraceID = json_text (tr_TraceID (qm_Trace m)), tr_SpanID = json_text (tr_SpanID (qm_Trace m))\<rparr>,
     qm_WorkerID := json_text (qm_WorkerID m), qm_Stream := [], qm_Group := [], qm_Consumer := []\<rparr>"

lemma wire_message_eq:
  "wire_message m = \<lparr>qm_MessageID = json_text (qm_MessageID m), qm_StreamID = json_text (qm_StreamID m), qm_JobID = json_text (qm_JobID m),
     qm_CorrelationID = json_text (qm_CorrelationID m), qm_RequestID = json_text (qm_RequestID m), qm_UserID = json_text (qm_UserID m),
     qm_RoomID = json_text (qm_RoomID m), qm_Language = json_text (qm_Language m), qm_Priority = qm_Priority m,
     qm_RetryCount = qm_RetryCount m, qm_MaxRetries = qm_MaxRetries m, qm_EnqueueTime = qm_EnqueueTime m, qm_ScheduleTime = qm_ScheduleTime m,
     qm_VisibilityTimeout = qm_VisibilityTimeout m,
     qm_Context = (qm_Context m)\<lparr>mc_Resources := wire_texts (mc_Resources (qm_Context m)), mc_Env := wire_texts (mc_Env (qm_Context m))\<rparr>,
     qm_Metadata = wire_texts (qm_Metadata m),
     qm_Trace = \<lparr>tr_TraceID = json_text (tr_TraceID (qm_Trace m)), tr_SpanID = json_text (tr_SpanID (qm_Trace m))\<rparr>,
     qm_Version = qm_Version m, qm_State = qm_State m, qm_WorkerID = json_text (qm_WorkerID m), qm_Stream = [], qm_Group = [], qm_Consumer = []\<rparr>"
  by (simp add: wire_message_def)

lemma wire_texts_ok: "texts_ok m \<Longrightarrow> wire_texts m = m"
  by (induction m) (auto simp: texts_ok_def wire_texts_def json_text_valid)

lemma wire_texts_Nil [simp]: "wire_texts [] = []"
  by (simp add: wire_texts_def)

lemma wire_message_wf: "msg_wf m \<Longrightarrow> wire_message m = m\<lparr>qm_Stream := [], qm_Group := [], qm_Consumer := []\<rparr>"
  by (cases m, cases "qm_Context m", cases "qm_Trace m") (auto simp: msg_wf_def wire_message_def json_text_valid wire_texts_ok)

lemma msg_wf_ints: "msg_wf m \<Longrightarrow> msg_ints m"
  by (simp add: msg_wf_def msg_ints_def)

lemma j_str_map_encode: "j_str_map (map (\<lambda>(k, v). (json_text k, JStr (json_text v))) m) = Some (wire_texts m)"
  by (induction m) (auto simp: wire_texts_def)

lemma map_of_str_omit: "map_of (j_str_omit k v) k' = (if k' = k \<and> v \<noteq> [] then Some (JStr (json_text v)) else None)"
  by (simp add: j_str_omit_def)

lemma map_of_map_omit:
  "map_of (j_map_omit k m) k' = (if k' = k \<and> m \<noteq> [] then Some (JObj (map (\<lambda>(k, v). (json_text k, JStr (json_text v))) m)) else None)"
  by (simp add: j_map_omit_def)

lemmas j_get_defs = j_get_str_def j_get_int64_def j_get_int_def j_get_time_def j_get_map_def j_get_obj_def

lemma parse_context_json:
  assumes "int64_ok (mc_Attempt x)" "json_context x = JObj obj"
  shows "parse_context obj = Some (x\<lparr>mc_Resources := wire_texts (mc_Resources x), mc_Env := wire_texts (mc_Env x)\<rparr>)"
proof -
  have obj: "obj = [(''deadline'', JTime (mc_Deadline x)), (''attempt'', JInt (mc_Attempt x))]
     @ j_map_omit ''resources'' (mc_Resources x) @ j_map_omit ''env'' (mc_Env x)" using assms(2) by (simp add: json_context_def)
  show ?thesis unfolding obj using assms
    by (simp add: parse_context_def j_get_defs map_add_def map_of_map_omit int64_ok_def j_str_map_encode)
qed

lemma parse_trace_json:
  assumes "json_trace t = JObj obj"
  shows "parse_trace obj = Some \<lparr>tr_TraceID = json_text (tr_TraceID t), tr_SpanID = json_text (tr_SpanID t)\<rparr>"
proof -
  have obj: "obj = j_str_omit ''trace_id'' (tr_TraceID t) @ j_str_omit ''span_id'' (tr_SpanID t)"
    using assms by (simp add: json_trace_def)
  show ?thesis unfolding obj by (simp add: parse_trace_def j_get_defs map_add_def map_of_str_omit)
qed

lemma parse_message_json:
  assumes "msg_ints m" "json_message m = Some j"
  shows "parse_message j = Some (wire_message m)"
proof -
  obtain obj where j: "j = JObj obj" and obj: "obj =
       [(''message_id'', JStr (json_text (qm_MessageID m)))] @ j_str_omit ''stream_id'' (qm_StreamID m)
        @ [(''job_id'', JStr (json_text (qm_JobID m))), (''correlation_id'', JStr (json_text (qm_CorrelationID m))),
           (''request_id'', JStr (json_text (qm_RequestID m))), (''user_id'', JStr (json_text (qm_UserID m))),
           (''room_id'', JStr (json_text (qm_RoomID m))), (''language'', JStr (json_text (qm_Language m))),
           (''priority'', JInt (qm_Priority m)), (''retry_count'', JInt (qm_RetryCount m)), (''max_retries'', JInt (qm_MaxRetries m)),
           (''enqueue_time'', JTime (qm_EnqueueTime m)), (''schedule_time'', JTime (qm_ScheduleTime m)),
           (''visibility_timeout'', JInt (qm_VisibilityTimeout m)), (''execution_context'', json_context (qm_Context m))]
        @ j_map_omit ''metadata'' (qm_Metadata m)
        @ [(''trace'', json_trace (qm_Trace m)), (''version'', JInt (qm_Version m)), (''state'', JInt (msg_state_code (qm_State m)))]
        @ j_str_omit ''worker_id'' (qm_WorkerID m)"
    using assms(2) by (auto simp: json_message_def split: if_splits)
  obtain ctx trc where ctx: "json_context (qm_Context m) = JObj ctx" and trc: "json_trace (qm_Trace m) = JObj trc"
    by (simp add: json_context_def json_trace_def)
  have at: "int64_ok (mc_Attempt (qm_Context m))" using assms(1) by (simp add: msg_ints_def)
  note sub = parse_context_json [OF at ctx] parse_trace_json [OF trc]
  have code: "0 \<le> msg_state_code (qm_State m)" by (cases "qm_State m") simp_all
  note get = map_add_def map_of_str_omit map_of_map_omit ctx trc
  have strs: "j_get_str ''message_id'' obj = Some (json_text (qm_MessageID m))" "j_get_str ''stream_id'' obj = Some (json_text (qm_StreamID m))"
    "j_get_str ''job_id'' obj = Some (json_text (qm_JobID m))" "j_get_str ''correlation_id'' obj = Some (json_text (qm_CorrelationID m))"
    "j_get_str ''request_id'' obj = Some (json_text (qm_RequestID m))" "j_get_str ''user_id'' obj = Some (json_text (qm_UserID m))"
    "j_get_str ''room_id'' obj = Some (json_text (qm_RoomID m))" "j_get_str ''language'' obj = Some (json_text (qm_Language m))"
    "j_get_str ''worker_id'' obj = Some (json_text (qm_WorkerID m))"
    unfolding obj by (simp_all add: j_get_str_def get)
  have ints: "j_get_int (- 128) 127 ''priority'' obj = Some (qm_Priority m)" "j_get_int64 ''retry_count'' obj = Some (qm_RetryCount m)"
    "j_get_int64 ''max_retries'' obj = Some (qm_MaxRetries m)" "j_get_int64 ''visibility_timeout'' obj = Some (qm_VisibilityTimeout m)"
    "j_get_int64 ''version'' obj = Some (qm_Version m)" "j_get_int 0 255 ''state'' obj = Some (msg_state_code (qm_State m))"
    unfolding obj using assms(1) code by (simp_all add: j_get_int64_def j_get_int_def get msg_ints_def int64_ok_def)
  have rest: "j_get_time ''enqueue_time'' obj = Some (qm_EnqueueTime m)" "j_get_time ''schedule_time'' obj = Some (qm_ScheduleTime m)"
    "j_get_obj ''execution_context'' obj = Some ctx" "j_get_obj ''trace'' obj = Some trc" "j_get_map ''metadata'' obj = Some (wire_texts (qm_Metadata m))"
    unfolding obj by (simp_all add: j_get_time_def j_get_obj_def j_get_map_def get j_str_map_encode)
  show ?thesis unfolding parse_message_def j wire_message_eq by (simp add: strs ints rest sub)
qed

lemma j_get_int_bounds: "j_get_int lo hi k obj = Some i \<Longrightarrow> lo \<le> 0 \<Longrightarrow> 0 \<le> hi \<Longrightarrow> lo \<le> i \<and> i \<le> hi"
  by (auto simp: j_get_int_def split: option.splits jv.splits if_splits)

lemma j_get_int64_ok: "j_get_int64 k obj = Some i \<Longrightarrow> int64_ok i"
  using j_get_int_bounds [of "- (2 ^ 63)" "2 ^ 63 - 1" k obj i] by (simp add: j_get_int64_def int64_ok_def)

lemma msg_state_code_of: "0 \<le> i \<Longrightarrow> msg_state_code (msg_state_of i) = i"
  by (simp add: msg_state_of_def)

lemma parse_context_attempt: "parse_context obj = Some x \<Longrightarrow> int64_ok (mc_Attempt x)"
  by (auto simp: parse_context_def bind_eq_Some_conv dest: j_get_int64_ok)

lemma parse_message_ints:
  assumes "parse_message j = Some m"
  shows "msg_ints m"
proof -
  obtain obj where j: "j = JObj obj" using assms by (cases j) (simp_all add: parse_message_def)
  have "int64_ok (qm_RetryCount m)" "int64_ok (qm_MaxRetries m)" "int64_ok (qm_VisibilityTimeout m)" "int64_ok (qm_Version m)"
    "int64_ok (mc_Attempt (qm_Context m))"
    using assms unfolding j by (auto simp: parse_message_def bind_eq_Some_conv dest: j_get_int64_ok parse_context_attempt)
  moreover have "- 128 \<le> qm_Priority m \<and> qm_Priority m \<le> 127" "msg_state_code (qm_State m) \<le> 255"
    using assms unfolding j by (auto simp: parse_message_def bind_eq_Some_conv msg_state_code_of dest!: j_get_int_bounds)
  ultimately show ?thesis by (simp add: msg_ints_def)
qed

lemma Unmarshal_ints: "Unmarshal i fs = Inr m \<Longrightarrow> msg_ints m \<and> qm_StreamID m = i"
  by (auto simp: Unmarshal_def msg_ints_def split: option.splits wire.splits dest: parse_message_ints)

text \<open>Whatever the texts of a message, its job is the one that was written.\<close>

lemma Marshal_job:
  assumes "msg_ints m" "Marshal m = Inr fs"
  shows "\<exists>y. Unmarshal i fs = Inr y \<and> qm_JobID y = json_text (qm_JobID m)"
proof -
  define m1 where "m1 = (if qm_Version m = 0 then m\<lparr>qm_Version := 1\<rparr> else m)"
  have "msg_ints m1" "qm_JobID m1 = qm_JobID m" using assms(1) by (auto simp: m1_def msg_ints_def int64_ok_def)
  then show ?thesis using assms(2) parse_message_json [of m1]
    by (auto simp: Marshal_def m1_def [symmetric] Let_def Unmarshal_def wire_message_eq split: option.splits)
qed


definition ex_msg :: qmessage where
  "ex_msg = \<lparr>qm_MessageID = ''j1'', qm_StreamID = [], qm_JobID = ''j1'', qm_CorrelationID = ''c1'', qm_RequestID = ''r1'',
     qm_UserID = ''u1'', qm_RoomID = [], qm_Language = ''go'', qm_Priority = 1, qm_RetryCount = 0, qm_MaxRetries = 2,
     qm_EnqueueTime = 5, qm_ScheduleTime = 0, qm_VisibilityTimeout = 30 * Second,
     qm_Context = \<lparr>mc_Deadline = 0, mc_Attempt = 0, mc_Resources = [], mc_Env = [(''K'', ''V'')]\<rparr>,
     qm_Metadata = [], qm_Trace = \<lparr>tr_TraceID = [], tr_SpanID = []\<rparr>, qm_Version = 0, qm_State = MsgQueued, qm_WorkerID = [],
     qm_Stream = [], qm_Group = [], qm_Consumer = []\<rparr>"

lemma ex_msg_wf: "msg_wf ex_msg \<and> msg_times_ok ex_msg"
  by code_simp


end
