(* ===== verification/Queue_Workers.thy ===== *)
theory Queue_Workers
  imports Complex_Main Queue_Message
begin

text \<open>
  The workers of the queue: \<open>queue/types/worker.go\<close>, \<open>queue/registry\<close>, \<open>queue/heartbeat\<close>
  and \<open>queue/config\<close>.

  The registry locks around each operation, so each is one step. It hands out deep copies: a
  worker is a value here and \<open>Clone\<close> is the identity. The counters of a worker are Go's
  \<open>uint64\<close>, hence 64-bit words.
\<close>

section \<open>Worker lifecycle\<close>

datatype worker_state =
  WorkerStarting | WorkerIdle | WorkerReserved | WorkerExecuting | WorkerCompleted | WorkerFailed | WorkerRecovering | WorkerOffline

fun worker_state_String :: "worker_state \<Rightarrow> string" where
  "worker_state_String WorkerStarting = ''starting''"
| "worker_state_String WorkerIdle = ''idle''"
| "worker_state_String WorkerReserved = ''reserved''"
| "worker_state_String WorkerExecuting = ''executing''"
| "worker_state_String WorkerCompleted = ''completed''"
| "worker_state_String WorkerFailed = ''failed''"
| "worker_state_String WorkerRecovering = ''recovering''"
| "worker_state_String WorkerOffline = ''offline''"

definition workerTransitions :: "(worker_state, worker_state list) gomap" where
  "workerTransitions =
    [(WorkerStarting, [WorkerIdle, WorkerOffline]),
     (WorkerIdle, [WorkerReserved, WorkerOffline, WorkerRecovering]),
     (WorkerReserved, [WorkerExecuting, WorkerIdle, WorkerFailed, WorkerOffline]),
     (WorkerExecuting, [WorkerCompleted, WorkerFailed, WorkerOffline]),
     (WorkerCompleted, [WorkerIdle, WorkerOffline]),
     (WorkerFailed, [WorkerRecovering, WorkerOffline]),
     (WorkerRecovering, [WorkerIdle, WorkerOffline]),
     (WorkerOffline, [])]"

definition CanTransitionWorker :: "worker_state \<Rightarrow> worker_state \<Rightarrow> bool" where
  "CanTransitionWorker from to = (case map_of workerTransitions from of None \<Rightarrow> False | Some nxt \<Rightarrow> to \<in> set nxt)"

definition worker_IsTerminal :: "worker_state \<Rightarrow> bool" where
  "worker_IsTerminal s \<longleftrightarrow> s = WorkerOffline"

definition worker_IsAvailable :: "worker_state \<Rightarrow> bool" where
  "worker_IsAvailable s \<longleftrightarrow> s = WorkerIdle"

datatype health = HealthUnknown | HealthHealthy | HealthDegraded | HealthUnhealthy

fun health_String :: "health \<Rightarrow> string" where
  "health_String HealthHealthy = ''healthy''"
| "health_String HealthDegraded = ''degraded''"
| "health_String HealthUnhealthy = ''unhealthy''"
| "health_String HealthUnknown = ''unknown''"

record worker_resources =
  wr_CPUMillicores :: int
  wr_MemoryBytes :: int
  wr_MaxConcurrent :: int

record worker_stats =
  ws_Processed :: "64 word"
  ws_Succeeded :: "64 word"
  ws_Failed :: "64 word"
  ws_Retried :: "64 word"
  ws_BusyTime :: duration
  ws_LastJobAt :: time

record worker =
  wk_ID :: string
  wk_State :: worker_state
  wk_Health :: health
  wk_Capabilities :: "string list"
  wk_CurrentJob :: string
  wk_CurrentMsg :: string
  wk_LastHeartbeat :: time
  wk_Version :: string
  wk_Runtime :: "(string, string) gomap"
  wk_Resources :: worker_resources
  wk_Stats :: worker_stats
  wk_StartedAt :: time
  wk_SandboxID :: string
  wk_Transitions :: int

definition HasCapability :: "string \<Rightarrow> worker \<Rightarrow> bool" where
  "HasCapability cap w \<longleftrightarrow> wk_Capabilities w = [] \<or> cap \<in> set (wk_Capabilities w)"

lemma CanTransitionWorker_simps [simp]:
  "CanTransitionWorker WorkerStarting t \<longleftrightarrow> t = WorkerIdle \<or> t = WorkerOffline"
  "CanTransitionWorker WorkerIdle t \<longleftrightarrow> t = WorkerReserved \<or> t = WorkerOffline \<or> t = WorkerRecovering"
  "CanTransitionWorker WorkerReserved t \<longleftrightarrow> t = WorkerExecuting \<or> t = WorkerIdle \<or> t = WorkerFailed \<or> t = WorkerOffline"
  "CanTransitionWorker WorkerExecuting t \<longleftrightarrow> t = WorkerCompleted \<or> t = WorkerFailed \<or> t = WorkerOffline"
  "CanTransitionWorker WorkerCompleted t \<longleftrightarrow> t = WorkerIdle \<or> t = WorkerOffline"
  "CanTransitionWorker WorkerFailed t \<longleftrightarrow> t = WorkerRecovering \<or> t = WorkerOffline"
  "CanTransitionWorker WorkerRecovering t \<longleftrightarrow> t = WorkerIdle \<or> t = WorkerOffline"
  "\<not> CanTransitionWorker WorkerOffline t"
  by (auto simp: CanTransitionWorker_def workerTransitions_def)

section \<open>Configuration\<close>

record queue_streams =
  qt_Execution :: string
  qt_Retry :: string
  qt_DeadLetter :: string
  qt_Group :: string
  qt_PriorityStreams :: "(int, string) gomap"

record queue_config =
  qc_Streams :: queue_streams
  qc_WorkerCount :: int
  qc_MaxWorkerCount :: int
  qc_HeartbeatInterval :: duration
  qc_HeartbeatTimeout :: duration
  qc_HeartbeatCheckInterval :: duration
  qc_VisibilityTimeout :: duration
  qc_ConsumerBatchSize :: int
  qc_ConsumerBlock :: duration
  qc_PendingCheckInterval :: duration
  qc_MaxRetries :: int
  qc_RetryBaseDelay :: duration
  qc_RetryMaxDelay :: duration
  qc_RetryJitter :: rat
  qc_DeadLetterMaxLen :: int
  qc_ShutdownGrace :: duration

definition qc_Default :: queue_config where
  "qc_Default = \<lparr>qc_Streams = \<lparr>qt_Execution = ''cpip:exec:stream'', qt_Retry = ''cpip:exec:retry'',
       qt_DeadLetter = ''cpip:exec:dlq'', qt_Group = ''cpip-executors'', qt_PriorityStreams = []\<rparr>,
     qc_WorkerCount = 8, qc_MaxWorkerCount = 64,
     qc_HeartbeatInterval = 2 * Second, qc_HeartbeatTimeout = 10 * Second, qc_HeartbeatCheckInterval = 2 * Second,
     qc_VisibilityTimeout = 30 * Second, qc_ConsumerBatchSize = 16, qc_ConsumerBlock = 2 * Second,
     qc_PendingCheckInterval = 5 * Second,
     qc_MaxRetries = 3, qc_RetryBaseDelay = 500 * Millisecond, qc_RetryMaxDelay = 30 * Second, qc_RetryJitter = 1 / 5,
     qc_DeadLetterMaxLen = 10000, qc_ShutdownGrace = 15 * Second\<rparr>"

definition or_text :: "string \<Rightarrow> string \<Rightarrow> string" where
  "or_text s d = (if s = [] then d else s)"

definition or_positive :: "int \<Rightarrow> int \<Rightarrow> int" where
  "or_positive i d = (if i \<le> 0 then d else i)"

definition qt_fill :: "queue_streams \<Rightarrow> queue_streams" where
  "qt_fill st =
    (let d = qc_Streams qc_Default
     in \<lparr>qt_Execution = or_text (qt_Execution st) (qt_Execution d), qt_Retry = or_text (qt_Retry st) (qt_Retry d),
         qt_DeadLetter = or_text (qt_DeadLetter st) (qt_DeadLetter d), qt_Group = or_text (qt_Group st) (qt_Group d),
         qt_PriorityStreams = qt_PriorityStreams st\<rparr>)"

definition qc_Validate :: "queue_config \<Rightarrow> queue_error + queue_config" where
  "qc_Validate c =
    (let d = qc_Default;
         workers = or_positive (qc_WorkerCount c) (qc_WorkerCount d);
         interval = or_positive (qc_HeartbeatInterval c) (qc_HeartbeatInterval d);
         timeout = or_positive (qc_HeartbeatTimeout c) (qc_HeartbeatTimeout d);
         base = or_positive (qc_RetryBaseDelay c) (qc_RetryBaseDelay d)
     in if timeout \<le> interval then Inl ErrConfig
        else if qc_MaxRetries c < 0 then Inl ErrConfig
        else if qc_RetryJitter c < 0 \<or> 1 < qc_RetryJitter c then Inl ErrConfig
        else Inr \<lparr>qc_Streams = qt_fill (qc_Streams c),
          qc_WorkerCount = workers,
          qc_MaxWorkerCount = max workers (or_positive (qc_MaxWorkerCount c) (qc_MaxWorkerCount d)),
          qc_HeartbeatInterval = interval, qc_HeartbeatTimeout = timeout,
          qc_HeartbeatCheckInterval = or_positive (qc_HeartbeatCheckInterval c) (qc_HeartbeatCheckInterval d),
          qc_VisibilityTimeout = or_positive (qc_VisibilityTimeout c) (qc_VisibilityTimeout d),
          qc_ConsumerBatchSize = or_positive (qc_ConsumerBatchSize c) (qc_ConsumerBatchSize d),
          qc_ConsumerBlock = (if qc_ConsumerBlock c < 0 then qc_ConsumerBlock d else qc_ConsumerBlock c),
          qc_PendingCheckInterval = or_positive (qc_PendingCheckInterval c) (qc_PendingCheckInterval d),
          qc_MaxRetries = (if qc_MaxRetries c = 0 then qc_MaxRetries d else qc_MaxRetries c),
          qc_RetryBaseDelay = base,
          qc_RetryMaxDelay = max base (or_positive (qc_RetryMaxDelay c) (qc_RetryMaxDelay d)),
          qc_RetryJitter = qc_RetryJitter c, qc_DeadLetterMaxLen = qc_DeadLetterMaxLen c,
          qc_ShutdownGrace = or_positive (qc_ShutdownGrace c) (qc_ShutdownGrace d)\<rparr>)"

definition qc_normal :: "queue_config \<Rightarrow> bool" where
  "qc_normal c \<longleftrightarrow> 0 < qc_WorkerCount c \<and> qc_WorkerCount c \<le> qc_MaxWorkerCount c
     \<and> 0 < qc_HeartbeatInterval c \<and> qc_HeartbeatInterval c < qc_HeartbeatTimeout c \<and> 0 < qc_HeartbeatCheckInterval c
     \<and> 0 < qc_VisibilityTimeout c \<and> 0 < qc_ConsumerBatchSize c \<and> 0 \<le> qc_ConsumerBlock c \<and> 0 < qc_PendingCheckInterval c
     \<and> 0 < qc_MaxRetries c \<and> 0 < qc_RetryBaseDelay c \<and> qc_RetryBaseDelay c \<le> qc_RetryMaxDelay c
     \<and> 0 \<le> qc_RetryJitter c \<and> qc_RetryJitter c \<le> 1 \<and> 0 < qc_ShutdownGrace c
     \<and> qt_Execution (qc_Streams c) \<noteq> [] \<and> qt_DeadLetter (qc_Streams c) \<noteq> [] \<and> qt_Group (qc_Streams c) \<noteq> []
     \<and> qt_Retry (qc_Streams c) \<noteq> []"

lemma or_positive_simps [simp]: "0 < d \<Longrightarrow> 0 < or_positive i d" "0 < i \<Longrightarrow> or_positive i d = i"
  by (simp_all add: or_positive_def)

lemma or_text_simps [simp]: "d \<noteq> [] \<Longrightarrow> or_text s d \<noteq> []" "s \<noteq> [] \<Longrightarrow> or_text s d = s"
  by (simp_all add: or_text_def)

lemma qc_Default_normal: "qc_normal qc_Default"
  by (simp add: qc_normal_def qc_Default_def)

lemma qc_Validate_normal:
  assumes "qc_Validate c = Inr c'"
  shows "qc_normal c'"
  using assms by (auto simp: qc_Validate_def Let_def qc_normal_def qt_fill_def qc_Default_def split: if_split_asm)

lemma qc_Validate_fixpoint:
  assumes "qc_normal c"
  shows "qc_Validate c = Inr c"
  using assms by (cases c, cases "qc_Streams c") (auto simp: qc_Validate_def Let_def qc_normal_def qt_fill_def)

section \<open>The worker registry\<close>

type_synonym worker_registry = "(string, worker) gomap"

definition wreg_New :: worker_registry where
  "wreg_New = []"

definition wreg_Register :: "time \<Rightarrow> worker \<Rightarrow> worker_registry \<Rightarrow> worker_registry \<times> queue_error option" where
  "wreg_Register now w r =
    (if gm_has r (wk_ID w) then (r, Some ErrDuplicateWorker)
     else (AList.update (wk_ID w)
       (w\<lparr>wk_State := WorkerStarting, wk_StartedAt := now, wk_LastHeartbeat := now, wk_Transitions := 1\<rparr>) r, None))"

definition wreg_Deregister :: "string \<Rightarrow> worker_registry \<Rightarrow> worker_registry \<times> queue_error option" where
  "wreg_Deregister i r = (if gm_has r i then (AList.delete i r, None) else (r, Some ErrWorkerNotFound))"

definition wreg_Get :: "string \<Rightarrow> worker_registry \<Rightarrow> queue_error + worker" where
  "wreg_Get i r = (case map_of r i of None \<Rightarrow> Inl ErrWorkerNotFound | Some w \<Rightarrow> Inr w)"

definition wreg_UpdateState :: "string \<Rightarrow> worker_state \<Rightarrow> worker_registry \<Rightarrow> worker_registry \<times> queue_error option" where
  "wreg_UpdateState i to r =
    (case map_of r i of
       None \<Rightarrow> (r, Some ErrWorkerNotFound)
     | Some w \<Rightarrow>
         if \<not> CanTransitionWorker (wk_State w) to then (r, Some ErrIllegalWorkerTransition)
         else (AList.update i (w\<lparr>wk_State := to, wk_Transitions := wk_Transitions w + 1\<rparr>) r, None))"

definition wreg_UpdateHeartbeat :: "time \<Rightarrow> string \<Rightarrow> health \<Rightarrow> worker_registry \<Rightarrow> worker_registry \<times> queue_error option" where
  "wreg_UpdateHeartbeat now i h r =
    (case map_of r i of
       None \<Rightarrow> (r, Some ErrWorkerNotFound)
     | Some w \<Rightarrow> (AList.update i (w\<lparr>wk_LastHeartbeat := now, wk_Health := h\<rparr>) r, None))"

definition wreg_UpdateCurrentJob :: "time \<Rightarrow> string \<Rightarrow> string \<Rightarrow> string \<Rightarrow> worker_registry \<Rightarrow> worker_registry \<times> queue_error option" where
  "wreg_UpdateCurrentJob now i jobID msgID r =
    (case map_of r i of
       None \<Rightarrow> (r, Some ErrWorkerNotFound)
     | Some w \<Rightarrow>
         let w = w\<lparr>wk_CurrentJob := jobID, wk_CurrentMsg := msgID\<rparr>;
             w = (if jobID \<noteq> [] then w\<lparr>wk_Stats := (wk_Stats w)\<lparr>ws_LastJobAt := now\<rparr>\<rparr> else w)
         in (AList.update i w r, None))"

definition wreg_UpdateStats :: "string \<Rightarrow> (worker_stats \<Rightarrow> worker_stats) \<Rightarrow> worker_registry \<Rightarrow> worker_registry \<times> queue_error option" where
  "wreg_UpdateStats i f r =
    (case map_of r i of
       None \<Rightarrow> (r, Some ErrWorkerNotFound)
     | Some w \<Rightarrow> (AList.update i (w\<lparr>wk_Stats := f (wk_Stats w)\<rparr>) r, None))"

definition wreg_ByState :: "worker_state \<Rightarrow> worker_registry \<Rightarrow> worker list" where
  "wreg_ByState s r = filter (\<lambda>w. wk_State w = s) (map snd r)"

definition wreg_ByCapability :: "string \<Rightarrow> worker_registry \<Rightarrow> worker list" where
  "wreg_ByCapability cap r = filter (HasCapability cap) (map snd r)"

definition wreg_ByCurrentJob :: "string \<Rightarrow> worker_registry \<Rightarrow> queue_error + worker" where
  "wreg_ByCurrentJob jobID r = (case find (\<lambda>w. wk_CurrentJob w = jobID) (map snd r) of None \<Rightarrow> Inl ErrWorkerNotFound | Some w \<Rightarrow> Inr w)"

definition wreg_List :: "worker_registry \<Rightarrow> worker list" where
  "wreg_List r = map snd r"

section \<open>The heartbeat monitor\<close>

datatype queue_event_type =
  QvMessageQueued | QvMessageClaimed | QvMessageAcknowledged | QvJobDispatched | QvRetryScheduled | QvRetryFailed
| QvMovedToDeadLetter | QvWorkerRegistered | QvWorkerHeartbeat | QvWorkerOffline | QvWorkerRecovered
| QvConsumerStarted | QvConsumerStopped

record queue_event =
  qv_Type :: queue_event_type
  qv_MessageID :: string
  qv_JobID :: string
  qv_WorkerID :: string
  qv_Stream :: string
  qv_Group :: string
  qv_Consumer :: string
  qv_State :: msg_state
  qv_Attempt :: int
  qv_Reason :: string
  qv_Timestamp :: time

definition worker_event :: "queue_event_type \<Rightarrow> string \<Rightarrow> string \<Rightarrow> time \<Rightarrow> queue_event" where
  "worker_event ty i reason t = \<lparr>qv_Type = ty, qv_MessageID = [], qv_JobID = [], qv_WorkerID = i, qv_Stream = [], qv_Group = [],
     qv_Consumer = [], qv_State = MsgCreated, qv_Attempt = 0, qv_Reason = reason, qv_Timestamp = t\<rparr>"

text \<open>\<open>now n\<close> is the \<open>n\<close>-th reading of the clock by the call.\<close>

definition hb_Heartbeat :: "(nat \<Rightarrow> time) \<Rightarrow> string \<Rightarrow> worker_registry \<Rightarrow> worker_registry \<times> queue_error option \<times> queue_event list" where
  "hb_Heartbeat now i r =
    (case wreg_Get i r of
       Inl e \<Rightarrow> (r, Some e, [])
     | Inr w \<Rightarrow>
         (case wreg_UpdateHeartbeat (now 0) i HealthHealthy r of
            (r, Some e) \<Rightarrow> (r, Some e, [])
          | (r, None) \<Rightarrow>
              (r, None,
               (if wk_Health w \<noteq> HealthHealthy \<and> wk_Health w \<noteq> HealthUnknown then [worker_event QvWorkerRecovered i [] (now 1)] else [])
               @ [worker_event QvWorkerHeartbeat i [] (now 2)])))"

definition hb_check :: "queue_config \<Rightarrow> time \<Rightarrow> (string \<Rightarrow> time) \<Rightarrow> worker \<Rightarrow> worker_registry \<Rightarrow> worker_registry \<times> queue_event list" where
  "hb_check cfg now later w r =
    (if wk_State w = WorkerOffline then (r, [])
     else let idle = now - wk_LastHeartbeat w
          in if qc_HeartbeatTimeout cfg < idle
             then (case wreg_UpdateState (wk_ID w) WorkerOffline r of
                     (r, Some e) \<Rightarrow> (r, [])
                   | (r, None) \<Rightarrow> (fst (wreg_UpdateHeartbeat (later (wk_ID w)) (wk_ID w) HealthUnhealthy r),
                                  [worker_event QvWorkerOffline (wk_ID w) ''queue: worker heartbeat timeout'' now]))
             else if qc_HeartbeatInterval cfg * 2 < idle \<and> wk_Health w = HealthHealthy
             then (fst (wreg_UpdateHeartbeat (later (wk_ID w)) (wk_ID w) HealthDegraded r), [])
             else (r, []))"

fun hb_check_loop :: "queue_config \<Rightarrow> time \<Rightarrow> (string \<Rightarrow> time) \<Rightarrow> worker list \<Rightarrow> worker_registry \<Rightarrow> worker_registry \<times> queue_event list" where
  "hb_check_loop cfg now later [] r = (r, [])"
| "hb_check_loop cfg now later (w # ws) r =
    (let (r, evs) = hb_check cfg now later w r; (r, evs') = hb_check_loop cfg now later ws r in (r, evs @ evs'))"

definition hb_checkWorkers :: "queue_config \<Rightarrow> time \<Rightarrow> (string \<Rightarrow> time) \<Rightarrow> worker_registry \<Rightarrow> worker_registry \<times> queue_event list" where
  "hb_checkWorkers cfg now later r = hb_check_loop cfg now later (wreg_List r) r"

section \<open>What the registry keeps\<close>

text \<open>Every worker is filed once, under its own id.\<close>

definition wreg_ok :: "worker_registry \<Rightarrow> bool" where
  "wreg_ok r \<longleftrightarrow> gm_wf r \<and> (\<forall>i w. map_of r i = Some w \<longrightarrow> wk_ID w = i)"

lemma wreg_ok_Register: "wreg_ok r \<Longrightarrow> wreg_ok (fst (wreg_Register now w r))"
  by (auto simp: wreg_ok_def wreg_Register_def)

lemma wreg_ok_Deregister: "wreg_ok r \<Longrightarrow> wreg_ok (fst (wreg_Deregister i r))"
  by (auto simp: wreg_ok_def wreg_Deregister_def)

lemma wreg_ok_put: "wreg_ok r \<Longrightarrow> wk_ID w = i \<Longrightarrow> wreg_ok (AList.update i w r)"
  by (auto simp: wreg_ok_def)

lemma wreg_ok_update:
  assumes "wreg_ok r"
  shows "wreg_ok (fst (wreg_UpdateState i to r))" "wreg_ok (fst (wreg_UpdateHeartbeat now i h r))"
    "wreg_ok (fst (wreg_UpdateCurrentJob now i jobID msgID r))" "wreg_ok (fst (wreg_UpdateStats i f r))"
  using assms by (auto simp: wreg_UpdateState_def wreg_UpdateHeartbeat_def wreg_UpdateCurrentJob_def wreg_UpdateStats_def Let_def
      wreg_ok_def split: option.split)

text \<open>A worker changes state only along the worker lifecycle, and an offline worker stays offline
  until it is deregistered.\<close>

lemma wreg_UpdateState_iff:
  "wreg_UpdateState i to r = (r', None) \<longleftrightarrow>
    (\<exists>w. map_of r i = Some w \<and> CanTransitionWorker (wk_State w) to
       \<and> r' = AList.update i (w\<lparr>wk_State := to, wk_Transitions := wk_Transitions w + 1\<rparr>) r)"
  by (auto simp: wreg_UpdateState_def split: option.split)

lemma wreg_offline_stays:
  assumes "map_of r i = Some w" "wk_State w = WorkerOffline"
  shows "wreg_UpdateState i to r = (r, Some ErrIllegalWorkerTransition)"
  using assms by (simp add: wreg_UpdateState_def)

text \<open>A monitor pass does to each worker what its own state and age call for, whatever the others are.\<close>

definition hb_spec :: "queue_config \<Rightarrow> time \<Rightarrow> (string \<Rightarrow> time) \<Rightarrow> worker \<Rightarrow> worker" where
  "hb_spec cfg now later w =
    (if wk_State w = WorkerOffline then w
     else if qc_HeartbeatTimeout cfg < now - wk_LastHeartbeat w
     then w\<lparr>wk_State := WorkerOffline, wk_Transitions := wk_Transitions w + 1, wk_LastHeartbeat := later (wk_ID w), wk_Health := HealthUnhealthy\<rparr>
     else if qc_HeartbeatInterval cfg * 2 < now - wk_LastHeartbeat w \<and> wk_Health w = HealthHealthy
     then w\<lparr>wk_LastHeartbeat := later (wk_ID w), wk_Health := HealthDegraded\<rparr>
     else w)"

lemma hb_check_spec:
  assumes "map_of r (wk_ID w) = Some w"
  shows "map_of (fst (hb_check cfg now later w r)) = (map_of r)(wk_ID w \<mapsto> hb_spec cfg now later w)"
proof -
  have "CanTransitionWorker (wk_State w) WorkerOffline" if "wk_State w \<noteq> WorkerOffline" using that by (cases "wk_State w") simp_all
  then show ?thesis using assms
    by (auto simp: hb_check_def hb_spec_def wreg_UpdateState_def wreg_UpdateHeartbeat_def Let_def fun_eq_iff)
qed

lemma hb_check_loop_spec:
  assumes "distinct (map wk_ID ws)" "\<And>w. w \<in> set ws \<Longrightarrow> map_of r (wk_ID w) = Some w"
  shows "map_of (fst (hb_check_loop cfg now later ws r)) i =
    (if i \<in> wk_ID ` set ws then map_option (hb_spec cfg now later) (map_of r i) else map_of r i)"
  using assms
proof (induction ws arbitrary: r)
  case (Cons w ws)
  let ?r = "fst (hb_check cfg now later w r)"
  have r: "map_of ?r = (map_of r)(wk_ID w \<mapsto> hb_spec cfg now later w)" using hb_check_spec Cons.prems(2) by simp
  have "map_of ?r (wk_ID x) = Some x" if x: "x \<in> set ws" for x
  proof -
    have "wk_ID x \<noteq> wk_ID w" using x Cons.prems(1) by (metis distinct.simps(2) image_eqI list.set_map list.simps(9))
    then show ?thesis using x Cons.prems(2) by (simp add: r)
  qed
  then have "map_of (fst (hb_check_loop cfg now later ws ?r)) i =
      (if i \<in> wk_ID ` set ws then map_option (hb_spec cfg now later) (map_of ?r i) else map_of ?r i)"
    using Cons.IH [of ?r] Cons.prems(1) by simp
  then show ?case using Cons.prems by (auto simp: r Let_def case_prod_beta)
qed simp

lemma wreg_List_ids:
  assumes "wreg_ok r"
  shows "map wk_ID (wreg_List r) = map fst r" "w \<in> set (wreg_List r) \<Longrightarrow> map_of r (wk_ID w) = Some w"
  using assms by (auto simp: wreg_List_def wreg_ok_def gm_wf_map_of_eq)

lemma hb_checkWorkers_spec:
  assumes "wreg_ok r"
  shows "map_of (fst (hb_checkWorkers cfg now later r)) i = map_option (hb_spec cfg now later) (map_of r i)"
proof -
  have d: "distinct (map wk_ID (wreg_List r))"
    using assms by (simp add: wreg_List_ids(1)) (simp add: wreg_ok_def gm_wf_def)
  have s: "wk_ID ` set (wreg_List r) = fst ` set r"
    using wreg_List_ids(1) [OF assms] by (metis list.set_map)
  have "map_of r i = None" if "i \<notin> fst ` set r" using that by (simp add: map_of_eq_None_iff)
  then show ?thesis using hb_check_loop_spec [OF d wreg_List_ids(2) [OF assms], of cfg now later i]
    by (auto simp: hb_checkWorkers_def s)
qed

text \<open>
  The degraded mark counts as a heartbeat: it renews the very timestamp that the timeout is
  measured from. A worker that falls silent is therefore not offline when its last heartbeat is
  as old as the timeout. Here it stopped 10.5 seconds ago, with the default timeout of 10 seconds.
\<close>

definition ex_silent :: worker where
  "ex_silent = \<lparr>wk_ID = ''w'', wk_State = WorkerIdle, wk_Health = HealthHealthy, wk_Capabilities = [], wk_CurrentJob = [],
     wk_CurrentMsg = [], wk_LastHeartbeat = 0, wk_Version = [], wk_Runtime = [],
     wk_Resources = \<lparr>wr_CPUMillicores = 0, wr_MemoryBytes = 0, wr_MaxConcurrent = 0\<rparr>,
     wk_Stats = \<lparr>ws_Processed = 0, ws_Succeeded = 0, ws_Failed = 0, ws_Retried = 0, ws_BusyTime = 0, ws_LastJobAt = 0\<rparr>,
     wk_StartedAt = 0, wk_SandboxID = [], wk_Transitions = 2\<rparr>"

lemma silent_worker_not_offline_at_timeout:
  "wk_State (hb_spec qc_Default (10500 * Millisecond) l2 (hb_spec qc_Default (4500 * Millisecond) (\<lambda>_. 4500 * Millisecond) ex_silent)) = WorkerIdle"
  by (simp add: hb_spec_def qc_Default_def ex_silent_def)

end
