(* ===== verification/Exec_Job.thy ===== *)
theory Exec_Job
  imports CPIP_Prelude
begin

text \<open>
  The domain model of the execution orchestrator (\<open>execution/job\<close>): the job lifecycle graph, the
  outcome of a job, the request, the job entity and its statistics. Job values are copied on every
  hand-over in the code (\<open>Clone\<close>); values of HOL need no copy.
\<close>

section \<open>Lifecycle\<close>

datatype job_state =
    StatePending | StateValidated | StateQueued | StateDispatched | StateRunning | StateStreaming
  | StateCompleted | StateFailed | StateTimedOut | StateCancelled | StateRetrying | StateArchived
  | StateUnknown nat

fun job_state_String :: "job_state \<Rightarrow> string" where
  "job_state_String StatePending = ''pending''"
| "job_state_String StateValidated = ''validated''"
| "job_state_String StateQueued = ''queued''"
| "job_state_String StateDispatched = ''dispatched''"
| "job_state_String StateRunning = ''running''"
| "job_state_String StateStreaming = ''streaming''"
| "job_state_String StateCompleted = ''completed''"
| "job_state_String StateFailed = ''failed''"
| "job_state_String StateTimedOut = ''timed_out''"
| "job_state_String StateCancelled = ''cancelled''"
| "job_state_String StateRetrying = ''retrying''"
| "job_state_String StateArchived = ''archived''"
| "job_state_String (StateUnknown _) = ''unknown''"

definition job_transitions :: "(job_state, job_state list) gomap" where
  "job_transitions =
    [(StatePending, [StateValidated, StateFailed, StateCancelled]),
     (StateValidated, [StateQueued, StateFailed, StateCancelled]),
     (StateQueued, [StateDispatched, StateFailed, StateTimedOut, StateCancelled]),
     (StateDispatched, [StateRunning, StateFailed, StateTimedOut, StateCancelled]),
     (StateRunning, [StateStreaming, StateCompleted, StateFailed, StateTimedOut, StateCancelled]),
     (StateStreaming, [StateCompleted, StateFailed, StateTimedOut, StateCancelled]),
     (StateCompleted, [StateArchived]),
     (StateFailed, [StateRetrying, StateArchived]),
     (StateTimedOut, [StateRetrying, StateArchived]),
     (StateCancelled, [StateArchived]),
     (StateRetrying, [StateQueued, StateFailed, StateCancelled]),
     (StateArchived, [])]"

definition job_CanTransition :: "job_state \<Rightarrow> job_state \<Rightarrow> bool" where
  "job_CanTransition from to = (case map_of job_transitions from of None \<Rightarrow> False | Some next \<Rightarrow> to \<in> set next)"

definition job_IsTerminal :: "job_state \<Rightarrow> bool" where
  "job_IsTerminal s \<longleftrightarrow> s = StateArchived"

fun job_IsFinished :: "job_state \<Rightarrow> bool" where
  "job_IsFinished StateCompleted = True"
| "job_IsFinished StateFailed = True"
| "job_IsFinished StateTimedOut = True"
| "job_IsFinished StateCancelled = True"
| "job_IsFinished StateArchived = True"
| "job_IsFinished _ = False"

definition job_IsActive :: "job_state \<Rightarrow> bool" where
  "job_IsActive s \<longleftrightarrow> \<not> job_IsFinished s"

definition job_CanRetry :: "job_state \<Rightarrow> bool" where
  "job_CanRetry s \<longleftrightarrow> s = StateFailed \<or> s = StateTimedOut"

datatype job_outcome =
  OutcomeNone | OutcomeSuccess | OutcomeFailure | OutcomeTimeout | OutcomeCancelled | OutcomeUnknown nat

fun job_outcome_String :: "job_outcome \<Rightarrow> string" where
  "job_outcome_String OutcomeNone = ''none''"
| "job_outcome_String OutcomeSuccess = ''success''"
| "job_outcome_String OutcomeFailure = ''failure''"
| "job_outcome_String OutcomeTimeout = ''timeout''"
| "job_outcome_String OutcomeCancelled = ''cancelled''"
| "job_outcome_String (OutcomeUnknown _) = ''unknown''"

fun job_OutcomeFor :: "job_state \<Rightarrow> job_outcome" where
  "job_OutcomeFor StateCompleted = OutcomeSuccess"
| "job_OutcomeFor StateFailed = OutcomeFailure"
| "job_OutcomeFor StateTimedOut = OutcomeTimeout"
| "job_OutcomeFor StateCancelled = OutcomeCancelled"
| "job_OutcomeFor _ = OutcomeNone"

section \<open>Requests and jobs\<close>

text \<open>\<open>Priority\<close> is an \<open>int8\<close> that is only compared.\<close>

type_synonym priority = int

definition priority_String :: "priority \<Rightarrow> string" where
  "priority_String p =
    (if p = 0 then ''low'' else if p = 1 then ''normal'' else if p = 2 then ''high''
     else if p = 3 then ''critical'' else ''unknown'')"

record resource_profile =
  rp_Tier :: string
  rp_MemoryBytes :: int
  rp_CPUMillicores :: int
  rp_PidsLimit :: int
  rp_TmpfsBytes :: int
  rp_WallTimeout :: duration

definition rp_zero :: resource_profile where
  "rp_zero = \<lparr>rp_Tier = [], rp_MemoryBytes = 0, rp_CPUMillicores = 0, rp_PidsLimit = 0, rp_TmpfsBytes = 0, rp_WallTimeout = 0\<rparr>"

definition rp_IsZero :: "resource_profile \<Rightarrow> bool" where
  "rp_IsZero r \<longleftrightarrow> r = rp_zero"

record exec_options =
  eo_Args :: "string list"
  eo_Env :: "(string, string) gomap"
  eo_NetworkAccess :: bool

record exec_request =
  rq_RequestID :: string
  rq_CorrelationID :: string
  rq_UserID :: string
  rq_SessionID :: string
  rq_RoomID :: string
  rq_Language :: string
  rq_Source :: string
  rq_Stdin :: string
  rq_CompilerOptions :: "string list"
  rq_ExecutionOptions :: exec_options
  rq_Priority :: priority
  rq_Timeout :: duration
  rq_Resources :: "resource_profile option"
  rq_Metadata :: "(string, string) gomap"
  rq_Authenticated :: bool
  rq_Roles :: "string list"

record job =
  j_ID :: string
  j_RequestID :: string
  j_CorrelationID :: string
  j_UserID :: string
  j_SessionID :: string
  j_RoomID :: string
  j_Language :: string
  j_Source :: string
  j_Stdin :: string
  j_CompilerOptions :: "string list"
  j_ExecutionOptions :: exec_options
  j_Priority :: priority
  j_State :: job_state
  j_Outcome :: job_outcome
  j_RetryCount :: int
  j_MaxRetries :: int
  j_CreatedAt :: time
  j_ScheduledAt :: time
  j_StartedAt :: time
  j_CompletedAt :: time
  j_Timeout :: duration
  j_Resources :: resource_profile
  j_CancelRequested :: bool
  j_Metadata :: "(string, string) gomap"
  j_WorkerID :: string
  j_SandboxID :: string
  j_ContainerID :: string
  j_Transitions :: int

record job_defaults =
  df_ID :: string
  df_RequestID :: string
  df_CorrelationID :: string
  df_Now :: time
  df_Timeout :: duration
  df_MaxRetries :: int
  df_Resources :: resource_profile

definition job_New :: "exec_request \<Rightarrow> job_defaults \<Rightarrow> job" where
  "job_New req d =
    (let timeout = (if rq_Timeout req \<le> 0 then df_Timeout d else rq_Timeout req);
         resources0 = (case rq_Resources req of
             Some r \<Rightarrow> if \<not> rp_IsZero r then r else df_Resources d
           | None \<Rightarrow> df_Resources d);
         resources = (if rp_WallTimeout resources0 \<le> 0 then resources0\<lparr>rp_WallTimeout := timeout\<rparr> else resources0)
     in \<lparr>j_ID = df_ID d, j_RequestID = df_RequestID d, j_CorrelationID = df_CorrelationID d,
         j_UserID = rq_UserID req, j_SessionID = rq_SessionID req, j_RoomID = rq_RoomID req,
         j_Language = rq_Language req, j_Source = rq_Source req, j_Stdin = rq_Stdin req,
         j_CompilerOptions = rq_CompilerOptions req, j_ExecutionOptions = rq_ExecutionOptions req,
         j_Priority = rq_Priority req, j_State = StatePending, j_Outcome = OutcomeNone,
         j_RetryCount = 0, j_MaxRetries = df_MaxRetries d, j_CreatedAt = df_Now d, j_ScheduledAt = 0,
         j_StartedAt = 0, j_CompletedAt = 0, j_Timeout = timeout, j_Resources = resources,
         j_CancelRequested = False, j_Metadata = rq_Metadata req, j_WorkerID = [], j_SandboxID = [],
         j_ContainerID = [], j_Transitions = 0\<rparr>)"

record job_statistics =
  st_State :: job_state
  st_Outcome :: job_outcome
  st_RetryCount :: int
  st_Transitions :: int
  st_QueueWait :: duration
  st_ExecTime :: duration
  st_TotalTime :: duration

definition job_Statistics :: "job \<Rightarrow> job_statistics" where
  "job_Statistics j =
    \<lparr>st_State = j_State j, st_Outcome = j_Outcome j, st_RetryCount = j_RetryCount j,
     st_Transitions = j_Transitions j,
     st_QueueWait = (if j_ScheduledAt j \<noteq> 0 \<and> j_StartedAt j \<noteq> 0 then j_StartedAt j - j_ScheduledAt j else 0),
     st_ExecTime = (if j_StartedAt j \<noteq> 0 \<and> j_CompletedAt j \<noteq> 0 then j_CompletedAt j - j_StartedAt j else 0),
     st_TotalTime = (if j_CreatedAt j \<noteq> 0 \<and> j_CompletedAt j \<noteq> 0 then j_CompletedAt j - j_CreatedAt j else 0)\<rparr>"

datatype job_error =
    ErrInvalidRequest | ErrUnauthenticated | ErrUnauthorized | ErrUnsupportedLanguage
  | ErrCodeTooLarge | ErrStdinTooLarge | ErrInvalidTimeout | ErrInvalidResourceProfile | ErrInvalidPriority
  | ErrInvalidMetadata | ErrContext | ErrValidationFailed string job_error
  | ErrJobNotFound | ErrDuplicateJob | ErrIllegalTransition | ErrCancellationConflict
  | ErrRetryConflict | ErrRetriesExhausted | ErrSchedulerUnavailable | ErrOther string

section \<open>The lifecycle graph\<close>

lemma job_CanTransition_simps [simp]:
  "job_CanTransition StatePending t \<longleftrightarrow> t \<in> {StateValidated, StateFailed, StateCancelled}"
  "job_CanTransition StateValidated t \<longleftrightarrow> t \<in> {StateQueued, StateFailed, StateCancelled}"
  "job_CanTransition StateQueued t \<longleftrightarrow> t \<in> {StateDispatched, StateFailed, StateTimedOut, StateCancelled}"
  "job_CanTransition StateDispatched t \<longleftrightarrow> t \<in> {StateRunning, StateFailed, StateTimedOut, StateCancelled}"
  "job_CanTransition StateRunning t \<longleftrightarrow>
     t \<in> {StateStreaming, StateCompleted, StateFailed, StateTimedOut, StateCancelled}"
  "job_CanTransition StateStreaming t \<longleftrightarrow> t \<in> {StateCompleted, StateFailed, StateTimedOut, StateCancelled}"
  "job_CanTransition StateCompleted t \<longleftrightarrow> t = StateArchived"
  "job_CanTransition StateFailed t \<longleftrightarrow> t \<in> {StateRetrying, StateArchived}"
  "job_CanTransition StateTimedOut t \<longleftrightarrow> t \<in> {StateRetrying, StateArchived}"
  "job_CanTransition StateCancelled t \<longleftrightarrow> t = StateArchived"
  "job_CanTransition StateRetrying t \<longleftrightarrow> t \<in> {StateQueued, StateFailed, StateCancelled}"
  "\<not> job_CanTransition StateArchived t"
  "\<not> job_CanTransition (StateUnknown n) t"
  by (simp_all add: job_CanTransition_def job_transitions_def)

text \<open>The progress of a state within one attempt.\<close>

fun job_rank :: "job_state \<Rightarrow> int" where
  "job_rank StatePending = 0"
| "job_rank StateValidated = 1"
| "job_rank StateRetrying = 1"
| "job_rank StateQueued = 2"
| "job_rank StateDispatched = 3"
| "job_rank StateRunning = 4"
| "job_rank StateStreaming = 5"
| "job_rank StateArchived = 7"
| "job_rank _ = 6"

lemma job_rank_bounds: "0 \<le> job_rank s" "job_rank s \<le> 7"
  by (cases s; simp)+

lemma job_rank_step:
  "job_CanTransition s t \<Longrightarrow> job_rank s + 1 \<le> job_rank t + (if t = StateRetrying then 6 else 0)"
  by (cases s) auto

lemma job_rank_path:
  "successively job_CanTransition (s # ss) \<Longrightarrow>
     job_rank s + int (length ss) \<le> job_rank (last (s # ss)) + 6 * int (count_list ss StateRetrying)"
proof (induction ss arbitrary: s)
  case (Cons t ts)
  then show ?case using job_rank_step [of s t] by (fastforce split: if_splits)
qed simp

lemma job_resume_step: "job_CanTransition s t \<Longrightarrow> job_IsFinished s \<Longrightarrow> \<not> job_IsFinished t \<Longrightarrow> t = StateRetrying \<and> job_CanRetry s"
  by (cases s) (auto simp: job_CanRetry_def)

lemma job_reaches_archived: "s \<notin> range StateUnknown \<Longrightarrow> job_CanTransition\<^sup>*\<^sup>* s StateArchived"
proof -
  assume s: "s \<notin> range StateUnknown"
  have c: "job_CanTransition\<^sup>*\<^sup>* StateCancelled StateArchived" by (rule r_into_rtranclp) simp
  have f: "job_CanTransition\<^sup>*\<^sup>* StateFailed StateArchived" by (rule r_into_rtranclp) simp
  consider "s = StateArchived" | "job_CanTransition s StateArchived" | "job_CanTransition s StateCancelled"
    using s by (cases s) auto
  then show ?thesis using c by cases (auto intro: converse_rtranclp_into_rtranclp)
qed

text \<open>
  C29. The job lifecycle: a walk through the state machine that passes \<open>Retrying\<close> \<open>k\<close> times has at
  most \<open>7 + 6 k\<close> steps, so a job ends after finitely many transitions for a bounded number of
  retries; only a state past every outcome has no successor, and every state leads to it; a job
  runs only after it was dispatched, and one that has stopped resumes only through a retry of a
  failure or a timeout.
\<close>

theorem job_lifecycle_bounded:
  assumes "successively job_CanTransition (s # ss)" and "s \<notin> range StateUnknown"
  shows "int (length ss) \<le> 7 + 6 * int (count_list ss StateRetrying)
    \<and> ((\<nexists>t. job_CanTransition s t) \<longleftrightarrow> job_IsTerminal s) \<and> job_CanTransition\<^sup>*\<^sup>* s StateArchived
    \<and> (ss \<noteq> [] \<and> hd ss = StateRunning \<longrightarrow> s = StateDispatched)
    \<and> (ss \<noteq> [] \<and> job_IsFinished s \<and> job_IsActive (hd ss) \<longrightarrow> hd ss = StateRetrying \<and> job_CanRetry s)"
proof -
  have len: "int (length ss) \<le> 7 + 6 * int (count_list ss StateRetrying)"
    using job_rank_path [OF assms(1)] job_rank_bounds [of s] job_rank_bounds [of "last (s # ss)"] by linarith
  have sink: "(\<nexists>t. job_CanTransition s t) \<longleftrightarrow> job_IsTerminal s"
    using assms(2) by (cases s) (auto simp: job_IsTerminal_def)
  have hd: "job_CanTransition s (hd ss)" if "ss \<noteq> []" using assms(1) that by (cases ss) auto
  have run: "s = StateDispatched" if "job_CanTransition s StateRunning" using that by (cases s) auto
  show ?thesis
    using len sink hd run job_reaches_archived [OF assms(2)] job_resume_step [of s "hd ss"] by (auto simp: job_IsActive_def)
qed

theorem job_lifecycle_bounded_witness:
  "int (length [StateDispatched, StateFailed, StateRetrying, StateQueued]) \<le>
     7 + 6 * int (count_list [StateDispatched, StateFailed, StateRetrying, StateQueued] StateRetrying)"
  using job_lifecycle_bounded [of StateQueued "[StateDispatched, StateFailed, StateRetrying, StateQueued]"] by auto

section \<open>A sample request\<close>

definition ex_request :: exec_request where
  "ex_request =
    \<lparr>rq_RequestID = ''req-1'', rq_CorrelationID = ''corr-1'', rq_UserID = ''ada'', rq_SessionID = ''s1'',
     rq_RoomID = ''r1'', rq_Language = ''go'', rq_Source = ''package main'', rq_Stdin = [], rq_CompilerOptions = [],
     rq_ExecutionOptions = \<lparr>eo_Args = [], eo_Env = [], eo_NetworkAccess = False\<rparr>, rq_Priority = 1,
     rq_Timeout = 0, rq_Resources = None, rq_Metadata = [], rq_Authenticated = True, rq_Roles = []\<rparr>"

definition ex_defaults :: job_defaults where
  "ex_defaults =
    \<lparr>df_ID = ''job-1'', df_RequestID = ''req-1'', df_CorrelationID = ''corr-1'', df_Now = 100,
     df_Timeout = 15 * Second, df_MaxRetries = 3, df_Resources = rp_zero\<rparr>"

abbreviation ex_job :: job where
  "ex_job \<equiv> job_New ex_request ex_defaults"

end
