(* ===== verification/Queue_Delivery.thy ===== *)
theory Queue_Delivery
  imports Queue_Workers Exec_Job
begin

text \<open>
  The parts of the queue that write messages to streams: the producer, the dead-letter queue and
  the retry manager (\<open>queue/producer\<close>, \<open>queue/deadletter\<close>, \<open>queue/retry\<close>). They work over any
  stream client. The events they publish are returned in order; logging and counters are left out.
  A call that reads the clock several times takes the readings as a function of their number.
\<close>

section \<open>What the queue is wired with\<close>

record 'o worker_orch =
  wo_MarkStarted :: "time \<Rightarrow> string \<Rightarrow> 'o \<Rightarrow> 'o \<times> job_error option"
  wo_MarkCompleted :: "time \<Rightarrow> string \<Rightarrow> 'o \<Rightarrow> 'o \<times> job_error option"
  wo_MarkFailed :: "time \<Rightarrow> string \<Rightarrow> string \<Rightarrow> 'o \<Rightarrow> 'o \<times> job_error option"

text \<open>
  The configuration, the stream client, and the two views of the orchestrator, absent when the
  interface value is nil. A time is printed in the zone of the host and an error with the text of the
  client that raised it; both are given as functions.
\<close>

record ('c, 'o) queue_env =
  qe_cfg :: queue_config
  qe_ops :: "('c, msg_fields) stream_ops"
  qe_dispatch :: "(string \<Rightarrow> string \<Rightarrow> 'o \<Rightarrow> 'o \<times> job_error option) option"
  qe_worker :: "'o worker_orch option"
  qe_RFC3339 :: "time \<Rightarrow> string"
  qe_error_text :: "queue_error \<Rightarrow> string"

abbreviation qe_exec :: "('c, 'o) queue_env \<Rightarrow> string" where
  "qe_exec env \<equiv> qt_Execution (qc_Streams (qe_cfg env))"

abbreviation qe_group :: "('c, 'o) queue_env \<Rightarrow> string" where
  "qe_group env \<equiv> qt_Group (qc_Streams (qe_cfg env))"

abbreviation qe_dlq :: "('c, 'o) queue_env \<Rightarrow> string" where
  "qe_dlq env \<equiv> qt_DeadLetter (qc_Streams (qe_cfg env))"

definition message_event :: "queue_event_type \<Rightarrow> qmessage \<Rightarrow> string \<Rightarrow> string \<Rightarrow> msg_state \<Rightarrow> string \<Rightarrow> time \<Rightarrow> queue_event" where
  "message_event ty m wid stream st reason t = \<lparr>qv_Type = ty, qv_MessageID = qm_MessageID m, qv_JobID = qm_JobID m, qv_WorkerID = wid,
     qv_Stream = stream, qv_Group = [], qv_Consumer = [], qv_State = st, qv_Attempt = 0, qv_Reason = reason, qv_Timestamp = t\<rparr>"

section \<open>The producer\<close>

definition prod_Publish :: "('c, 'o) queue_env \<Rightarrow> (nat \<Rightarrow> time) \<Rightarrow> qmessage \<Rightarrow> 'c \<Rightarrow> 'c \<times> (queue_error + string) \<times> queue_event list" where
  "prod_Publish env now msg c =
    (if qm_JobID msg = [] then (c, Inl ErrInvalidMessage, [])
     else
       let msg = (if qm_MessageID msg = [] then msg\<lparr>qm_MessageID := qm_JobID msg\<rparr> else msg);
           msg = msg\<lparr>qm_State := MsgQueued, qm_EnqueueTime := now 0\<rparr>
       in case Marshal msg of
            Inl e \<Rightarrow> (c, Inl e, [])
          | Inr fs \<Rightarrow>
              (case so_Add (qe_ops env) (now 1) (qe_exec env) fs c of
                 (c, Inl e) \<Rightarrow> (c, Inl ErrRedisUnavailable, [])
               | (c, Inr streamID) \<Rightarrow>
                   (c, Inr streamID, [message_event QvMessageQueued msg [] (qe_exec env) MsgQueued [] (now 2)])))"

section \<open>The dead-letter queue\<close>

text \<open>The length check at the end of \<open>Send\<close> only logs.\<close>

definition dlq_message :: "('c, 'o) queue_env \<Rightarrow> time \<Rightarrow> string \<Rightarrow> qmessage \<Rightarrow> qmessage" where
  "dlq_message env now reason msg = msg\<lparr>qm_State := MsgDeadLetter,
     qm_Metadata := AList.update ''dead_letter_time'' (qe_RFC3339 env now)
       (AList.update ''dead_letter_reason'' reason (qm_Metadata msg))\<rparr>"

definition dlq_Send :: "('c, 'o) queue_env \<Rightarrow> (nat \<Rightarrow> time) \<Rightarrow> qmessage \<Rightarrow> string \<Rightarrow> 'c \<Rightarrow> 'c \<times> queue_error option \<times> queue_event list" where
  "dlq_Send env now msg reason c =
    (let msg = dlq_message env (now 0) reason msg
     in case Marshal msg of
          Inl e \<Rightarrow> (c, Some e, [])
        | Inr fs \<Rightarrow>
            (case so_Add (qe_ops env) (now 1) (qe_dlq env) fs c of
               (c, Inl e) \<Rightarrow> (c, Some ErrRedisUnavailable, [])
             | (c, Inr streamID) \<Rightarrow>
                 (c, None, [message_event QvMovedToDeadLetter msg [] (qe_dlq env) MsgDeadLetter reason (now 2)])))"

definition replay_group :: string where
  "replay_group = ''cpip-dlq-replay-group''"

definition replay_match :: "string \<Rightarrow> string \<times> msg_fields \<Rightarrow> bool" where
  "replay_match msgID e = (case Unmarshal (fst e) (snd e) of Inl _ \<Rightarrow> False | Inr m \<Rightarrow> qm_MessageID m = msgID)"

text \<open>
  The search reads batches until one is empty or holds the message. It takes one clock per batch;
  when the clocks run out the search has not ended and the result is \<open>None\<close>.
\<close>

fun replay_find ::
  "('c, 'o) queue_env \<Rightarrow> string \<Rightarrow> (nat \<Rightarrow> time) list \<Rightarrow> 'c \<Rightarrow> ('c \<times> (queue_error + (string \<times> msg_fields))) option" where
  "replay_find env msgID [] c = None"
| "replay_find env msgID (clk # clks) c =
    (case so_ReadGroup (qe_ops env) clk
       \<lparr>ra_Group = replay_group, ra_Consumer = ''dlq-replayer'', ra_Stream = qe_dlq env, ra_Count = 50,
        ra_Block = 100 * Millisecond, ra_NoAck = False\<rparr> c of
       (c, Inl e) \<Rightarrow> Some (c, Inl e)
     | (c, Inr entries) \<Rightarrow>
         if entries = [] then Some (c, Inl ErrMessageNotFound)
         else case find (replay_match msgID) entries of
                Some e \<Rightarrow> Some (c, Inr e)
              | None \<Rightarrow> replay_find env msgID clks c)"

definition replay_message :: "time \<Rightarrow> qmessage \<Rightarrow> qmessage" where
  "replay_message now msg = msg\<lparr>qm_State := MsgQueued, qm_RetryCount := 0, qm_EnqueueTime := now, qm_ScheduleTime := 0, qm_WorkerID := [],
     qm_Metadata := AList.delete ''dead_letter_time'' (AList.delete ''dead_letter_reason'' (qm_Metadata msg))\<rparr>"

definition replay_entry :: "('c, 'o) queue_env \<Rightarrow> (nat \<Rightarrow> time) \<Rightarrow> string \<Rightarrow> string \<times> msg_fields \<Rightarrow> 'c \<Rightarrow> 'c \<times> queue_error option" where
  "replay_entry env now targetStream e c =
    (case Unmarshal (fst e) (snd e) of
       Inl err \<Rightarrow> (c, Some err)
     | Inr msg \<Rightarrow>
         (case Marshal (replay_message (now 0) msg) of
            Inl err \<Rightarrow> (c, Some err)
          | Inr fs \<Rightarrow>
              (case so_Add (qe_ops env) (now 1) targetStream fs c of
                 (c, Inl err) \<Rightarrow> (c, Some err)
               | (c, Inr streamID) \<Rightarrow>
                   let c = fst (so_Ack (qe_ops env) (qe_dlq env) replay_group [fst e] c)
                   in (fst (so_Delete (qe_ops env) (qe_dlq env) [fst e] c), None))))"

definition replay_search ::
  "('c, 'o) queue_env \<Rightarrow> (nat \<Rightarrow> time) list \<Rightarrow> string \<Rightarrow> 'c \<Rightarrow> ('c \<times> (queue_error + (string \<times> msg_fields))) option" where
  "replay_search env clks msgID c = replay_find env msgID clks (fst (so_CreateGroup (qe_ops env) (qe_dlq env) replay_group ''0'' c))"

definition dlq_Replay ::
  "('c, 'o) queue_env \<Rightarrow> (nat \<Rightarrow> time) list \<Rightarrow> (nat \<Rightarrow> time) \<Rightarrow> string \<Rightarrow> string \<Rightarrow> 'c \<Rightarrow> ('c \<times> queue_error option) option" where
  "dlq_Replay env clks now msgID targetStream c =
    (case replay_search env clks msgID c of
       None \<Rightarrow> None
     | Some (c, Inl e) \<Rightarrow> Some (c, Some e)
     | Some (c, Inr e) \<Rightarrow> Some (replay_entry env now targetStream e c))"

section \<open>The retry manager\<close>

definition max_retries :: "queue_config \<Rightarrow> qmessage \<Rightarrow> int" where
  "max_retries cfg msg = (if qm_MaxRetries msg \<le> 0 then qc_MaxRetries cfg else qm_MaxRetries msg)"

text \<open>
  The conversion of a \<open>float64\<close> to an \<open>int64\<close> truncates toward zero. Beyond the range of the
  target it gives a value that depends on the processor, here \<open>over\<close>. Other \<open>float64\<close> arithmetic is
  exact; \<open>u\<close> is the random number from \<open>[0, 1)\<close>.
\<close>

definition to_duration :: "duration \<Rightarrow> rat \<Rightarrow> duration" where
  "to_duration over x = (let n = (if x < 0 then \<lceil>x\<rceil> else \<lfloor>x\<rfloor>) in if - (2 ^ 63) \<le> n \<and> n < 2 ^ 63 then n else over)"

definition retry_delay :: "queue_config \<Rightarrow> duration \<Rightarrow> rat \<Rightarrow> int \<Rightarrow> duration" where
  "retry_delay cfg over u attempt =
    (let delay = to_duration over (of_int (qc_RetryBaseDelay cfg) * (2 powi attempt));
         delay = (if delay > qc_RetryMaxDelay cfg then qc_RetryMaxDelay cfg else delay)
     in to_duration over (of_int delay * (85 / 100 + u * (30 / 100))))"

text \<open>Either the message goes to the dead-letter queue, or a goroutine waits with it for the delay.\<close>

definition retry_reason :: "int \<Rightarrow> int \<Rightarrow> string \<Rightarrow> string" where
  "retry_reason count mx err = ''max retries exceeded ('' @ dec_int count @ ''/'' @ dec_int mx @ ''). last error: '' @ err"

definition ScheduleRetry ::
  "('c, 'o) queue_env \<Rightarrow> (nat \<Rightarrow> time) \<Rightarrow> duration \<Rightarrow> rat \<Rightarrow> qmessage \<Rightarrow> string \<Rightarrow> 'c
     \<Rightarrow> 'c \<times> queue_error option \<times> (qmessage \<times> duration) option \<times> queue_event list" where
  "ScheduleRetry env now over u msg err c =
    (if max_retries (qe_cfg env) msg \<le> qm_RetryCount msg
     then (case dlq_Send env now msg (retry_reason (qm_RetryCount msg) (max_retries (qe_cfg env) msg) err) c of
             (c, e, evs) \<Rightarrow> (c, e, None, evs))
     else
       let delay = retry_delay (qe_cfg env) over u (qm_RetryCount msg);
           msg = msg\<lparr>qm_RetryCount := qm_RetryCount msg + 1, qm_State := MsgRetry, qm_ScheduleTime := now 0 + delay\<rparr>
       in (c, None, Some (msg, delay), [message_event QvRetryScheduled msg [] [] MsgRetry err (now 1)]))"

definition requeue_message :: "time \<Rightarrow> qmessage \<Rightarrow> qmessage" where
  "requeue_message now msg = msg\<lparr>qm_State := MsgQueued, qm_EnqueueTime := now, qm_ScheduleTime := 0, qm_WorkerID := []\<rparr>"

text \<open>\<open>waitAndRequeue\<close> after its timer has fired; the other branch, on shutdown, drops the message.\<close>

definition requeue :: "('c, 'o) queue_env \<Rightarrow> (nat \<Rightarrow> time) \<Rightarrow> qmessage \<Rightarrow> 'c \<Rightarrow> 'c \<times> queue_error option \<times> queue_event list" where
  "requeue env now msg c =
    (let msg = requeue_message (now 0) msg
     in case Marshal msg of
          Inl e \<Rightarrow> (c, Some e, [])
        | Inr fs \<Rightarrow>
            (case so_Add (qe_ops env) (now 1) (qe_exec env) fs c of
               (c, Inl e) \<Rightarrow> dlq_Send env (\<lambda>n. now (n + 2)) msg (''failed to enqueue retry: '' @ qe_error_text env e) c
             | (c, Inr streamID) \<Rightarrow>
                 (c, None, [message_event QvMessageQueued msg [] (qe_exec env) MsgQueued [] (now 2)])))"

section \<open>Bounds of the delay\<close>

text \<open>
  The delay grows with the attempts up to the configured maximum and is then spread by 15 percent to
  either side, so that the maximum itself is not an upper bound of what is waited.
\<close>

lemma to_duration_of_int: "- (2 ^ 63) \<le> n \<Longrightarrow> n < 2 ^ 63 \<Longrightarrow> to_duration over (of_int n) = n"
  by (simp add: to_duration_def)

lemma to_duration_floor:
  assumes "0 \<le> x" "x < 2 ^ 63"
  shows "to_duration over x = \<lfloor>x\<rfloor>"
  using assms by (auto simp: to_duration_def Let_def floor_less_iff)

lemma retry_delay_bounds:
  assumes "0 \<le> attempt" "0 < qc_RetryBaseDelay cfg" "qc_RetryBaseDelay cfg * 2 ^ nat attempt < 2 ^ 63"
    "0 < qc_RetryMaxDelay cfg" "qc_RetryMaxDelay cfg < 2 ^ 62" "0 \<le> u" "u < 1"
  defines "d \<equiv> min (qc_RetryBaseDelay cfg * 2 ^ nat attempt) (qc_RetryMaxDelay cfg)"
  shows "retry_delay cfg over u attempt = \<lfloor>of_int d * (85 / 100 + u * (30 / 100))\<rfloor>"
    "85 * d div 100 \<le> retry_delay cfg over u attempt" "100 * retry_delay cfg over u attempt \<le> 115 * d"
proof -
  let ?b = "qc_RetryBaseDelay cfg * 2 ^ nat attempt"
  have pw: "(2 :: rat) powi attempt = 2 ^ nat attempt" using assms(1) by (simp add: power_int_def)
  have "0 \<le> ?b" using assms(2) by simp
  then have "to_duration over (of_int ?b) = ?b" using assms(3) by (intro to_duration_of_int) auto
  then have b: "to_duration over (of_int (qc_RetryBaseDelay cfg) * (2 powi attempt)) = ?b" by (simp add: pw)
  have first: "(if to_duration over (of_int (qc_RetryBaseDelay cfg) * (2 powi attempt)) > qc_RetryMaxDelay cfg
      then qc_RetryMaxDelay cfg else to_duration over (of_int (qc_RetryBaseDelay cfg) * (2 powi attempt))) = d"
    unfolding b by (simp add: d_def min_def)
  have d: "0 \<le> d" "d < 2 ^ 62" using assms(2,4,5) by (auto simp: d_def)
  let ?x = "of_int d * (85 / 100 + u * (30 / 100)) :: rat"
  have j: "85 / 100 \<le> 85 / 100 + u * (30 / 100)" "85 / 100 + u * (30 / 100) \<le> 115 / 100" using assms(6,7) by auto
  have lo: "of_int d * (85 / 100) \<le> ?x" and hi: "?x \<le> of_int d * (115 / 100)"
    using mult_left_mono [OF j(1), of "of_int d"] mult_left_mono [OF j(2), of "of_int d"] d(1) by auto
  have "of_int d < (2 :: rat) ^ 62" using d(2) by (metis of_int_less_iff of_int_numeral of_int_power)
  then have "?x < 2 ^ 63" using hi by simp
  moreover have "0 \<le> ?x" using d(1) assms(6) by (intro mult_nonneg_nonneg) auto
  ultimately show eq: "retry_delay cfg over u attempt = \<lfloor>?x\<rfloor>"
    unfolding retry_delay_def Let_def first by (rule to_duration_floor [rotated])
  have "of_int (85 * d div 100) \<le> (of_int (85 * d) / of_int 100 :: rat)"
    by (metis floor_divide_of_int_eq of_int_floor_le of_int_numeral)
  then show "85 * d div 100 \<le> retry_delay cfg over u attempt" unfolding eq le_floor_iff using lo by simp
  have "of_int \<lfloor>?x\<rfloor> \<le> of_int d * (115 / 100 :: rat)" using hi of_int_floor_le order_trans by blast
  then have "of_int (100 * \<lfloor>?x\<rfloor>) \<le> (of_int (115 * d) :: rat)" by simp
  then show "100 * retry_delay cfg over u attempt \<le> 115 * d" unfolding eq of_int_le_iff .
qed

end
