(* ===== verification/Queue_Pool.thy ===== *)
theory Queue_Pool
  imports Queue_Delivery
begin

text \<open>
  The worker side of the queue: dispatcher, worker pool, consumer and the manager that wires them
  (\<open>queue/dispatcher\<close>, \<open>queue/workers\<close>, \<open>queue/consumer\<close>, \<open>queue/manager\<close>). The goroutines share one
  state. A goroutine's code is cut where it waits: on a channel, on a ticker or timer, or for
  the job handler. What a goroutine does between two such points is one definition, which takes the
  whole state to the whole state; \<open>None\<close> says that the goroutine still waits.
\<close>

section \<open>The state the goroutines share\<close>

text \<open>A worker thread waits for a job, runs one since a moment, or waits to report itself idle.\<close>

datatype thread_pc = WaitJob | Running qmessage time | PushIdle

record worker_thread =
  wt_jobCh :: "qmessage list"
  wt_pc :: thread_pc

datatype fetch_pc = FetchWait | FetchRead string | FetchHave string "string \<times> msg_fields"

text \<open>A recovery pass holds the cursor it started from, the next one and the entries left of the batch.\<close>

datatype recover_pc = RecoverWait | RecoverClaim string | RecoverEntries string string "(string \<times> msg_fields) list"

record ('c, 'o) queue_sys =
  qs_client :: 'c
  qs_orch :: 'o
  qs_reg :: worker_registry
  qs_threads :: "(string, worker_thread) gomap"
  qs_idle :: "string list"
  qs_fetch :: fetch_pc
  qs_recover :: recover_pc
  qs_timers :: "(qmessage \<times> duration) list"
  qs_jobStreamIDs :: "(string, string) gomap"
  qs_events :: "queue_event list"

definition qs_New :: "'c \<Rightarrow> 'o \<Rightarrow> ('c, 'o) queue_sys" where
  "qs_New c o1 = \<lparr>qs_client = c, qs_orch = o1, qs_reg = wreg_New, qs_threads = [], qs_idle = [], qs_fetch = FetchWait,
     qs_recover = RecoverWait, qs_timers = [], qs_jobStreamIDs = [], qs_events = []\<rparr>"

definition qs_publish :: "queue_event list \<Rightarrow> ('c, 'o) queue_sys \<Rightarrow> ('c, 'o) queue_sys" where
  "qs_publish evs s = s\<lparr>qs_events := qs_events s @ evs\<rparr>"

definition qs_setReg :: "worker_registry \<times> 'e \<Rightarrow> ('c, 'o) queue_sys \<Rightarrow> ('c, 'o) queue_sys" where
  "qs_setReg r s = s\<lparr>qs_reg := fst r\<rparr>"

section \<open>The dispatcher\<close>

datatype dispatch_error = DispatchRegistry queue_error | DispatchOrchestrator job_error

definition dispatch_rollback :: "time \<Rightarrow> string \<Rightarrow> worker_registry \<Rightarrow> worker_registry" where
  "dispatch_rollback now wid r = fst (wreg_UpdateCurrentJob now wid [] [] (fst (wreg_UpdateState wid WorkerIdle r)))"

definition Dispatch ::
  "('c, 'o) queue_env \<Rightarrow> (nat \<Rightarrow> time) \<Rightarrow> qmessage \<Rightarrow> string \<Rightarrow> worker_registry \<Rightarrow> 'o
     \<Rightarrow> worker_registry \<times> 'o \<times> dispatch_error option \<times> queue_event list" where
  "Dispatch env now msg wid r o1 =
    (case wreg_Get wid r of
       Inl e \<Rightarrow> (r, o1, Some (DispatchRegistry e), [])
     | Inr w \<Rightarrow>
         if wk_State w \<noteq> WorkerIdle then (r, o1, Some (DispatchRegistry ErrIllegalWorkerTransition), [])
         else case wreg_UpdateState wid WorkerReserved r of
           (r, Some e) \<Rightarrow> (r, o1, Some (DispatchRegistry e), [])
         | (r, None) \<Rightarrow>
             (case wreg_UpdateCurrentJob (now 0) wid (qm_JobID msg) (qm_MessageID msg) r of
                (r, Some e) \<Rightarrow> (dispatch_rollback (now 1) wid r, o1, Some (DispatchRegistry e), [])
              | (r, None) \<Rightarrow>
                  (case (case qe_dispatch env of None \<Rightarrow> (o1, None) | Some mark \<Rightarrow> mark (qm_JobID msg) wid o1) of
                     (o1, Some e) \<Rightarrow> (dispatch_rollback (now 1) wid r, o1, Some (DispatchOrchestrator e), [])
                   | (o1, None) \<Rightarrow> (r, o1, None, [message_event QvMessageClaimed msg wid [] MsgClaimed [] (now 2)]))))"

section \<open>The worker pool\<close>

definition new_worker :: "string \<Rightarrow> worker" where
  "new_worker wid = \<lparr>wk_ID = wid, wk_State = WorkerStarting, wk_Health = HealthHealthy, wk_Capabilities = [''go'', ''python'', ''js''],
     wk_CurrentJob = [], wk_CurrentMsg = [], wk_LastHeartbeat = 0, wk_Version = [], wk_Runtime = [],
     wk_Resources = \<lparr>wr_CPUMillicores = 0, wr_MemoryBytes = 0, wr_MaxConcurrent = 0\<rparr>,
     wk_Stats = \<lparr>ws_Processed = 0, ws_Succeeded = 0, ws_Failed = 0, ws_Retried = 0, ws_BusyTime = 0, ws_LastJobAt = 0\<rparr>,
     wk_StartedAt = 0, wk_SandboxID = [], wk_Transitions = 0\<rparr>"

text \<open>
  \<open>workerThread.Start\<close> up to the two goroutines, and \<open>run\<close> up to the push to the idle channel. A
  refused registration or transition leaves a worker that takes no jobs; it is deregistered again
  in the second case.
\<close>

definition worker_Start :: "(nat \<Rightarrow> time) \<Rightarrow> string \<Rightarrow> ('c, 'o) queue_sys \<Rightarrow> ('c, 'o) queue_sys" where
  "worker_Start now wid s =
    (case wreg_Register (now 0) (new_worker wid) (qs_reg s) of
       (r, Some e) \<Rightarrow> s
     | (r, None) \<Rightarrow>
         (case wreg_UpdateState wid WorkerIdle r of
            (r, Some e) \<Rightarrow> s\<lparr>qs_reg := fst (wreg_Deregister wid r)\<rparr>
          | (r, None) \<Rightarrow>
              qs_publish [worker_event QvWorkerRegistered wid [] (now 1)]
                (s\<lparr>qs_reg := r, qs_threads := AList.update wid \<lparr>wt_jobCh = [], wt_pc = PushIdle\<rparr> (qs_threads s)\<rparr>)))"

text \<open>\<open>time.Time.UnixNano\<close>, whose remainder takes the sign of the dividend.\<close>

definition UnixNano :: "time \<Rightarrow> int" where
  "UnixNano t = wrap64 (t - 62135596800 * Second)"

definition worker_id :: "time \<Rightarrow> nat \<Rightarrow> string" where
  "worker_id now i = ''worker-'' @ dec_int (sgn (UnixNano now) * (\<bar>UnixNano now\<bar> mod 100000)) @ ''-'' @ dec_nat i"

fun pool_Start :: "(nat \<Rightarrow> nat \<Rightarrow> time) \<Rightarrow> nat list \<Rightarrow> ('c, 'o) queue_sys \<Rightarrow> ('c, 'o) queue_sys" where
  "pool_Start now [] s = s"
| "pool_Start now (i # is) s = pool_Start now is (worker_Start (\<lambda>n. now i (n + 1)) (worker_id (now i 0) i) s)"

text \<open>The push of a worker to the idle channel, which holds one id per worker.\<close>

definition worker_push :: "('c, 'o) queue_env \<Rightarrow> string \<Rightarrow> ('c, 'o) queue_sys \<Rightarrow> ('c, 'o) queue_sys option" where
  "worker_push env wid s =
    (case map_of (qs_threads s) wid of
       Some t \<Rightarrow>
         if wt_pc t = PushIdle \<and> int (length (qs_idle s)) < qc_WorkerCount (qe_cfg env)
         then Some (s\<lparr>qs_idle := qs_idle s @ [wid], qs_threads := AList.update wid (t\<lparr>wt_pc := WaitJob\<rparr>) (qs_threads s)\<rparr>)
         else None
     | None \<Rightarrow> None)"

text \<open>\<open>Submit\<close> blocks while the worker's channel, which holds one message, is full.\<close>

definition Submit :: "qmessage \<Rightarrow> string \<Rightarrow> ('c, 'o) queue_sys \<Rightarrow> ('c, 'o) queue_sys option" where
  "Submit msg wid s =
    (case map_of (qs_threads s) wid of
       None \<Rightarrow> Some s
     | Some t \<Rightarrow>
         if wt_jobCh t = [] then Some (s\<lparr>qs_threads := AList.update wid (t\<lparr>wt_jobCh := [msg]\<rparr>) (qs_threads s)\<rparr>) else None)"

definition ReleaseWorker :: "('c, 'o) queue_env \<Rightarrow> string \<Rightarrow> ('c, 'o) queue_sys \<Rightarrow> ('c, 'o) queue_sys" where
  "ReleaseWorker env wid s =
    (if int (length (qs_idle s)) < qc_WorkerCount (qe_cfg env) then s\<lparr>qs_idle := qs_idle s @ [wid]\<rparr> else s)"

text \<open>\<open>execute\<close> up to the call of the handler.\<close>

definition execute_begin :: "('c, 'o) queue_env \<Rightarrow> (nat \<Rightarrow> time) \<Rightarrow> string \<Rightarrow> ('c, 'o) queue_sys \<Rightarrow> ('c, 'o) queue_sys option" where
  "execute_begin env now wid s =
    (case map_of (qs_threads s) wid of
       Some t \<Rightarrow>
         (case (wt_pc t, wt_jobCh t) of
            (WaitJob, msg # rest) \<Rightarrow>
              (case wreg_UpdateState wid WorkerExecuting (qs_reg s) of
                 (r, Some e) \<Rightarrow>
                   Some (s\<lparr>qs_threads := AList.update wid \<lparr>wt_jobCh = rest, wt_pc = PushIdle\<rparr> (qs_threads s)\<rparr>)
               | (r, None) \<Rightarrow>
                   let s = qs_setReg (wreg_UpdateStats wid (\<lambda>st. st\<lparr>ws_Processed := ws_Processed st + 1\<rparr>) r) s;
                       s = (case qe_worker env of None \<Rightarrow> s
                            | Some wo \<Rightarrow> s\<lparr>qs_orch := fst (wo_MarkStarted wo (now 0) (qm_JobID msg) (qs_orch s))\<rparr>)
                   in Some (s\<lparr>qs_threads := AList.update wid \<lparr>wt_jobCh = rest, wt_pc = Running msg (now 1)\<rparr> (qs_threads s)\<rparr>))
          | _ \<Rightarrow> None)
     | None \<Rightarrow> None)"

definition qs_ackDelete :: "('c, 'o) queue_env \<Rightarrow> string \<Rightarrow> ('c, 'o) queue_sys \<Rightarrow> ('c, 'o) queue_sys" where
  "qs_ackDelete env i s =
    (let c = fst (so_Ack (qe_ops env) (qe_exec env) (qe_group env) [i] (qs_client s))
     in s\<lparr>qs_client := fst (so_Delete (qe_ops env) (qe_exec env) [i] c)\<rparr>)"

text \<open>\<open>execute\<close> after the handler has returned nil.\<close>

definition execute_success :: "('c, 'o) queue_env \<Rightarrow> (nat \<Rightarrow> time) \<Rightarrow> string \<Rightarrow> qmessage \<Rightarrow> time \<Rightarrow> ('c, 'o) queue_sys \<Rightarrow> ('c, 'o) queue_sys" where
  "execute_success env now wid msg start s =
    (let s = qs_setReg (wreg_UpdateState wid WorkerCompleted (qs_reg s)) s;
         s = qs_setReg (wreg_UpdateCurrentJob (now 1) wid [] [] (qs_reg s)) s;
         s = (case qe_worker env of None \<Rightarrow> s
              | Some wo \<Rightarrow> s\<lparr>qs_orch := fst (wo_MarkCompleted wo (now 2) (qm_JobID msg) (qs_orch s))\<rparr>);
         s = qs_ackDelete env (qm_StreamID msg) s;
         s = qs_setReg (wreg_UpdateStats wid (\<lambda>st. st\<lparr>ws_Succeeded := ws_Succeeded st + 1, ws_BusyTime := ws_BusyTime st + (now 0 - start)\<rparr>) (qs_reg s)) s
     in qs_publish [message_event QvMessageAcknowledged msg wid [] MsgCompleted [] (now 3)] s)"

text \<open>
  \<open>execute\<close> after the handler has returned an error with text \<open>err\<close>. The error of \<open>ScheduleRetry\<close>
  is ignored.
\<close>

definition execute_failure ::
  "('c, 'o) queue_env \<Rightarrow> (nat \<Rightarrow> time) \<Rightarrow> duration \<Rightarrow> rat \<Rightarrow> string \<Rightarrow> qmessage \<Rightarrow> time \<Rightarrow> string \<Rightarrow> ('c, 'o) queue_sys \<Rightarrow> ('c, 'o) queue_sys" where
  "execute_failure env now over u wid msg start err s =
    (let s = qs_setReg (wreg_UpdateState wid WorkerFailed (qs_reg s)) s;
         s = qs_setReg (wreg_UpdateCurrentJob (now 1) wid [] [] (qs_reg s)) s;
         s = (case qe_worker env of None \<Rightarrow> s
              | Some wo \<Rightarrow> s\<lparr>qs_orch := fst (wo_MarkFailed wo (now 2) (qm_JobID msg) err (qs_orch s))\<rparr>);
         (c, e, timer, evs) = ScheduleRetry env (\<lambda>n. now (n + 3)) over u msg err (qs_client s);
         s = qs_publish evs (s\<lparr>qs_client := c, qs_timers := (case timer of None \<Rightarrow> [] | Some t \<Rightarrow> [t]) @ qs_timers s\<rparr>);
         s = qs_ackDelete env (qm_StreamID msg) s;
         s = qs_setReg (wreg_UpdateStats wid (\<lambda>st. st\<lparr>ws_Failed := ws_Failed st + 1, ws_BusyTime := ws_BusyTime st + (now 0 - start)\<rparr>) (qs_reg s)) s
     in qs_setReg (wreg_UpdateState wid WorkerRecovering (qs_reg s)) s)"

text \<open>The end of \<open>execute\<close>: \<open>res\<close> is the error text of the handler, if it failed.\<close>

definition execute_end ::
  "('c, 'o) queue_env \<Rightarrow> (nat \<Rightarrow> time) \<Rightarrow> duration \<Rightarrow> rat \<Rightarrow> string option \<Rightarrow> string \<Rightarrow> ('c, 'o) queue_sys \<Rightarrow> ('c, 'o) queue_sys option" where
  "execute_end env now over u res wid s =
    (case map_of (qs_threads s) wid of
       Some t \<Rightarrow>
         (case wt_pc t of
            Running msg start \<Rightarrow>
              let s = (case res of None \<Rightarrow> execute_success env now wid msg start s
                                 | Some err \<Rightarrow> execute_failure env now over u wid msg start err s);
                  s = qs_setReg (wreg_UpdateState wid WorkerIdle (qs_reg s)) s
              in Some (s\<lparr>qs_threads := AList.update wid (t\<lparr>wt_pc := PushIdle\<rparr>) (qs_threads s)\<rparr>)
          | _ \<Rightarrow> None)
     | None \<Rightarrow> None)"

text \<open>A worker whose context is cancelled, or whose channel is closed, leaves when it is not running a job.\<close>

definition worker_exit :: "string \<Rightarrow> ('c, 'o) queue_sys \<Rightarrow> ('c, 'o) queue_sys option" where
  "worker_exit wid s =
    (case map_of (qs_threads s) wid of
       Some t \<Rightarrow>
         (case wt_pc t of
            Running msg start \<Rightarrow> None
          | _ \<Rightarrow> Some (s\<lparr>qs_reg := fst (wreg_Deregister wid (qs_reg s)), qs_threads := AList.delete wid (qs_threads s)\<rparr>))
     | None \<Rightarrow> None)"

section \<open>The consumer\<close>

definition cons_Start :: "('c, 'o) queue_env \<Rightarrow> ('c, 'o) queue_sys \<Rightarrow> ('c, 'o) queue_sys \<times> queue_error option" where
  "cons_Start env s =
    (case so_CreateGroup (qe_ops env) (qe_exec env) (qe_group env) ''$'' (qs_client s) of (c, e) \<Rightarrow> (s\<lparr>qs_client := c\<rparr>, e))"

text \<open>An entry that is dropped: acknowledged, deleted, and the worker given back.\<close>

definition cons_drop :: "('c, 'o) queue_env \<Rightarrow> string \<Rightarrow> string \<Rightarrow> ('c, 'o) queue_sys \<Rightarrow> ('c, 'o) queue_sys" where
  "cons_drop env i wid s = ReleaseWorker env wid (qs_ackDelete env i s)"

definition cons_dispatch ::
  "('c, 'o) queue_env \<Rightarrow> (nat \<Rightarrow> time) \<Rightarrow> string \<Rightarrow> qmessage \<Rightarrow> string \<Rightarrow> ('c, 'o) queue_sys \<Rightarrow> ('c, 'o) queue_sys option" where
  "cons_dispatch env now i msg wid s =
    (case Dispatch env now msg wid (qs_reg s) (qs_orch s) of
       (r, o1, Some e, evs) \<Rightarrow> Some (cons_drop env i wid (s\<lparr>qs_reg := r, qs_orch := o1\<rparr>))
     | (r, o1, None, evs) \<Rightarrow> Submit msg wid (qs_publish evs (s\<lparr>qs_reg := r, qs_orch := o1\<rparr>)))"

text \<open>An iteration of \<open>fetchLoop\<close>: wait for an idle worker, read one entry, handle it.\<close>

definition fetch_worker :: "('c, 'o) queue_sys \<Rightarrow> ('c, 'o) queue_sys option" where
  "fetch_worker s =
    (case (qs_fetch s, qs_idle s) of
       (FetchWait, wid # rest) \<Rightarrow> Some (s\<lparr>qs_idle := rest, qs_fetch := FetchRead wid\<rparr>)
     | _ \<Rightarrow> None)"

definition fetch_args :: "('c, 'o) queue_env \<Rightarrow> string \<Rightarrow> read_group_args" where
  "fetch_args env consumer = \<lparr>ra_Group = qe_group env, ra_Consumer = consumer, ra_Stream = qe_exec env, ra_Count = 1,
     ra_Block = qc_ConsumerBlock (qe_cfg env), ra_NoAck = False\<rparr>"

definition fetch_read :: "('c, 'o) queue_env \<Rightarrow> string \<Rightarrow> (nat \<Rightarrow> time) \<Rightarrow> ('c, 'o) queue_sys \<Rightarrow> ('c, 'o) queue_sys option" where
  "fetch_read env consumer clk s =
    (case qs_fetch s of
       FetchRead wid \<Rightarrow>
         (case so_ReadGroup (qe_ops env) clk (fetch_args env consumer) (qs_client s) of
            (c, Inr (entry # _)) \<Rightarrow> Some (s\<lparr>qs_client := c, qs_fetch := FetchHave wid entry\<rparr>)
          | (c, _) \<Rightarrow> Some (ReleaseWorker env wid (s\<lparr>qs_client := c, qs_fetch := FetchWait\<rparr>)))
     | _ \<Rightarrow> None)"

definition fetch_entry :: "('c, 'o) queue_env \<Rightarrow> (nat \<Rightarrow> time) \<Rightarrow> ('c, 'o) queue_sys \<Rightarrow> ('c, 'o) queue_sys option" where
  "fetch_entry env now s =
    (case qs_fetch s of
       FetchHave wid entry \<Rightarrow>
         (let s = s\<lparr>qs_fetch := FetchWait\<rparr>
          in case Unmarshal (fst entry) (snd entry) of
               Inl e \<Rightarrow> Some (cons_drop env (fst entry) wid s)
             | Inr msg \<Rightarrow> cons_dispatch env now (fst entry) msg wid s)
     | _ \<Rightarrow> None)"

text \<open>
  A pass of \<open>recoverPending\<close>: a tick starts it, it claims a batch, handles each entry with an idle
  worker, and goes on from the next cursor until a batch is empty or the cursor is back at the start.
\<close>

definition recover_tick :: "('c, 'o) queue_sys \<Rightarrow> ('c, 'o) queue_sys option" where
  "recover_tick s = (case qs_recover s of RecoverWait \<Rightarrow> Some (s\<lparr>qs_recover := RecoverClaim ''0-0''\<rparr>) | _ \<Rightarrow> None)"

definition recover_args :: "('c, 'o) queue_env \<Rightarrow> string \<Rightarrow> string \<Rightarrow> auto_claim_args" where
  "recover_args env consumer start = \<lparr>ca_Stream = qe_exec env, ca_Group = qe_group env, ca_Consumer = consumer,
     ca_MinIdle = qc_VisibilityTimeout (qe_cfg env), ca_Start = start, ca_Count = 10\<rparr>"

definition recover_claim :: "('c, 'o) queue_env \<Rightarrow> string \<Rightarrow> time \<Rightarrow> ('c, 'o) queue_sys \<Rightarrow> ('c, 'o) queue_sys option" where
  "recover_claim env consumer now s =
    (case qs_recover s of
       RecoverClaim start \<Rightarrow>
         (case so_AutoClaim (qe_ops env) now (recover_args env consumer start) (qs_client s) of
            (c, Inl e) \<Rightarrow> Some (s\<lparr>qs_client := c, qs_recover := RecoverWait\<rparr>)
          | (c, Inr (cur, entries)) \<Rightarrow>
              Some (s\<lparr>qs_client := c, qs_recover := (if entries = [] then RecoverWait else RecoverEntries start cur entries)\<rparr>))
     | _ \<Rightarrow> None)"

definition delivery_count :: "('c, 'o) queue_env \<Rightarrow> time \<Rightarrow> string \<Rightarrow> 'c \<Rightarrow> int" where
  "delivery_count env now i c =
    (case so_Pending (qe_ops env) now \<lparr>pa_Stream = qe_exec env, pa_Group = qe_group env, pa_Idle = 0, pa_Start = i, pa_End = i,
        pa_Count = 1, pa_Consumer = []\<rparr> c of
       Inr (p # _) \<Rightarrow> pe_DeliveryCount p
     | _ \<Rightarrow> 1)"

definition poison_reason :: "int \<Rightarrow> int \<Rightarrow> string" where
  "poison_reason count mx = ''poison message: delivery count '' @ dec_int count @ '' exceeded max retries '' @ dec_int mx"

definition recovered :: "int \<Rightarrow> qmessage \<Rightarrow> qmessage" where
  "recovered count msg = (if qm_RetryCount msg < count - 1 then msg\<lparr>qm_RetryCount := count - 1\<rparr> else msg)"

text \<open>The body of the inner loop for one entry and the idle worker it got. The error of \<open>Send\<close> is ignored.\<close>

definition recover_one ::
  "('c, 'o) queue_env \<Rightarrow> (nat \<Rightarrow> time) \<Rightarrow> string \<times> msg_fields \<Rightarrow> string \<Rightarrow> ('c, 'o) queue_sys \<Rightarrow> ('c, 'o) queue_sys option" where
  "recover_one env now entry wid s =
    (case Unmarshal (fst entry) (snd entry) of
       Inl e \<Rightarrow> Some (cons_drop env (fst entry) wid s)
     | Inr msg \<Rightarrow>
         let count = delivery_count env (now 0) (fst entry) (qs_client s);
             mx = max_retries (qe_cfg env) msg
         in if mx < count
            then (case dlq_Send env (\<lambda>n. now (n + 1)) msg (poison_reason count mx) (qs_client s) of
                    (c, e, evs) \<Rightarrow> Some (cons_drop env (fst entry) wid (qs_publish evs (s\<lparr>qs_client := c\<rparr>))))
            else cons_dispatch env (\<lambda>n. now (n + 1)) (fst entry) (recovered count msg) wid s)"

definition recover_next :: "string \<Rightarrow> string \<Rightarrow> (string \<times> msg_fields) list \<Rightarrow> recover_pc" where
  "recover_next start cur rest =
    (if rest \<noteq> [] then RecoverEntries start cur rest
     else if cur = ''0-0'' \<or> cur = start then RecoverWait else RecoverClaim cur)"

definition recover_entry :: "('c, 'o) queue_env \<Rightarrow> (nat \<Rightarrow> time) \<Rightarrow> ('c, 'o) queue_sys \<Rightarrow> ('c, 'o) queue_sys option" where
  "recover_entry env now s =
    (case (qs_recover s, qs_idle s) of
       (RecoverEntries start cur (entry # rest), wid # idle) \<Rightarrow>
         recover_one env now entry wid (s\<lparr>qs_idle := idle, qs_recover := recover_next start cur rest\<rparr>)
     | _ \<Rightarrow> None)"

section \<open>Timers and the heartbeat goroutines\<close>

text \<open>A retry whose timer fires is taken out of the waiting ones and put back on the stream.\<close>

definition timer_fires :: "('c, 'o) queue_env \<Rightarrow> (nat \<Rightarrow> time) \<Rightarrow> nat \<Rightarrow> ('c, 'o) queue_sys \<Rightarrow> ('c, 'o) queue_sys option" where
  "timer_fires env now k s =
    (if k < length (qs_timers s)
     then case requeue env now (fst (qs_timers s ! k)) (qs_client s) of
            (c, e, evs) \<Rightarrow> Some (qs_publish evs (s\<lparr>qs_client := c, qs_timers := take k (qs_timers s) @ drop (Suc k) (qs_timers s)\<rparr>))
     else None)"

text \<open>On shutdown \<open>waitAndRequeue\<close> returns without putting the message back.\<close>

definition timer_aborts :: "nat \<Rightarrow> ('c, 'o) queue_sys \<Rightarrow> ('c, 'o) queue_sys option" where
  "timer_aborts k s =
    (if k < length (qs_timers s) then Some (s\<lparr>qs_timers := take k (qs_timers s) @ drop (Suc k) (qs_timers s)\<rparr>) else None)"

definition heartbeat_tick :: "(nat \<Rightarrow> time) \<Rightarrow> string \<Rightarrow> ('c, 'o) queue_sys \<Rightarrow> ('c, 'o) queue_sys" where
  "heartbeat_tick now wid s = (case hb_Heartbeat now wid (qs_reg s) of (r, e, evs) \<Rightarrow> qs_publish evs (s\<lparr>qs_reg := r\<rparr>))"

definition monitor_tick :: "('c, 'o) queue_env \<Rightarrow> time \<Rightarrow> (string \<Rightarrow> time) \<Rightarrow> ('c, 'o) queue_sys \<Rightarrow> ('c, 'o) queue_sys" where
  "monitor_tick env now later s = (case hb_checkWorkers (qe_cfg env) now later (qs_reg s) of (r, evs) \<Rightarrow> qs_publish evs (s\<lparr>qs_reg := r\<rparr>))"

section \<open>The manager\<close>

definition mgr_Start :: "('c, 'o) queue_env \<Rightarrow> (nat \<Rightarrow> nat \<Rightarrow> time) \<Rightarrow> ('c, 'o) queue_sys \<Rightarrow> ('c, 'o) queue_sys \<times> queue_error option" where
  "mgr_Start env now s = cons_Start env (pool_Start now [0..<nat (qc_WorkerCount (qe_cfg env))] s)"

definition job_message :: "('c, 'o) queue_env \<Rightarrow> time \<Rightarrow> job \<Rightarrow> qmessage" where
  "job_message env now j = \<lparr>qm_MessageID = j_ID j, qm_StreamID = [], qm_JobID = j_ID j, qm_CorrelationID = j_CorrelationID j,
     qm_RequestID = j_RequestID j, qm_UserID = j_UserID j, qm_RoomID = j_RoomID j, qm_Language = j_Language j,
     qm_Priority = j_Priority j, qm_RetryCount = j_RetryCount j, qm_MaxRetries = j_MaxRetries j,
     qm_EnqueueTime = now, qm_ScheduleTime = 0, qm_VisibilityTimeout = qc_VisibilityTimeout (qe_cfg env),
     qm_Context = \<lparr>mc_Deadline = 0, mc_Attempt = j_RetryCount j, mc_Resources = [], mc_Env = eo_Env (j_ExecutionOptions j)\<rparr>,
     qm_Metadata = j_Metadata j, qm_Trace = \<lparr>tr_TraceID = [], tr_SpanID = []\<rparr>, qm_Version = 1, qm_State = MsgCreated,
     qm_WorkerID = [], qm_Stream = [], qm_Group = [], qm_Consumer = []\<rparr>"

definition mgr_Schedule :: "('c, 'o) queue_env \<Rightarrow> (nat \<Rightarrow> time) \<Rightarrow> job \<Rightarrow> ('c, 'o) queue_sys \<Rightarrow> ('c, 'o) queue_sys \<times> job_error option" where
  "mgr_Schedule env now j s =
    (case prod_Publish env (\<lambda>n. now (n + 1)) (job_message env (now 0) j) (qs_client s) of
       (c, Inl e, evs) \<Rightarrow> (qs_publish evs (s\<lparr>qs_client := c\<rparr>), Some ErrSchedulerUnavailable)
     | (c, Inr streamID, evs) \<Rightarrow>
         (qs_publish evs (s\<lparr>qs_client := c, qs_jobStreamIDs := AList.update (j_ID j) streamID (qs_jobStreamIDs s)\<rparr>), None))"

definition mgr_Cancel :: "('c, 'o) queue_env \<Rightarrow> string \<Rightarrow> ('c, 'o) queue_sys \<Rightarrow> ('c, 'o) queue_sys \<times> queue_error option" where
  "mgr_Cancel env jobID s =
    (case map_of (qs_jobStreamIDs s) jobID of
       None \<Rightarrow> (s, None)
     | Some streamID \<Rightarrow>
         (case so_Delete (qe_ops env) (qe_exec env) [streamID] (qs_client s) of
            (c, Inl e) \<Rightarrow> (s\<lparr>qs_client := c\<rparr>, Some e)
          | (c, Inr deleted) \<Rightarrow> (s\<lparr>qs_client := c, qs_jobStreamIDs := AList.delete jobID (qs_jobStreamIDs s)\<rparr>, None)))"

definition mgr_Retry :: "('c, 'o) queue_env \<Rightarrow> (nat \<Rightarrow> time) \<Rightarrow> job \<Rightarrow> ('c, 'o) queue_sys \<Rightarrow> ('c, 'o) queue_sys \<times> job_error option" where
  "mgr_Retry env now j s = mgr_Schedule env now j s"

definition mgr_Reprioritize :: "string \<Rightarrow> priority \<Rightarrow> ('c, 'o) queue_sys \<Rightarrow> ('c, 'o) queue_sys \<times> job_error option" where
  "mgr_Reprioritize jobID p s = (s, None)"

text \<open>The listener forgets the stream id of a job when it reads that it was claimed or dead-lettered.\<close>

definition event_listener :: "queue_event \<Rightarrow> ('c, 'o) queue_sys \<Rightarrow> ('c, 'o) queue_sys" where
  "event_listener ev s =
    (if qv_Type ev = QvMessageClaimed \<or> qv_Type ev = QvMovedToDeadLetter
     then s\<lparr>qs_jobStreamIDs := AList.delete (qv_JobID ev) (qs_jobStreamIDs s)\<rparr> else s)"

definition mgr_Replay :: "('c, 'o) queue_env \<Rightarrow> (nat \<Rightarrow> time) list \<Rightarrow> (nat \<Rightarrow> time) \<Rightarrow> string \<Rightarrow> string \<Rightarrow> ('c, 'o) queue_sys \<Rightarrow> (('c, 'o) queue_sys \<times> queue_error option) option" where
  "mgr_Replay env clks now msgID targetStream s =
    (case dlq_Replay env clks now msgID targetStream (qs_client s) of
       None \<Rightarrow> None
     | Some (c, e) \<Rightarrow> Some (s\<lparr>qs_client := c\<rparr>, e))"

end
