(* ===== verification/Set_Index.thy ===== *)
theory Set_Index
  imports CPIP_Prelude
begin

text \<open>
  The contract of a secondary index: a map from a key to the set of the identifiers that carry it,
  kept beside a primary map. Several registries of the platform keep such indexes
  (\<open>execution/registry\<close>, \<open>presence/registry\<close>, \<open>queue/registry\<close>); a key may be exempt from indexing
  (the empty string). An index mirrors a key assignment when it holds exactly the identifiers
  that the assignment gives each key.
\<close>

locale set_index =
  fixes add :: "'x \<Rightarrow> 'k \<Rightarrow> 'i \<Rightarrow> 'x"
    and del :: "'x \<Rightarrow> 'k \<Rightarrow> 'i \<Rightarrow> 'x"
    and view :: "'x \<Rightarrow> 'k \<Rightarrow> 'i set"
    and indexed :: "'k \<Rightarrow> bool"
    and wf :: "'x \<Rightarrow> bool"
  assumes view_add: "wf ix \<Longrightarrow> view (add ix k i) k' = (if indexed k \<and> k' = k then insert i (view ix k') else view ix k')"
    and view_del: "wf ix \<Longrightarrow> view (del ix k i) k' = (if indexed k \<and> k' = k then view ix k' - {i} else view ix k')"
    and wf_add: "wf ix \<Longrightarrow> wf (add ix k i)"
    and wf_del: "wf ix \<Longrightarrow> wf (del ix k i)"
begin

definition mirrors :: "'x \<Rightarrow> ('i \<rightharpoonup> 'k) \<Rightarrow> bool" where
  "mirrors ix key \<longleftrightarrow> wf ix \<and> (\<forall>k. view ix k = (if indexed k then {i. key i = Some k} else {}))"

lemma mirrors_view: "mirrors ix key \<Longrightarrow> view ix k = (if indexed k then {i. key i = Some k} else {})"
  by (simp add: mirrors_def)

lemma mirrors_add:
  "mirrors ix key \<Longrightarrow> key i = None \<Longrightarrow> mirrors (add ix k i) (key(i \<mapsto> k))"
  by (auto simp: mirrors_def view_add wf_add)

lemma mirrors_del:
  "mirrors ix key \<Longrightarrow> key i = Some k \<Longrightarrow> mirrors (del ix k i) (key(i := None))"
  by (auto simp: mirrors_def view_del wf_del)

lemma mirrors_move:
  assumes "mirrors ix key" "key i = Some k"
  shows "mirrors (add (del ix k i) k' i) (key(i \<mapsto> k'))"
  using mirrors_add [OF mirrors_del [OF assms], of i k'] by simp

end

text \<open>The key assignment of a Go map: the key that \<open>f\<close> reads off each record.\<close>

definition gm_key :: "('r \<Rightarrow> 'k) \<Rightarrow> ('i, 'r) gomap \<Rightarrow> 'i \<Rightarrow> 'k option" where
  "gm_key f m i = map_option f (map_of m i)"

lemma gm_key_update [simp]: "gm_key f (AList.update i r m) = (gm_key f m)(i \<mapsto> f r)"
  by (simp add: fun_eq_iff gm_key_def)

lemma gm_key_delete [simp]: "gm_key f (AList.delete i m) = (gm_key f m)(i := None)"
  by (simp add: fun_eq_iff gm_key_def)

lemma gm_key_same: "map_of m i = Some r \<Longrightarrow> f r' = f r \<Longrightarrow> (gm_key f m)(i \<mapsto> f r') = gm_key f m"
  by (simp add: fun_eq_iff gm_key_def)

lemma gm_key_Some: "map_of m i = Some r \<Longrightarrow> gm_key f m i = Some (f r)"
  by (simp add: gm_key_def)

lemma gm_key_None: "gm_key f m i = None \<longleftrightarrow> map_of m i = None"
  by (simp add: gm_key_def)

lemma gm_key_Nil [simp]: "gm_key f [] = (\<lambda>_. None)"
  by (simp add: fun_eq_iff gm_key_def)

end
