(* ===== verification/Exec_Registry.thy ===== *)
theory Exec_Registry
  imports Exec_Job Set_Index
begin

text \<open>
  The live job index (\<open>execution/registry\<close>): jobs by id and five secondary indexes. A set of ids is
  a list without repetitions, whose order stands for the iteration order.
\<close>

type_synonym id_set = "string list"
type_synonym 'k id_index = "('k, id_set) gomap"

record exec_registry =
  er_byID :: "(string, job) gomap"
  er_byUser :: "string id_index"
  er_byRoom :: "string id_index"
  er_bySession :: "string id_index"
  er_byLang :: "string id_index"
  er_byState :: "job_state id_index"

definition er_New :: exec_registry where
  "er_New = \<lparr>er_byID = [], er_byUser = [], er_byRoom = [], er_bySession = [], er_byLang = [], er_byState = []\<rparr>"

section \<open>Index helpers\<close>

definition ix_ids :: "'k id_index \<Rightarrow> 'k \<Rightarrow> id_set" where
  "ix_ids ix k = (case map_of ix k of None \<Rightarrow> [] | Some s \<Rightarrow> s)"

definition stateAdd :: "'k id_index \<Rightarrow> 'k \<Rightarrow> string \<Rightarrow> 'k id_index" where
  "stateAdd ix s i = AList.update s (List.insert i (ix_ids ix s)) ix"

definition stateRemove :: "'k id_index \<Rightarrow> 'k \<Rightarrow> string \<Rightarrow> 'k id_index" where
  "stateRemove ix s i =
    (case map_of ix s of
       None \<Rightarrow> ix
     | Some ids \<Rightarrow> if removeAll i ids = [] then AList.delete s ix else AList.update s (removeAll i ids) ix)"

definition index_add :: "string id_index \<Rightarrow> string \<Rightarrow> string \<Rightarrow> string id_index" where
  "index_add ix k i = (if k = [] then ix else stateAdd ix k i)"

definition index_remove :: "string id_index \<Rightarrow> string \<Rightarrow> string \<Rightarrow> string id_index" where
  "index_remove ix k i = (if k = [] then ix else stateRemove ix k i)"

text \<open>No empty set is kept and no id is repeated.\<close>

definition ix_wf :: "'k id_index \<Rightarrow> bool" where
  "ix_wf ix \<longleftrightarrow> gm_wf ix \<and> (\<forall>k ids. map_of ix k = Some ids \<longrightarrow> ids \<noteq> [] \<and> distinct ids)"

definition ix_view :: "'k id_index \<Rightarrow> 'k \<Rightarrow> string set" where
  "ix_view ix k = set (ix_ids ix k)"

lemma removeAll_Nil: "removeAll x xs = [] \<longleftrightarrow> set xs \<subseteq> {x}"
  by (induction xs) auto

lemma insert_not_Nil [simp]: "List.insert x xs \<noteq> []"
  by (cases xs) (auto simp: List.insert_def)

lemma ix_view_stateAdd: "ix_view (stateAdd ix s i) k = (if k = s then insert i (ix_view ix k) else ix_view ix k)"
  by (auto simp: ix_view_def stateAdd_def ix_ids_def)

lemma ix_view_stateRemove: "ix_view (stateRemove ix s i) k = (if k = s then ix_view ix k - {i} else ix_view ix k)"
  by (cases "map_of ix s") (auto simp: ix_view_def stateRemove_def ix_ids_def removeAll_Nil)

lemma ix_wf_stateAdd: "ix_wf ix \<Longrightarrow> ix_wf (stateAdd ix s i)"
  by (auto simp: ix_wf_def stateAdd_def ix_ids_def split: option.splits)

lemma ix_wf_stateRemove: "ix_wf ix \<Longrightarrow> ix_wf (stateRemove ix s i)"
  by (auto simp: ix_wf_def stateRemove_def distinct_removeAll split: option.splits)

interpretation sidx: set_index stateAdd stateRemove ix_view "\<lambda>_. True" ix_wf
  by unfold_locales (simp_all add: ix_view_stateAdd ix_view_stateRemove ix_wf_stateAdd ix_wf_stateRemove)

interpretation uidx: set_index index_add index_remove ix_view "\<lambda>k. k \<noteq> []" ix_wf
  by unfold_locales (simp_all add: index_add_def index_remove_def ix_view_stateAdd ix_view_stateRemove
      ix_wf_stateAdd ix_wf_stateRemove)

section \<open>Operations\<close>

definition er_Add :: "job \<Rightarrow> exec_registry \<Rightarrow> exec_registry \<times> job_error option" where
  "er_Add j r =
    (if gm_has (er_byID r) (j_ID j) then (r, Some ErrDuplicateJob)
     else (r\<lparr>er_byID := AList.update (j_ID j) j (er_byID r),
             er_byUser := index_add (er_byUser r) (j_UserID j) (j_ID j),
             er_byRoom := index_add (er_byRoom r) (j_RoomID j) (j_ID j),
             er_bySession := index_add (er_bySession r) (j_SessionID j) (j_ID j),
             er_byLang := index_add (er_byLang r) (j_Language j) (j_ID j),
             er_byState := stateAdd (er_byState r) (j_State j) (j_ID j)\<rparr>, None))"

definition er_Get :: "string \<Rightarrow> exec_registry \<Rightarrow> job option" where
  "er_Get i r = map_of (er_byID r) i"

definition er_Transition ::
  "string \<Rightarrow> job_state \<Rightarrow> (job \<Rightarrow> job) \<Rightarrow> exec_registry \<Rightarrow> exec_registry \<times> (job_error + job_state)" where
  "er_Transition i to mutate r =
    (case map_of (er_byID r) i of
       None \<Rightarrow> (r, Inl ErrJobNotFound)
     | Some j \<Rightarrow>
         if \<not> job_CanTransition (j_State j) to then (r, Inl ErrIllegalTransition)
         else (r\<lparr>er_byID := AList.update i (mutate (j\<lparr>j_State := to, j_Transitions := j_Transitions j + 1\<rparr>)) (er_byID r),
                 er_byState := stateAdd (stateRemove (er_byState r) (j_State j) i) to i\<rparr>, Inr (j_State j)))"

definition er_Update :: "string \<Rightarrow> (job \<Rightarrow> job) \<Rightarrow> exec_registry \<Rightarrow> exec_registry \<times> job_error option" where
  "er_Update i mutate r =
    (case map_of (er_byID r) i of
       None \<Rightarrow> (r, Some ErrJobNotFound)
     | Some j \<Rightarrow>
         let j' = mutate j;
             j'' = (if j_State j' \<noteq> j_State j then j'\<lparr>j_State := j_State j\<rparr> else j')
         in (r\<lparr>er_byID := AList.update i j'' (er_byID r)\<rparr>, None))"

definition er_Remove :: "string \<Rightarrow> exec_registry \<Rightarrow> exec_registry \<times> job option" where
  "er_Remove i r =
    (case map_of (er_byID r) i of
       None \<Rightarrow> (r, None)
     | Some j \<Rightarrow>
         (r\<lparr>er_byID := AList.delete i (er_byID r),
            er_byUser := index_remove (er_byUser r) (j_UserID j) i,
            er_byRoom := index_remove (er_byRoom r) (j_RoomID j) i,
            er_bySession := index_remove (er_bySession r) (j_SessionID j) i,
            er_byLang := index_remove (er_byLang r) (j_Language j) i,
            er_byState := stateRemove (er_byState r) (j_State j) i\<rparr>, Some j))"

definition er_State :: "string \<Rightarrow> exec_registry \<Rightarrow> job_state option" where
  "er_State i r = map_option j_State (map_of (er_byID r) i)"

text \<open>
  A query dereferences \<open>r.byID[id]\<close> for every id of the index: a missing job would be a nil
  dereference, \<^const>\<open>None\<close>.
\<close>

fun er_jobs :: "exec_registry \<Rightarrow> id_set \<Rightarrow> job list option" where
  "er_jobs r [] = Some []"
| "er_jobs r (i # is') =
    (case map_of (er_byID r) i of
       None \<Rightarrow> None
     | Some j \<Rightarrow> map_option (\<lambda>js. j # js) (er_jobs r is'))"

definition er_byIndex :: "exec_registry \<Rightarrow> string id_index \<Rightarrow> string \<Rightarrow> job list option" where
  "er_byIndex r ix k = er_jobs r (ix_ids ix k)"

definition er_ByUser :: "string \<Rightarrow> exec_registry \<Rightarrow> job list option" where
  "er_ByUser k r = er_byIndex r (er_byUser r) k"

definition er_ByRoom :: "string \<Rightarrow> exec_registry \<Rightarrow> job list option" where
  "er_ByRoom k r = er_byIndex r (er_byRoom r) k"

definition er_BySession :: "string \<Rightarrow> exec_registry \<Rightarrow> job list option" where
  "er_BySession k r = er_byIndex r (er_bySession r) k"

definition er_ByLanguage :: "string \<Rightarrow> exec_registry \<Rightarrow> job list option" where
  "er_ByLanguage k r = er_byIndex r (er_byLang r) k"

definition er_ByState :: "job_state \<Rightarrow> exec_registry \<Rightarrow> job list option" where
  "er_ByState s r = er_jobs r (ix_ids (er_byState r) s)"

definition er_finished_ref :: "job \<Rightarrow> time" where
  "er_finished_ref j = (if j_CompletedAt j = 0 then j_CreatedAt j else j_CompletedAt j)"

definition er_FinishedBefore :: "time \<Rightarrow> exec_registry \<Rightarrow> job list option" where
  "er_FinishedBefore cutoff r =
    map_option (filter (\<lambda>j. er_finished_ref j \<le> cutoff))
      (er_jobs r (concat (map (ix_ids (er_byState r)) [StateCompleted, StateFailed, StateTimedOut, StateCancelled])))"

record er_stats =
  es_Total :: nat
  es_ByState :: "(job_state, nat) gomap"
  es_ActiveJobs :: nat
  es_FinishedJobs :: nat

definition er_Stats :: "exec_registry \<Rightarrow> er_stats" where
  "er_Stats r =
    \<lparr>es_Total = length (er_byID r),
     es_ByState = map (\<lambda>(s, ids). (s, length ids)) (er_byState r),
     es_ActiveJobs = sum_list (map (\<lambda>(s, ids). if job_IsFinished s then 0 else length ids) (er_byState r)),
     es_FinishedJobs = sum_list (map (\<lambda>(s, ids). if job_IsFinished s then length ids else 0) (er_byState r))\<rparr>"

definition er_Count :: "exec_registry \<Rightarrow> nat" where
  "er_Count r = length (er_byID r)"

section \<open>The indexes mirror the jobs\<close>

abbreviation er_key :: "(job \<Rightarrow> 'k) \<Rightarrow> exec_registry \<Rightarrow> string \<Rightarrow> 'k option" where
  "er_key f r \<equiv> gm_key f (er_byID r)"

definition er_ok :: "exec_registry \<Rightarrow> bool" where
  "er_ok r \<longleftrightarrow> gm_wf (er_byID r) \<and> (\<forall>i j. map_of (er_byID r) i = Some j \<longrightarrow> j_ID j = i)
     \<and> uidx.mirrors (er_byUser r) (er_key j_UserID r) \<and> uidx.mirrors (er_byRoom r) (er_key j_RoomID r)
     \<and> uidx.mirrors (er_bySession r) (er_key j_SessionID r) \<and> uidx.mirrors (er_byLang r) (er_key j_Language r)
     \<and> sidx.mirrors (er_byState r) (er_key j_State r)"

text \<open>The documented obligation of the callbacks: identity fields and state are theirs to keep.\<close>

definition keeps_identity :: "(job \<Rightarrow> job) \<Rightarrow> bool" where
  "keeps_identity m \<longleftrightarrow> (\<forall>j. j_ID (m j) = j_ID j \<and> j_UserID (m j) = j_UserID j \<and> j_RoomID (m j) = j_RoomID j
     \<and> j_SessionID (m j) = j_SessionID j \<and> j_Language (m j) = j_Language j \<and> j_State (m j) = j_State j)"

inductive er_reachable :: "exec_registry \<Rightarrow> bool" where
  er_new: "er_reachable er_New"
| er_add: "er_reachable r \<Longrightarrow> er_reachable (fst (er_Add j r))"
| er_tra: "er_reachable r \<Longrightarrow> keeps_identity m \<Longrightarrow> er_reachable (fst (er_Transition i to m r))"
| er_upd: "er_reachable r \<Longrightarrow> keeps_identity m \<Longrightarrow> er_reachable (fst (er_Update i m r))"
| er_rem: "er_reachable r \<Longrightarrow> er_reachable (fst (er_Remove i r))"

lemma er_ok_New: "er_ok er_New"
  by (simp add: er_ok_def er_New_def uidx.mirrors_def sidx.mirrors_def ix_wf_def ix_view_def ix_ids_def)

lemma er_ok_Add: "er_ok r \<Longrightarrow> er_ok (fst (er_Add j r))"
  by (auto simp: er_ok_def er_Add_def gm_has_def gm_key_None
      intro!: uidx.mirrors_add sidx.mirrors_add)

lemma er_ok_Transition: "er_ok r \<Longrightarrow> keeps_identity m \<Longrightarrow> er_ok (fst (er_Transition i to m r))"
proof (cases "map_of (er_byID r) i")
  case (Some j)
  assume ok: "er_ok r" and m: "keeps_identity m"
  let ?j = "m (j\<lparr>j_State := to, j_Transitions := j_Transitions j + 1\<rparr>)"
  have same: "j_ID ?j = j_ID j" "j_UserID ?j = j_UserID j" "j_RoomID ?j = j_RoomID j" "j_SessionID ?j = j_SessionID j"
    "j_Language ?j = j_Language j" "j_State ?j = to"
    using m by (simp_all add: keeps_identity_def)
  have "sidx.mirrors (stateAdd (stateRemove (er_byState r) (j_State j) i) to i) ((er_key j_State r)(i \<mapsto> j_State ?j))"
    using ok Some same by (auto simp: er_ok_def gm_key_Some intro!: sidx.mirrors_move)
  then show ?thesis
    using ok Some same by (auto simp: er_ok_def er_Transition_def gm_key_same)
qed (simp add: er_Transition_def)

lemma er_ok_Update: "er_ok r \<Longrightarrow> keeps_identity m \<Longrightarrow> er_ok (fst (er_Update i m r))"
  by (cases "map_of (er_byID r) i")
    (auto simp: er_ok_def er_Update_def keeps_identity_def gm_key_same Let_def)

lemma er_ok_Remove: "er_ok r \<Longrightarrow> er_ok (fst (er_Remove i r))"
  by (cases "map_of (er_byID r) i")
    (auto simp: er_ok_def er_Remove_def gm_key_Some intro!: uidx.mirrors_del sidx.mirrors_del)

lemma er_reachable_ok: "er_reachable r \<Longrightarrow> er_ok r"
  by (induction rule: er_reachable.induct) (auto intro: er_ok_New er_ok_Add er_ok_Transition er_ok_Update er_ok_Remove)

lemma er_jobs_eq: "\<forall>i \<in> set is'. map_of (er_byID r) i \<noteq> None \<Longrightarrow> er_jobs r is' = Some (map (\<lambda>i. the (map_of (er_byID r) i)) is')"
  by (induction is') auto

lemma ix_wf_pair: "ix_wf ix \<Longrightarrow> (s, ids) \<in> set ix \<Longrightarrow> map_of ix s = Some ids \<and> ix_view ix s = set ids \<and> distinct ids"
  using gm_wf_map_of_eq [of ix s ids] by (auto simp: ix_wf_def ix_view_def ix_ids_def)

lemma ix_sum_card:
  assumes "sidx.mirrors ix key"
  shows "sum_list (map (\<lambda>(s, ids). if P s then length ids else 0) ix) = card {i. \<exists>s. key i = Some s \<and> P s}"
proof -
  have wf: "ix_wf ix" and key: "\<And>s. ix_view ix s = {i. key i = Some s}"
    using assms by (auto simp: sidx.mirrors_def)
  define S where "S = {p \<in> set ix. P (fst p)}"
  have dist: "distinct ix" using wf by (simp add: ix_wf_def gm_wf_def distinct_map)
  have pair: "set (snd p) = {i. key i = Some (fst p)}" "distinct (snd p)" if "p \<in> set ix" for p
    using ix_wf_pair [OF wf, of "fst p" "snd p"] that key by auto
  have "sum_list (map (\<lambda>(s, ids). if P s then length ids else 0) ix) = (\<Sum>p \<in> set ix. if P (fst p) then length (snd p) else 0)"
    using dist by (simp add: sum_list_distinct_conv_sum_set case_prod_beta)
  also have "\<dots> = (\<Sum>p \<in> S. card (set (snd p)))"
    unfolding S_def using pair(2) by (simp add: sum.inter_filter distinct_card if_distrib cong: sum.cong if_cong)
  also have "\<dots> = card (\<Union>p \<in> S. set (snd p))"
  proof (rule card_UN_disjoint [symmetric])
    show "\<forall>p\<in>S. \<forall>q\<in>S. p \<noteq> q \<longrightarrow> set (snd p) \<inter> set (snd q) = {}"
    proof (intro ballI impI)
      fix p q assume p: "p \<in> S" and q: "q \<in> S" and ne: "p \<noteq> q"
      have "fst p \<noteq> fst q"
        using p q ne ix_wf_pair [OF wf, of "fst p" "snd p"] ix_wf_pair [OF wf, of "fst q" "snd q"]
        by (auto simp: S_def prod_eq_iff)
      then show "set (snd p) \<inter> set (snd q) = {}" using pair(1) [of p] pair(1) [of q] p q by (auto simp: S_def)
    qed
  qed (auto simp: S_def)
  also have "(\<Union>p \<in> S. set (snd p)) = {i. \<exists>s. key i = Some s \<and> P s}"
  proof -
    have "\<exists>p \<in> S. i \<in> set (snd p)" if "key i = Some s" "P s" for i s
    proof -
      have "i \<in> ix_view ix s" using that key by simp
      then obtain ids where "map_of ix s = Some ids" "i \<in> set ids"
        by (cases "map_of ix s") (auto simp: ix_view_def ix_ids_def)
      then show ?thesis using that wf by (intro bexI [of _ "(s, ids)"]) (auto simp: S_def dest: map_of_SomeD)
    qed
    then show ?thesis using pair(1) by (auto simp: S_def)
  qed
  finally show ?thesis .
qed

lemma er_Stats_counts:
  assumes "er_ok r"
  shows "es_ActiveJobs (er_Stats r) = gm_count (\<lambda>j. job_IsActive (j_State j)) (er_byID r)"
    and "es_FinishedJobs (er_Stats r) = gm_count (\<lambda>j. job_IsFinished (j_State j)) (er_byID r)"
proof -
  have m: "sidx.mirrors (er_byState r) (er_key j_State r)" and wf: "gm_wf (er_byID r)" using assms by (auto simp: er_ok_def)
  have "(\<lambda>(s, ids :: id_set). if job_IsFinished s then 0 else length ids) = (\<lambda>(s, ids). if job_IsActive s then length ids else 0)"
    by (auto simp: job_IsActive_def)
  then show "es_ActiveJobs (er_Stats r) = gm_count (\<lambda>j. job_IsActive (j_State j)) (er_byID r)"
    using ix_sum_card [OF m, of job_IsActive] wf by (simp add: er_Stats_def gm_count_card gm_key_def) (metis (no_types, lifting))
  show "es_FinishedJobs (er_Stats r) = gm_count (\<lambda>j. job_IsFinished (j_State j)) (er_byID r)"
    using ix_sum_card [OF m, of job_IsFinished] wf by (simp add: er_Stats_def gm_count_card gm_key_def) (metis (no_types, lifting))
qed

lemma gm_count_split: "gm_count P m + gm_count (\<lambda>v. \<not> P v) m = length m"
  by (induction m) (auto simp: gm_count_def)

lemma er_query_exact:
  assumes "\<And>i. i \<in> set is' \<Longrightarrow> map_of (er_byID r) i \<noteq> None" "distinct is'"
    and ids: "\<And>i j. map_of (er_byID r) i = Some j \<Longrightarrow> j_ID j = i"
  shows "\<exists>js. er_jobs r is' = Some js \<and> map j_ID js = is' \<and> set js = {j. \<exists>i \<in> set is'. map_of (er_byID r) i = Some j}"
proof (intro exI conjI)
  show "er_jobs r is' = Some (map (\<lambda>i. the (map_of (er_byID r) i)) is')" using assms(1) by (intro er_jobs_eq) blast
  show "map j_ID (map (\<lambda>i. the (map_of (er_byID r) i)) is') = is'" using assms(1) ids by (force intro: map_idI)
  show "set (map (\<lambda>i. the (map_of (er_byID r) i)) is') = {j. \<exists>i \<in> set is'. map_of (er_byID r) i = Some j}"
    using assms(1) by force
qed

definition er_answers :: "exec_registry \<Rightarrow> job list option \<Rightarrow> (job \<Rightarrow> bool) \<Rightarrow> bool" where
  "er_answers r q P \<longleftrightarrow> (\<exists>js. q = Some js \<and> distinct (map j_ID js) \<and> set js = {j. \<exists>i. er_Get i r = Some j \<and> P j})"

lemma er_answers_view:
  assumes "er_ok r" "distinct (ix_ids ix k)"
    and v: "ix_view ix k = {i. gm_key f (er_byID r) i = Some k}"
  shows "er_answers r (er_jobs r (ix_ids ix k)) (\<lambda>j. f j = k)"
proof -
  have in_ids: "i \<in> set (ix_ids ix k) \<longleftrightarrow> (\<exists>j. map_of (er_byID r) i = Some j \<and> f j = k)" for i
    using v by (auto simp: ix_view_def gm_key_def)
  obtain js where "er_jobs r (ix_ids ix k) = Some js" "map j_ID js = ix_ids ix k"
    "set js = {j. \<exists>i \<in> set (ix_ids ix k). map_of (er_byID r) i = Some j}"
    using er_query_exact [of "ix_ids ix k" r] assms(1,2) in_ids by (auto simp: er_ok_def)
  then show ?thesis using assms(2) in_ids by (auto simp: er_answers_def er_Get_def)
qed

lemma ix_wf_distinct: "ix_wf ix \<Longrightarrow> distinct (ix_ids ix k)"
  by (auto simp: ix_wf_def ix_ids_def split: option.splits)

lemma er_answers_key: "er_ok r \<Longrightarrow> uidx.mirrors ix (gm_key f (er_byID r)) \<Longrightarrow> k \<noteq> []
    \<Longrightarrow> er_answers r (er_byIndex r ix k) (\<lambda>j. f j = k)"
  using uidx.mirrors_view [of ix "gm_key f (er_byID r)" k]
  by (simp add: er_byIndex_def) (rule er_answers_view, auto simp: uidx.mirrors_def ix_wf_distinct)

lemma er_FinishedBefore_exact:
  assumes "er_ok r"
  shows "\<exists>js. er_FinishedBefore cutoff r = Some js \<and> distinct (map j_ID js)
    \<and> set js = {j. \<exists>i. map_of (er_byID r) i = Some j \<and> j_State j \<in> {StateCompleted, StateFailed, StateTimedOut, StateCancelled}
        \<and> er_finished_ref j \<le> cutoff}"
proof -
  define ids where "ids = concat (map (ix_ids (er_byState r)) [StateCompleted, StateFailed, StateTimedOut, StateCancelled])"
  have m: "sidx.mirrors (er_byState r) (er_key j_State r)" using assms by (simp add: er_ok_def)
  have v: "set (ix_ids (er_byState r) s) = {i. \<exists>j. map_of (er_byID r) i = Some j \<and> j_State j = s}" for s
    using sidx.mirrors_view [OF m, of s] by (auto simp: ix_view_def gm_key_def)
  have d: "distinct (ix_ids (er_byState r) s)" for s using m by (simp add: sidx.mirrors_def ix_wf_distinct)
  have "distinct ids" unfolding ids_def by (auto simp: d v)
  moreover have s: "i \<in> set ids \<longleftrightarrow>
      (\<exists>j. map_of (er_byID r) i = Some j \<and> j_State j \<in> {StateCompleted, StateFailed, StateTimedOut, StateCancelled})" for i
    unfolding ids_def by (auto simp: v)
  ultimately obtain js where js: "er_jobs r ids = Some js" "map j_ID js = ids" "set js = {j. \<exists>i \<in> set ids. map_of (er_byID r) i = Some j}"
    using er_query_exact [of ids r] assms by (auto simp: er_ok_def)
  have "distinct (map j_ID (filter (\<lambda>j. er_finished_ref j \<le> cutoff) js))"
    using \<open>distinct ids\<close> js(2) by (simp add: distinct_map_filter)
  then show ?thesis using js(1,3) s unfolding er_FinishedBefore_def ids_def [symmetric] by (auto simp: js(1))
qed



end
