(* ===== verification/Exec_Scheduler.thy ===== *)
theory Exec_Scheduler
  imports Exec_Job "HOL-Library.Product_Lexorder" "HOL-Library.Multiset"
begin

text \<open>
  The scheduler interface and its in-memory and no-op implementations (\<open>execution/scheduler\<close>). The
  interface is a record of operations on a state of any type, as for the coordination backend.
\<close>

record 'q sched_ops =
  so_Schedule :: "job \<Rightarrow> 'q \<Rightarrow> 'q \<times> job_error option"
  so_Cancel :: "string \<Rightarrow> 'q \<Rightarrow> 'q \<times> job_error option"
  so_Retry :: "job \<Rightarrow> 'q \<Rightarrow> 'q \<times> job_error option"
  so_Reprioritize :: "string \<Rightarrow> priority \<Rightarrow> 'q \<Rightarrow> 'q \<times> job_error option"

definition noop_ops :: "unit sched_ops" where
  "noop_ops = \<lparr>so_Schedule = (\<lambda>_ q. (q, None)), so_Cancel = (\<lambda>_ q. (q, None)), so_Retry = (\<lambda>_ q. (q, None)),
     so_Reprioritize = (\<lambda>_ _ q. (q, None))\<rparr>"

section \<open>The in-memory scheduler\<close>

record sched_entry =
  se_jobID :: string
  se_priority :: priority
  se_seq :: nat

record sched_memory =
  sm_entries :: "(string, sched_entry) gomap"
  sm_seq :: nat
  sm_capacity :: int

definition sm_New :: "int \<Rightarrow> sched_memory" where
  "sm_New capacity = \<lparr>sm_entries = [], sm_seq = 0, sm_capacity = capacity\<rparr>"

definition sm_Schedule :: "job \<Rightarrow> sched_memory \<Rightarrow> sched_memory \<times> job_error option" where
  "sm_Schedule j m =
    (if \<not> gm_has (sm_entries m) (j_ID j) \<and> sm_capacity m > 0 \<and> int (length (sm_entries m)) \<ge> sm_capacity m
     then (m, Some ErrSchedulerUnavailable)
     else let n = sm_seq m + 1
          in (m\<lparr>sm_seq := n,
               sm_entries := AList.update (j_ID j) \<lparr>se_jobID = j_ID j, se_priority = j_Priority j, se_seq = n\<rparr> (sm_entries m)\<rparr>,
              None))"

definition sm_Cancel :: "string \<Rightarrow> sched_memory \<Rightarrow> sched_memory \<times> job_error option" where
  "sm_Cancel i m = (m\<lparr>sm_entries := AList.delete i (sm_entries m)\<rparr>, None)"

definition sm_Retry :: "job \<Rightarrow> sched_memory \<Rightarrow> sched_memory \<times> job_error option" where
  "sm_Retry j m = sm_Schedule j m"

definition sm_Reprioritize :: "string \<Rightarrow> priority \<Rightarrow> sched_memory \<Rightarrow> sched_memory \<times> job_error option" where
  "sm_Reprioritize i p m =
    (case map_of (sm_entries m) i of
       None \<Rightarrow> (m, None)
     | Some e \<Rightarrow> (m\<lparr>sm_entries := AList.update i (e\<lparr>se_priority := p\<rparr>) (sm_entries m)\<rparr>, None))"

definition sm_Len :: "sched_memory \<Rightarrow> nat" where
  "sm_Len m = length (sm_entries m)"

definition sm_Has :: "string \<Rightarrow> sched_memory \<Rightarrow> bool" where
  "sm_Has i m \<longleftrightarrow> gm_has (sm_entries m) i"

text \<open>
  The comparison of \<open>Drain\<close> orders by descending priority and then by ascending sequence number;
  sequence numbers never repeat (see \<open>sm_rel\<close>), so the order \<open>sort.Slice\<close> produces is unique.
\<close>

definition se_order :: "sched_entry \<Rightarrow> int \<times> nat" where
  "se_order e = (- se_priority e, se_seq e)"

definition sm_Drain :: "sched_memory \<Rightarrow> sched_memory \<times> string list" where
  "sm_Drain m = (m\<lparr>sm_entries := []\<rparr>, map se_jobID (sort_key se_order (map snd (sm_entries m))))"

definition sm_ops :: "sched_memory sched_ops" where
  "sm_ops = \<lparr>so_Schedule = sm_Schedule, so_Cancel = sm_Cancel, so_Retry = sm_Retry, so_Reprioritize = sm_Reprioritize\<rparr>"

section \<open>The queue it implements\<close>

text \<open>
  The abstract scheduler is the list of the scheduled jobs in the order they were last scheduled;
  draining it is a stable sort by priority.
\<close>

type_synonym sched_queue = "(string \<times> priority) list"

definition sq_without :: "string \<Rightarrow> sched_queue \<Rightarrow> sched_queue" where
  "sq_without i q = filter (\<lambda>(i', p). i' \<noteq> i) q"

definition sq_schedule :: "int \<Rightarrow> string \<Rightarrow> priority \<Rightarrow> sched_queue \<Rightarrow> sched_queue \<times> job_error option" where
  "sq_schedule cap i p q =
    (if i \<notin> fst ` set q \<and> cap > 0 \<and> int (length q) \<ge> cap then (q, Some ErrSchedulerUnavailable)
     else (sq_without i q @ [(i, p)], None))"

definition sq_reprioritize :: "string \<Rightarrow> priority \<Rightarrow> sched_queue \<Rightarrow> sched_queue" where
  "sq_reprioritize i p q = map (\<lambda>(i', p'). (i', if i' = i then p else p')) q"

definition sq_drain :: "sched_queue \<Rightarrow> string list" where
  "sq_drain q = map fst (sort_key (\<lambda>(i, p). - p) q)"

datatype sched_cmd = CSchedule job | CCancel string | CRetry job | CReprioritize string priority | CDrain

datatype sched_res = RErr "job_error option" | RIds "string list"

fun sm_exec :: "sched_cmd \<Rightarrow> sched_memory \<Rightarrow> sched_memory \<times> sched_res" where
  "sm_exec (CSchedule j) m = (case sm_Schedule j m of (m', e) \<Rightarrow> (m', RErr e))"
| "sm_exec (CCancel i) m = (case sm_Cancel i m of (m', e) \<Rightarrow> (m', RErr e))"
| "sm_exec (CRetry j) m = (case sm_Retry j m of (m', e) \<Rightarrow> (m', RErr e))"
| "sm_exec (CReprioritize i p) m = (case sm_Reprioritize i p m of (m', e) \<Rightarrow> (m', RErr e))"
| "sm_exec CDrain m = (case sm_Drain m of (m', is') \<Rightarrow> (m', RIds is'))"

fun sq_exec :: "int \<Rightarrow> sched_cmd \<Rightarrow> sched_queue \<Rightarrow> sched_queue \<times> sched_res" where
  "sq_exec cap (CSchedule j) q = (case sq_schedule cap (j_ID j) (j_Priority j) q of (q', e) \<Rightarrow> (q', RErr e))"
| "sq_exec cap (CCancel i) q = (sq_without i q, RErr None)"
| "sq_exec cap (CRetry j) q = (case sq_schedule cap (j_ID j) (j_Priority j) q of (q', e) \<Rightarrow> (q', RErr e))"
| "sq_exec cap (CReprioritize i p) q = (sq_reprioritize i p q, RErr None)"
| "sq_exec cap CDrain q = ([], RIds (sq_drain q))"

fun trace_run :: "('c \<Rightarrow> 's \<Rightarrow> 's \<times> 'r) \<Rightarrow> 'c list \<Rightarrow> 's \<Rightarrow> 'r list" where
  "trace_run ex [] s = []"
| "trace_run ex (c # cs) s = (case ex c s of (s', r) \<Rightarrow> r # trace_run ex cs s')"

section \<open>Refinement\<close>

abbreviation se_pair :: "sched_entry \<Rightarrow> string \<times> priority" where
  "se_pair e \<equiv> (se_jobID e, se_priority e)"

definition sm_rel :: "int \<Rightarrow> sched_memory \<Rightarrow> sched_queue \<Rightarrow> bool" where
  "sm_rel cap m q \<longleftrightarrow> sm_capacity m = cap \<and> gm_wf (sm_entries m) \<and> (\<forall>(i, e) \<in> set (sm_entries m). se_jobID e = i)
     \<and> (\<exists>L. q = map se_pair L \<and> mset L = mset (map snd (sm_entries m)) \<and> sorted_wrt (<) (map se_seq L)
          \<and> (\<forall>e \<in> set L. se_seq e \<le> sm_seq m))"

lemma sort_key_map: "sort_key f (map h xs) = map h (sort_key (\<lambda>x. f (h x)) xs)"
proof (induction xs)
  case (Cons x xs)
  have "insort_key f (h x) (map h ys) = map h (insort_key (\<lambda>x. f (h x)) x ys)" for ys by (induction ys) auto
  with Cons show ?case by simp
qed simp

lemma sort_key_stable_seq:
  "sorted_wrt (<) (map se_seq L) \<Longrightarrow> sorted (map se_order (sort_key (\<lambda>e. - se_priority e) L))"
proof (induction L)
  case (Cons e L)
  have later: "\<forall>e' \<in> set L. se_seq e < se_seq e'" using Cons.prems by simp
  have ins: "sorted (map se_order (insort_key (\<lambda>e. - se_priority e) e ys))"
    if "sorted (map se_order ys)" "\<forall>e' \<in> set ys. se_seq e < se_seq e'" for ys
    using that by (induction ys) (auto simp: se_order_def set_insort_key less_eq_prod_def)
  show ?case using Cons later by (auto intro: ins)
qed simp

lemma sm_relE:
  assumes "sm_rel cap m q"
  obtains L where "sm_capacity m = cap" "gm_wf (sm_entries m)" "\<forall>(i, e) \<in> set (sm_entries m). se_jobID e = i"
    "q = map se_pair L" "mset L = mset (map snd (sm_entries m))" "sorted_wrt (<) (map se_seq L)"
    "\<forall>e \<in> set L. se_seq e \<le> sm_seq m" "set L = snd ` set (sm_entries m)" "length L = length (sm_entries m)"
proof -
  obtain L where L: "sm_capacity m = cap" "gm_wf (sm_entries m)" "\<forall>(i, e) \<in> set (sm_entries m). se_jobID e = i"
    "q = map se_pair L" "mset L = mset (map snd (sm_entries m))" "sorted_wrt (<) (map se_seq L)" "\<forall>e \<in> set L. se_seq e \<le> sm_seq m"
    using assms unfolding sm_rel_def by blast
  show ?thesis using that [OF L] arg_cong [OF L(5), of set_mset] arg_cong [OF L(5), of size] by simp
qed

lemma sm_rel_Drain: "sm_rel cap m q \<Longrightarrow> snd (sm_Drain m) = sq_drain q"
proof -
  assume "sm_rel cap m q"
  then obtain L where q: "q = map se_pair L" and ms: "mset L = mset (map snd (sm_entries m))"
    and so: "sorted_wrt (<) (map se_seq L)" and set: "set L = snd ` set (sm_entries m)"
    by (rule sm_relE)
  have "inj_on se_seq (set L)" using so by (simp add: strict_sorted_iff distinct_map)
  then have "inj_on se_order (set L)" by (auto simp: inj_on_def se_order_def)
  then have "sort_key se_order (map snd (sm_entries m)) = sort_key (\<lambda>e. - se_priority e) L"
    using ms sort_key_stable_seq [OF so] set by (intro sort_key_inj_key_eq) simp_all
  then show ?thesis by (simp add: sm_Drain_def sq_drain_def q sort_key_map comp_def)
qed

lemma alist_delete_filter: "AList.delete k m = filter (\<lambda>(k', v). k' \<noteq> k) m"
  by (induction m) auto

lemma mset_update_values: "gm_wf m \<Longrightarrow> mset (map snd (AList.update k v m)) = add_mset v (mset (map snd (AList.delete k m)))"
proof (induction m)
  case (Cons p m)
  then have wf: "gm_wf m" and fresh: "fst p \<notin> fst ` set m" by (auto simp: gm_wf_def)
  have "AList.delete (fst p) m = m" using fresh by (simp add: delete_idem)
  then show ?case using Cons.IH [OF wf] by (cases p) auto
qed simp

lemma sm_entries_without:
  assumes "\<forall>(i, e) \<in> set es. se_jobID e = i" "mset L = mset (map snd es)"
  shows "mset (filter (\<lambda>e. se_jobID e \<noteq> i) L) = mset (map snd (AList.delete i es))"
proof -
  have "map snd (filter (\<lambda>(k, e). k \<noteq> i) es) = filter (\<lambda>e. se_jobID e \<noteq> i) (map snd es)"
    using assms(1) by (induction es) auto
  then show ?thesis using arg_cong [OF assms(2), of "filter_mset (\<lambda>e. se_jobID e \<noteq> i)"]
    by (simp add: alist_delete_filter)
qed

lemma sorted_wrt_map_filter: "sorted_wrt P (map f xs) \<Longrightarrow> sorted_wrt P (map f (filter Q xs))"
  by (induction xs) auto

lemma sm_rel_ids: "sm_rel cap m q \<Longrightarrow> i \<in> fst ` set q \<longleftrightarrow> gm_has (sm_entries m) i"
proof (erule sm_relE)
  fix L assume L: "q = map se_pair L" "set L = snd ` set (sm_entries m)" "\<forall>(i, e) \<in> set (sm_entries m). se_jobID e = i"
  have "fst ` set q = se_jobID ` snd ` set (sm_entries m)" using L(1,2) by (simp add: image_image)
  also have "\<dots> = fst ` set (sm_entries m)" using L(3) by (auto simp: image_image intro!: image_cong)
  finally show ?thesis by (simp add: gm_has_iff)
qed

lemma sm_rel_length: "sm_rel cap m q \<Longrightarrow> length q = length (sm_entries m)"
  by (erule sm_relE) simp

lemma filter_pairs: "sq_without i (map se_pair L) = map se_pair (filter (\<lambda>e. se_jobID e \<noteq> i) L)"
  by (induction L) (auto simp: sq_without_def)

lemma sm_rel_Cancel: "sm_rel cap m q \<Longrightarrow> sm_rel cap (fst (sm_Cancel i m)) (sq_without i q)"
proof -
  assume "sm_rel cap m q"
  then obtain L where R: "sm_capacity m = cap" "gm_wf (sm_entries m)" "\<forall>(i, e) \<in> set (sm_entries m). se_jobID e = i"
    "q = map se_pair L" "mset L = mset (map snd (sm_entries m))" "sorted_wrt (<) (map se_seq L)" "\<forall>e \<in> set L. se_seq e \<le> sm_seq m"
    by (rule sm_relE)
  have keys: "\<forall>(i, e) \<in> set (AList.delete i (sm_entries m)). se_jobID e = i"
    using R(3) by (auto simp: alist_delete_filter)
  show ?thesis
    unfolding sm_rel_def sm_Cancel_def fst_conv
  proof (intro conjI exI [of _ "filter (\<lambda>e. se_jobID e \<noteq> i) L"])
    show "mset (filter (\<lambda>e. se_jobID e \<noteq> i) L) = mset (map snd (sm_entries (m\<lparr>sm_entries := AList.delete i (sm_entries m)\<rparr>)))"
      using sm_entries_without [OF R(3,5), of i] by simp
  qed (use R keys in \<open>simp_all add: filter_pairs sorted_wrt_map_filter\<close>)
qed

lemma sm_rel_Schedule:
  assumes "sm_rel cap m q"
  shows "sm_rel cap (fst (sm_Schedule j m)) (fst (sq_schedule cap (j_ID j) (j_Priority j) q))
    \<and> snd (sm_Schedule j m) = snd (sq_schedule cap (j_ID j) (j_Priority j) q)"
proof -
  obtain L where R: "sm_capacity m = cap" "gm_wf (sm_entries m)" "\<forall>(i, e) \<in> set (sm_entries m). se_jobID e = i"
    "q = map se_pair L" "mset L = mset (map snd (sm_entries m))" "sorted_wrt (<) (map se_seq L)" "\<forall>e \<in> set L. se_seq e \<le> sm_seq m"
    using assms by (rule sm_relE)
  let ?e = "\<lparr>se_jobID = j_ID j, se_priority = j_Priority j, se_seq = Suc (sm_seq m)\<rparr>"
  let ?L = "filter (\<lambda>e. se_jobID e \<noteq> j_ID j) L @ [?e]"
  have ms: "mset ?L = mset (map snd (AList.update (j_ID j) ?e (sm_entries m)))"
    using mset_update_values [OF R(2)] sm_entries_without [OF R(3,5), of "j_ID j"] by simp
  have so: "sorted_wrt (<) (map se_seq ?L)"
    using R(6,7) by (auto simp: sorted_wrt_append sorted_wrt_map_filter)
  have keys: "\<forall>(i, e) \<in> set (AList.update (j_ID j) ?e (sm_entries m)). se_jobID e = i"
    using R(2,3) by (auto simp: gm_wf_map_of_eq [symmetric, OF gm_wf_update [OF R(2)]] gm_wf_map_of_eq split: if_splits)
  have "sm_rel cap (m\<lparr>sm_seq := Suc (sm_seq m), sm_entries := AList.update (j_ID j) ?e (sm_entries m)\<rparr>)
      (sq_without (j_ID j) q @ [(j_ID j, j_Priority j)])"
    unfolding sm_rel_def
  proof (intro conjI exI [of _ ?L])
    show "mset ?L = mset (map snd (sm_entries (m\<lparr>sm_seq := Suc (sm_seq m), sm_entries := AList.update (j_ID j) ?e (sm_entries m)\<rparr>)))"
      using ms by simp
  qed (use R(1,2,4,7) so keys in \<open>simp_all add: filter_pairs le_SucI\<close>)
  then show ?thesis
    using assms sm_rel_ids [OF assms, of "j_ID j"] sm_rel_length [OF assms] R(1)
    by (simp add: sm_Schedule_def sq_schedule_def Let_def)
qed

lemma alist_update_map:
  "gm_wf m \<Longrightarrow> map_of m k = Some v \<Longrightarrow> AList.update k (f v) m = map (\<lambda>(k', v'). (k', if k' = k then f v' else v')) m"
proof (induction m)
  case (Cons p m)
  obtain k0 v0 where p: "p = (k0, v0)" by (cases p)
  have id: "map (\<lambda>(k', v'). (k', if k' = k then f v' else v')) m = m" if "k \<notin> fst ` set m"
    using that by (force intro: map_idI)
  show ?case using Cons id by (auto simp: p gm_wf_def split: if_splits)
qed simp

lemma sm_rel_Reprioritize: "sm_rel cap m q \<Longrightarrow> sm_rel cap (fst (sm_Reprioritize i p m)) (sq_reprioritize i p q)"
proof -
  assume rel: "sm_rel cap m q"
  then obtain L where R: "sm_capacity m = cap" "gm_wf (sm_entries m)" "\<forall>(i, e) \<in> set (sm_entries m). se_jobID e = i"
    "q = map se_pair L" "mset L = mset (map snd (sm_entries m))" "sorted_wrt (<) (map se_seq L)" "\<forall>e \<in> set L. se_seq e \<le> sm_seq m"
    by (rule sm_relE)
  show ?thesis
  proof (cases "map_of (sm_entries m) i")
    case None
    then have "i \<notin> fst ` set q" using sm_rel_ids [OF rel, of i] by (simp add: gm_has_def)
    then have "sq_reprioritize i p q = q" unfolding sq_reprioritize_def by (force intro: map_idI)
    then show ?thesis using rel None by (simp add: sm_Reprioritize_def)
  next
    case (Some e)
    define h :: "sched_entry \<Rightarrow> sched_entry" where "h = (\<lambda>e. if se_jobID e = i then e\<lparr>se_priority := p\<rparr> else e)"
    have h [simp]: "se_seq (h e) = se_seq e" "se_jobID (h e) = se_jobID e" for e by (simp_all add: h_def)
    define es where "es = map (\<lambda>(k, e). (k, h e)) (sm_entries m)"
    have upd: "AList.update i (e\<lparr>se_priority := p\<rparr>) (sm_entries m) = es"
      using alist_update_map [OF R(2) Some, of "\<lambda>e. e\<lparr>se_priority := p\<rparr>"] R(3) by (auto simp: es_def h_def intro!: map_cong)
    have ms: "mset (map h L) = mset (map snd es)"
      using arg_cong [OF R(5), of "image_mset h"]
      by (simp add: es_def image_mset.compositionality comp_def case_prod_beta)
    have q: "sq_reprioritize i p q = map se_pair (map h L)" using R(4) by (simp add: sq_reprioritize_def h_def)
    have "\<forall>(k, e) \<in> set es. se_jobID e = k" using R(3) by (auto simp: es_def)
    moreover have "gm_wf es" using gm_wf_update [OF R(2)] upd by metis
    moreover have "fst (sm_Reprioritize i p m) = m\<lparr>sm_entries := es\<rparr>" using Some upd by (simp add: sm_Reprioritize_def)
    moreover have "map se_seq (map h L) = map se_seq L" by simp
    ultimately show ?thesis
      unfolding sm_rel_def q using R(1,6,7) ms by (intro conjI exI [of _ "map h L"]) (auto simp: comp_def)
  qed
qed

lemma sm_exec_refines:
  "sm_rel cap m q \<Longrightarrow> snd (sm_exec c m) = snd (sq_exec cap c q) \<and> sm_rel cap (fst (sm_exec c m)) (fst (sq_exec cap c q))"
proof (cases c)
  case CDrain
  assume rel: "sm_rel cap m q"
  have "sm_rel cap (fst (sm_Drain m)) []" using rel by (auto simp: sm_rel_def sm_Drain_def)
  then show ?thesis using CDrain sm_rel_Drain [OF rel] by (simp add: case_prod_beta)
next
  case (CReprioritize i p)
  assume rel: "sm_rel cap m q"
  have "snd (sm_Reprioritize i p m) = None" by (simp add: sm_Reprioritize_def split: option.split)
  then show ?thesis using CReprioritize sm_rel_Reprioritize [OF rel] by (simp add: case_prod_beta)
qed (auto simp: case_prod_beta sm_Retry_def sm_Cancel_def [THEN arg_cong [where f = snd]]
      dest: sm_rel_Schedule sm_rel_Cancel)

text \<open>
  C31. The in-memory scheduler is a stable priority queue: on every sequence of schedule, cancel,
  retry, reprioritise and drain calls, for every capacity, it answers as the queue that lists the
  jobs in the order of their latest (re)scheduling, refuses a new job exactly at capacity, and
  drains by a stable sort of decreasing priority: higher priorities first, first come first
  served within one priority.
\<close>

theorem scheduler_refines_priority_queue:
  "trace_run sm_exec cs (sm_New capacity) = trace_run (sq_exec capacity) cs []"
proof -
  have "trace_run sm_exec cs m = trace_run (sq_exec capacity) cs q" if "sm_rel capacity m q" for m q
    using that
  proof (induction cs arbitrary: m q)
    case (Cons c cs)
    then show ?case using sm_exec_refines [of capacity m q c] by (simp add: case_prod_beta)
  qed simp
  moreover have "sm_rel capacity (sm_New capacity) []" by (simp add: sm_rel_def sm_New_def)
  ultimately show ?thesis by blast
qed

end
