(* ===== verification/Exec_Validation.thy ===== *)
theory Exec_Validation
  imports Exec_Job
begin

text \<open>
  Configuration, the language registry and the validation pipeline of the execution orchestrator
  (\<open>execution/config\<close>, \<open>execution/language\<close>, \<open>execution/validation\<close>). An error is the sentinel it
  wraps; the formatted detail is left out.
\<close>

section \<open>Configuration\<close>

record exec_config =
  xc_MaxCodeSize :: int
  xc_MaxStdinSize :: int
  xc_MaxMetadataEntries :: int
  xc_MaxMetadataKeyLen :: int
  xc_MaxMetadataValueLen :: int
  xc_DefaultTimeout :: duration
  xc_MaxTimeout :: duration
  xc_MaxMemoryBytes :: int
  xc_MaxRetries :: int
  xc_MinPriority :: priority
  xc_MaxPriority :: priority
  xc_QueueTimeout :: duration
  xc_ArchiveRetention :: duration
  xc_ArchiveSweepInterval :: duration
  xc_RequireAuthentication :: bool
  xc_EnableAuthorization :: bool

definition xc_Default :: exec_config where
  "xc_Default =
    \<lparr>xc_MaxCodeSize = 256 * 1024, xc_MaxStdinSize = 1024 * 1024, xc_MaxMetadataEntries = 32,
     xc_MaxMetadataKeyLen = 128, xc_MaxMetadataValueLen = 1024,
     xc_DefaultTimeout = 10 * Second, xc_MaxTimeout = 60 * Second, xc_MaxMemoryBytes = 512 * 1024 * 1024,
     xc_MaxRetries = 3, xc_MinPriority = 0, xc_MaxPriority = 3, xc_QueueTimeout = 30 * Second,
     xc_ArchiveRetention = 15 * Minute, xc_ArchiveSweepInterval = 1 * Minute,
     xc_RequireAuthentication = True, xc_EnableAuthorization = False\<rparr>"

definition or_default :: "int \<Rightarrow> int \<Rightarrow> int" where
  "or_default x d = (if x \<le> 0 then d else x)"

definition xc_Validate :: "exec_config \<Rightarrow> string + exec_config" where
  "xc_Validate c =
    (let d = xc_Default;
         c = c\<lparr>xc_MaxCodeSize := or_default (xc_MaxCodeSize c) (xc_MaxCodeSize d),
               xc_MaxStdinSize := or_default (xc_MaxStdinSize c) (xc_MaxStdinSize d),
               xc_MaxMetadataEntries := or_default (xc_MaxMetadataEntries c) (xc_MaxMetadataEntries d),
               xc_MaxMetadataKeyLen := or_default (xc_MaxMetadataKeyLen c) (xc_MaxMetadataKeyLen d),
               xc_MaxMetadataValueLen := or_default (xc_MaxMetadataValueLen c) (xc_MaxMetadataValueLen d),
               xc_DefaultTimeout := or_default (xc_DefaultTimeout c) (xc_DefaultTimeout d),
               xc_MaxTimeout := or_default (xc_MaxTimeout c) (xc_MaxTimeout d)\<rparr>
     in if xc_DefaultTimeout c > xc_MaxTimeout c then Inl ''default_timeout must be <= max_timeout''
        else let c = c\<lparr>xc_MaxMemoryBytes := or_default (xc_MaxMemoryBytes c) (xc_MaxMemoryBytes d)\<rparr>
        in if xc_MaxRetries c < 0 then Inl ''max_retries must be >= 0''
        else let c = (if xc_MaxRetries c = 0 then c\<lparr>xc_MaxRetries := xc_MaxRetries d\<rparr> else c)
        in if xc_MinPriority c > xc_MaxPriority c then Inl ''min_priority must be <= max_priority''
        else Inr (c\<lparr>xc_QueueTimeout := or_default (xc_QueueTimeout c) (xc_QueueTimeout d),
                    xc_ArchiveRetention := or_default (xc_ArchiveRetention c) (xc_ArchiveRetention d),
                    xc_ArchiveSweepInterval := or_default (xc_ArchiveSweepInterval c) (xc_ArchiveSweepInterval d)\<rparr>))"

section \<open>Languages\<close>

datatype lang_status = StatusStable | StatusBeta | StatusDeprecated | StatusDisabled | StatusUnknown nat

fun lang_status_String :: "lang_status \<Rightarrow> string" where
  "lang_status_String StatusStable = ''stable''"
| "lang_status_String StatusBeta = ''beta''"
| "lang_status_String StatusDeprecated = ''deprecated''"
| "lang_status_String StatusDisabled = ''disabled''"
| "lang_status_String (StatusUnknown _) = ''unknown''"

record language =
  la_ID :: string
  la_DisplayName :: string
  la_Version :: string
  la_Compiler :: string
  la_Runtime :: string
  la_FileExtension :: string
  la_CompileRequired :: bool
  la_Profile :: resource_profile
  la_Limits :: resource_profile
  la_DefaultTimeout :: duration
  la_DefaultMemory :: int
  la_Status :: lang_status
  la_PluginID :: string

type_synonym lang_registry = "(string, language) gomap"

datatype lang_error = ErrLangEmptyID | ErrNotRegistered | ErrAlreadyRegistered

definition la_Runnable :: "language \<Rightarrow> bool" where
  "la_Runnable l \<longleftrightarrow> la_Status l \<noteq> StatusDisabled"

definition lr_Register :: "language \<Rightarrow> lang_registry \<Rightarrow> lang_registry \<times> lang_error option" where
  "lr_Register l r =
    (if la_ID l = [] then (r, Some ErrLangEmptyID)
     else if gm_has r (la_ID l) then (r, Some ErrAlreadyRegistered)
     else (AList.update (la_ID l) l r, None))"

definition lr_Upsert :: "language \<Rightarrow> lang_registry \<Rightarrow> lang_registry" where
  "lr_Upsert l r = AList.update (la_ID l) l r"

definition lr_Get :: "string \<Rightarrow> lang_registry \<Rightarrow> lang_error + language" where
  "lr_Get i r = (case map_of r i of None \<Rightarrow> Inl ErrNotRegistered | Some l \<Rightarrow> Inr l)"

definition lr_Runnable :: "string \<Rightarrow> lang_registry \<Rightarrow> lang_error + language" where
  "lr_Runnable i r =
    (case lr_Get i r of
       Inl e \<Rightarrow> Inl e
     | Inr l \<Rightarrow> if \<not> la_Runnable l then Inl ErrNotRegistered else Inr l)"

definition lr_Remove :: "string \<Rightarrow> lang_registry \<Rightarrow> lang_registry" where
  "lr_Remove i r = AList.delete i r"

definition lr_std :: "int \<Rightarrow> int \<Rightarrow> int \<Rightarrow> duration \<Rightarrow> resource_profile" where
  "lr_std mem cpu pids to =
    \<lparr>rp_Tier = ''standard'', rp_MemoryBytes = mem, rp_CPUMillicores = cpu, rp_PidsLimit = pids,
     rp_TmpfsBytes = 64 * 1024 * 1024, rp_WallTimeout = to\<rparr>"

definition lr_seed :: "language list" where
  "lr_seed =
    [\<lparr>la_ID = ''python3'', la_DisplayName = ''Python'', la_Version = ''3.12'', la_Compiler = [], la_Runtime = ''cpython'',
      la_FileExtension = ''.py'', la_CompileRequired = False,
      la_Profile = lr_std (256*1024*1024) 1000 64 (10 * Second), la_Limits = lr_std (512*1024*1024) 2000 128 (30 * Second),
      la_DefaultTimeout = 10 * Second, la_DefaultMemory = 256*1024*1024, la_Status = StatusStable, la_PluginID = []\<rparr>,
     \<lparr>la_ID = ''go'', la_DisplayName = ''Go'', la_Version = ''1.26'', la_Compiler = ''gc'', la_Runtime = ''native'',
      la_FileExtension = ''.go'', la_CompileRequired = True,
      la_Profile = lr_std (512*1024*1024) 2000 128 (15 * Second), la_Limits = lr_std (1024*1024*1024) 4000 256 (45 * Second),
      la_DefaultTimeout = 15 * Second, la_DefaultMemory = 512*1024*1024, la_Status = StatusStable, la_PluginID = []\<rparr>,
     \<lparr>la_ID = ''javascript'', la_DisplayName = ''JavaScript'', la_Version = ''20'', la_Compiler = [], la_Runtime = ''node'',
      la_FileExtension = ''.js'', la_CompileRequired = False,
      la_Profile = lr_std (256*1024*1024) 1000 64 (10 * Second), la_Limits = lr_std (512*1024*1024) 2000 128 (30 * Second),
      la_DefaultTimeout = 10 * Second, la_DefaultMemory = 256*1024*1024, la_Status = StatusStable, la_PluginID = []\<rparr>,
     \<lparr>la_ID = ''c'', la_DisplayName = ''C'', la_Version = ''gcc-14'', la_Compiler = ''gcc'', la_Runtime = ''native'',
      la_FileExtension = ''.c'', la_CompileRequired = True,
      la_Profile = lr_std (256*1024*1024) 1000 64 (10 * Second), la_Limits = lr_std (512*1024*1024) 2000 128 (30 * Second),
      la_DefaultTimeout = 10 * Second, la_DefaultMemory = 256*1024*1024, la_Status = StatusStable, la_PluginID = []\<rparr>,
     \<lparr>la_ID = ''cpp'', la_DisplayName = ''C++'', la_Version = ''g++-14'', la_Compiler = ''g++'', la_Runtime = ''native'',
      la_FileExtension = ''.cpp'', la_CompileRequired = True,
      la_Profile = lr_std (512*1024*1024) 2000 128 (15 * Second), la_Limits = lr_std (1024*1024*1024) 4000 256 (45 * Second),
      la_DefaultTimeout = 15 * Second, la_DefaultMemory = 512*1024*1024, la_Status = StatusStable, la_PluginID = []\<rparr>,
     \<lparr>la_ID = ''java'', la_DisplayName = ''Java'', la_Version = ''21'', la_Compiler = ''javac'', la_Runtime = ''jvm'',
      la_FileExtension = ''.java'', la_CompileRequired = True,
      la_Profile = lr_std (512*1024*1024) 2000 256 (20 * Second), la_Limits = lr_std (1024*1024*1024) 4000 512 (60 * Second),
      la_DefaultTimeout = 20 * Second, la_DefaultMemory = 512*1024*1024, la_Status = StatusBeta, la_PluginID = []\<rparr>]"

definition lr_Default :: lang_registry where
  "lr_Default = fold lr_Upsert lr_seed []"

section \<open>Validators\<close>

record validator =
  vd_Name :: string
  vd_Validate :: "exec_request \<Rightarrow> job_error option"

text \<open>An \<open>Authorizer\<close> answers \<open>(bool, error)\<close>; \<open>None\<close> is the nil interface.\<close>

type_synonym authorizer = "exec_request \<Rightarrow> string + bool"

definition AllowAll :: authorizer where
  "AllowAll req = Inr True"

definition AuthenticationValidator :: "bool \<Rightarrow> validator" where
  "AuthenticationValidator required =
    \<lparr>vd_Name = ''authentication'',
     vd_Validate = (\<lambda>req. if required \<and> \<not> rq_Authenticated req then Some ErrUnauthenticated else None)\<rparr>"

definition AuthorizationValidator :: "bool \<Rightarrow> authorizer option \<Rightarrow> validator" where
  "AuthorizationValidator enabled a =
    \<lparr>vd_Name = ''authorization'',
     vd_Validate = (\<lambda>req. if \<not> enabled then None
       else case (case a of None \<Rightarrow> AllowAll | Some f \<Rightarrow> f) req of
           Inl e \<Rightarrow> Some ErrUnauthorized
         | Inr ok \<Rightarrow> if \<not> ok then Some ErrUnauthorized else None)\<rparr>"

definition LanguageValidator :: "lang_registry \<Rightarrow> validator" where
  "LanguageValidator langs =
    \<lparr>vd_Name = ''language'',
     vd_Validate = (\<lambda>req. if rq_Language req = [] then Some ErrUnsupportedLanguage
       else case lr_Runnable (rq_Language req) langs of Inl e \<Rightarrow> Some ErrUnsupportedLanguage | Inr l \<Rightarrow> None)\<rparr>"

definition CodeSizeValidator :: "int \<Rightarrow> validator" where
  "CodeSizeValidator mx =
    \<lparr>vd_Name = ''code_size'',
     vd_Validate = (\<lambda>req. if rq_Source req = [] then Some ErrInvalidRequest
       else if int (length (rq_Source req)) > mx then Some ErrCodeTooLarge else None)\<rparr>"

definition InputSizeValidator :: "int \<Rightarrow> validator" where
  "InputSizeValidator mx =
    \<lparr>vd_Name = ''input_size'',
     vd_Validate = (\<lambda>req. if int (length (rq_Stdin req)) > mx then Some ErrStdinTooLarge else None)\<rparr>"

definition TimeoutValidator :: "duration \<Rightarrow> validator" where
  "TimeoutValidator mx =
    \<lparr>vd_Name = ''timeout'',
     vd_Validate = (\<lambda>req. if rq_Timeout req < 0 then Some ErrInvalidTimeout
       else if rq_Timeout req > mx then Some ErrInvalidTimeout else None)\<rparr>"

definition MemoryProfileValidator :: "int \<Rightarrow> lang_registry \<Rightarrow> validator" where
  "MemoryProfileValidator mx langs =
    \<lparr>vd_Name = ''memory_profile'',
     vd_Validate = (\<lambda>req. case rq_Resources req of
         None \<Rightarrow> None
       | Some rp \<Rightarrow>
           if rp_MemoryBytes rp < 0 \<or> rp_CPUMillicores rp < 0 \<or> rp_PidsLimit rp < 0 \<or> rp_TmpfsBytes rp < 0
           then Some ErrInvalidResourceProfile
           else if rp_MemoryBytes rp > mx then Some ErrInvalidResourceProfile
           else case lr_Get (rq_Language req) langs of
               Inl e \<Rightarrow> None
             | Inr lang \<Rightarrow>
                 if rp_IsZero (la_Limits lang) then None
                 else if rp_MemoryBytes rp > rp_MemoryBytes (la_Limits lang) \<and> rp_MemoryBytes (la_Limits lang) > 0
                 then Some ErrInvalidResourceProfile
                 else if rp_CPUMillicores rp > rp_CPUMillicores (la_Limits lang) \<and> rp_CPUMillicores (la_Limits lang) > 0
                 then Some ErrInvalidResourceProfile
                 else None)\<rparr>"

definition PriorityValidator :: "priority \<Rightarrow> priority \<Rightarrow> validator" where
  "PriorityValidator mn mx =
    \<lparr>vd_Name = ''priority'',
     vd_Validate = (\<lambda>req. if rq_Priority req < mn \<or> rq_Priority req > mx then Some ErrInvalidPriority else None)\<rparr>"

fun metadata_check :: "int \<Rightarrow> int \<Rightarrow> (string, string) gomap \<Rightarrow> job_error option" where
  "metadata_check maxKey maxVal [] = None"
| "metadata_check maxKey maxVal ((k, v) # m) =
    (if k = [] then Some ErrInvalidMetadata
     else if int (length k) > maxKey then Some ErrInvalidMetadata
     else if int (length v) > maxVal then Some ErrInvalidMetadata
     else metadata_check maxKey maxVal m)"

definition MetadataValidator :: "int \<Rightarrow> int \<Rightarrow> int \<Rightarrow> validator" where
  "MetadataValidator maxEntries maxKey maxVal =
    \<lparr>vd_Name = ''metadata'',
     vd_Validate = (\<lambda>req. if int (length (rq_Metadata req)) > maxEntries then Some ErrInvalidMetadata
       else metadata_check maxKey maxVal (rq_Metadata req))\<rparr>"

definition DefaultValidators :: "exec_config \<Rightarrow> lang_registry \<Rightarrow> authorizer option \<Rightarrow> validator list \<Rightarrow> validator list" where
  "DefaultValidators cfg langs authz custom =
    [AuthenticationValidator (xc_RequireAuthentication cfg),
     AuthorizationValidator (xc_EnableAuthorization cfg) authz,
     LanguageValidator langs,
     CodeSizeValidator (xc_MaxCodeSize cfg),
     InputSizeValidator (xc_MaxStdinSize cfg),
     TimeoutValidator (xc_MaxTimeout cfg),
     MemoryProfileValidator (xc_MaxMemoryBytes cfg) langs,
     PriorityValidator (xc_MinPriority cfg) (xc_MaxPriority cfg),
     MetadataValidator (xc_MaxMetadataEntries cfg) (xc_MaxMetadataKeyLen cfg) (xc_MaxMetadataValueLen cfg)] @ custom"

section \<open>The pipeline\<close>

type_synonym failure = "string \<times> job_error"

text \<open>
  The loop over the validators. \<open>ctx\<close> tells whether the context has ended at the \<open>n\<close>-th check;
  \<open>stop\<close> is \<open>stopOnFirst\<close>.
\<close>

fun pipeline_loop :: "bool \<Rightarrow> (nat \<Rightarrow> bool) \<Rightarrow> nat \<Rightarrow> validator list \<Rightarrow> exec_request \<Rightarrow> failure list" where
  "pipeline_loop stop ctx n [] req = []"
| "pipeline_loop stop ctx n (v # vs) req =
    (if ctx n then [(vd_Name v, ErrContext)]
     else case vd_Validate v req of
         None \<Rightarrow> pipeline_loop stop ctx (Suc n) vs req
       | Some e \<Rightarrow> (vd_Name v, e) # (if stop then [] else pipeline_loop stop ctx (Suc n) vs req))"

definition pipeline_Validate :: "bool \<Rightarrow> (nat \<Rightarrow> bool) \<Rightarrow> validator list \<Rightarrow> exec_request option \<Rightarrow> failure list" where
  "pipeline_Validate stop ctx vs req =
    (case req of None \<Rightarrow> [(''request'', ErrInvalidRequest)] | Some r \<Rightarrow> pipeline_loop stop ctx 0 vs r)"

definition result_OK :: "failure list \<Rightarrow> bool" where
  "result_OK fs \<longleftrightarrow> fs = []"

definition result_Err :: "failure list \<Rightarrow> job_error option" where
  "result_Err fs = (if result_OK fs then None else Some (ErrValidationFailed (fst (hd fs)) (snd (hd fs))))"

section \<open>What is accepted\<close>

definition resources_acceptable :: "exec_config \<Rightarrow> lang_registry \<Rightarrow> string \<Rightarrow> resource_profile \<Rightarrow> bool" where
  "resources_acceptable cfg langs lang rp \<longleftrightarrow>
     0 \<le> rp_MemoryBytes rp \<and> rp_MemoryBytes rp \<le> xc_MaxMemoryBytes cfg
   \<and> 0 \<le> rp_CPUMillicores rp \<and> 0 \<le> rp_PidsLimit rp \<and> 0 \<le> rp_TmpfsBytes rp
   \<and> (\<forall>l. map_of langs lang = Some l \<longrightarrow>
        (0 < rp_MemoryBytes (la_Limits l) \<longrightarrow> rp_MemoryBytes rp \<le> rp_MemoryBytes (la_Limits l))
      \<and> (0 < rp_CPUMillicores (la_Limits l) \<longrightarrow> rp_CPUMillicores rp \<le> rp_CPUMillicores (la_Limits l)))"

definition request_acceptable :: "exec_config \<Rightarrow> lang_registry \<Rightarrow> authorizer option \<Rightarrow> exec_request \<Rightarrow> bool" where
  "request_acceptable cfg langs authz req \<longleftrightarrow>
     (xc_RequireAuthentication cfg \<longrightarrow> rq_Authenticated req)
   \<and> (xc_EnableAuthorization cfg \<longrightarrow> (\<forall>f. authz = Some f \<longrightarrow> f req = Inr True))
   \<and> rq_Language req \<noteq> [] \<and> (\<exists>l. map_of langs (rq_Language req) = Some l \<and> la_Status l \<noteq> StatusDisabled)
   \<and> rq_Source req \<noteq> [] \<and> int (length (rq_Source req)) \<le> xc_MaxCodeSize cfg
   \<and> int (length (rq_Stdin req)) \<le> xc_MaxStdinSize cfg
   \<and> 0 \<le> rq_Timeout req \<and> rq_Timeout req \<le> xc_MaxTimeout cfg
   \<and> (\<forall>rp. rq_Resources req = Some rp \<longrightarrow> resources_acceptable cfg langs (rq_Language req) rp)
   \<and> xc_MinPriority cfg \<le> rq_Priority req \<and> rq_Priority req \<le> xc_MaxPriority cfg
   \<and> int (length (rq_Metadata req)) \<le> xc_MaxMetadataEntries cfg
   \<and> (\<forall>(k, v) \<in> set (rq_Metadata req). k \<noteq> [] \<and> int (length k) \<le> xc_MaxMetadataKeyLen cfg
        \<and> int (length v) \<le> xc_MaxMetadataValueLen cfg)"

lemma pipeline_loop_find:
  assumes "\<And>n. \<not> ctx n"
  shows "result_Err (pipeline_loop stop ctx n vs req) =
    (case find (\<lambda>v. vd_Validate v req \<noteq> None) vs of
       None \<Rightarrow> None
     | Some v \<Rightarrow> Some (ErrValidationFailed (vd_Name v) (the (vd_Validate v req))))"
proof (induction vs arbitrary: n)
  case (Cons v vs)
  then show ?case using assms by (cases "vd_Validate v req") (simp_all add: result_Err_def [of "_ # _"] result_OK_def)
qed (simp add: result_Err_def result_OK_def)

lemma result_OK_Err: "result_OK fs \<longleftrightarrow> result_Err fs = None"
  by (simp add: result_Err_def)

lemma metadata_check_iff:
  "metadata_check mk mv m = None \<longleftrightarrow> (\<forall>(k, v) \<in> set m. k \<noteq> [] \<and> int (length k) \<le> mk \<and> int (length v) \<le> mv)"
  by (induction m) (auto split: if_splits)

lemma MemoryProfile_iff:
  "vd_Validate (MemoryProfileValidator (xc_MaxMemoryBytes cfg) langs) req = None
   \<longleftrightarrow> (\<forall>rp. rq_Resources req = Some rp \<longrightarrow> resources_acceptable cfg langs (rq_Language req) rp)"
  by (auto simp: MemoryProfileValidator_def resources_acceptable_def lr_Get_def rp_IsZero_def rp_zero_def
      split: option.splits)

lemma default_validators_pass:
  "(\<forall>v \<in> set (DefaultValidators cfg langs authz custom). vd_Validate v req = None)
   \<longleftrightarrow> request_acceptable cfg langs authz req \<and> (\<forall>v \<in> set custom. vd_Validate v req = None)"
proof -
  have a: "vd_Validate (AuthenticationValidator r) req = None \<longleftrightarrow> (r \<longrightarrow> rq_Authenticated req)" for r
    by (simp add: AuthenticationValidator_def)
  have b: "vd_Validate (AuthorizationValidator en authz) req = None \<longleftrightarrow> (en \<longrightarrow> (\<forall>f. authz = Some f \<longrightarrow> f req = Inr True))" for en
    by (auto simp: AuthorizationValidator_def AllowAll_def split: option.splits sum.splits)
  have c: "vd_Validate (LanguageValidator langs) req = None
      \<longleftrightarrow> rq_Language req \<noteq> [] \<and> (\<exists>l. map_of langs (rq_Language req) = Some l \<and> la_Status l \<noteq> StatusDisabled)"
    by (auto simp: LanguageValidator_def lr_Runnable_def lr_Get_def la_Runnable_def split: option.splits)
  have d: "vd_Validate (CodeSizeValidator mx) req = None \<longleftrightarrow> rq_Source req \<noteq> [] \<and> int (length (rq_Source req)) \<le> mx" for mx
    by (auto simp: CodeSizeValidator_def)
  have e: "vd_Validate (InputSizeValidator mx) req = None \<longleftrightarrow> int (length (rq_Stdin req)) \<le> mx" for mx
    by (auto simp: InputSizeValidator_def)
  have f: "vd_Validate (TimeoutValidator mx) req = None \<longleftrightarrow> 0 \<le> rq_Timeout req \<and> rq_Timeout req \<le> mx" for mx
    by (auto simp: TimeoutValidator_def)
  have g: "vd_Validate (PriorityValidator mn mx) req = None \<longleftrightarrow> mn \<le> rq_Priority req \<and> rq_Priority req \<le> mx" for mn mx
    by (auto simp: PriorityValidator_def)
  have h: "vd_Validate (MetadataValidator n k v) req = None \<longleftrightarrow> int (length (rq_Metadata req)) \<le> n
      \<and> (\<forall>(k', v') \<in> set (rq_Metadata req). k' \<noteq> [] \<and> int (length k') \<le> k \<and> int (length v') \<le> v)" for n k v
    using metadata_check_iff [of k v "rq_Metadata req"] by (simp add: MetadataValidator_def not_less)
  show ?thesis
    by (simp add: DefaultValidators_def request_acceptable_def a b c d e f g h MemoryProfile_iff ball_Un conj_assoc)
qed

lemma pipeline_Validate_find:
  assumes "\<And>n. \<not> ctx n"
  shows "result_Err (pipeline_Validate stop ctx vs (Some req)) =
      (case find (\<lambda>v. vd_Validate v req \<noteq> None) vs of
         None \<Rightarrow> None
       | Some v \<Rightarrow> Some (ErrValidationFailed (vd_Name v) (the (vd_Validate v req))))"
  using pipeline_loop_find [OF assms] by (simp add: pipeline_Validate_def)

lemma default_pipeline_OK:
  assumes "\<And>n. \<not> ctx n"
  shows "result_OK (pipeline_Validate stop ctx (DefaultValidators cfg langs authz custom) (Some req))
    \<longleftrightarrow> request_acceptable cfg langs authz req \<and> (\<forall>v \<in> set custom. vd_Validate v req = None)"
proof -
  let ?vs = "DefaultValidators cfg langs authz custom"
  have "find (\<lambda>v. vd_Validate v req \<noteq> None) ?vs = None \<longleftrightarrow> (\<forall>v \<in> set ?vs. vd_Validate v req = None)"
    by (auto simp: find_None_iff)
  then have "result_OK (pipeline_Validate stop ctx ?vs (Some req)) \<longleftrightarrow> (\<forall>v \<in> set ?vs. vd_Validate v req = None)"
    unfolding result_OK_Err pipeline_Validate_find [OF assms] by (auto split: option.split)
  then show ?thesis by (simp add: default_validators_pass)
qed

lemma ex_request_acceptable: "request_acceptable xc_Default lr_Default None ex_request"
  by (simp add: request_acceptable_def xc_Default_def lr_Default_def lr_seed_def lr_Upsert_def ex_request_def)



section \<open>Validated configurations\<close>

definition xc_normal :: "exec_config \<Rightarrow> bool" where
  "xc_normal c \<longleftrightarrow> 0 < xc_MaxCodeSize c \<and> 0 < xc_MaxStdinSize c \<and> 0 < xc_MaxMetadataEntries c \<and> 0 < xc_MaxMetadataKeyLen c
     \<and> 0 < xc_MaxMetadataValueLen c \<and> 0 < xc_DefaultTimeout c \<and> xc_DefaultTimeout c \<le> xc_MaxTimeout c
     \<and> 0 < xc_MaxMemoryBytes c \<and> 0 < xc_MaxRetries c \<and> xc_MinPriority c \<le> xc_MaxPriority c \<and> 0 < xc_QueueTimeout c
     \<and> 0 < xc_ArchiveRetention c \<and> 0 < xc_ArchiveSweepInterval c"

lemma or_default_pos: "0 < d \<Longrightarrow> 0 < or_default x d"
  by (simp add: or_default_def)

lemma or_default_id: "0 < x \<Longrightarrow> or_default x d = x"
  by (simp add: or_default_def)

lemma xc_Validate_normal: "xc_Validate c = Inr c' \<Longrightarrow> xc_normal c'"
  by (auto simp: xc_Validate_def xc_normal_def Let_def or_default_pos xc_Default_def split: if_split_asm)

lemma xc_Validate_fixpoint: "xc_normal c \<Longrightarrow> xc_Validate c = Inr c"
  by (simp add: xc_Validate_def xc_normal_def or_default_id Let_def)

lemma xc_Validate_idem: "xc_Validate c = Inr c' \<Longrightarrow> xc_Validate c' = Inr c'"
  by (intro xc_Validate_fixpoint xc_Validate_normal)

text \<open>
  Zero-valued fields are not all defaulted: an otherwise empty configuration keeps the priority
  range \<open>[0, 0]\<close>, so that the pipeline rejects the default interactive priority.
\<close>

lemma xc_Validate_zero_priority:
  assumes "xc_Validate c = Inr c'" "xc_MinPriority c = 0" "xc_MaxPriority c = 0" "rq_Priority req = 1"
  shows "\<not> request_acceptable c' langs authz req"
proof -
  have "xc_MaxPriority c' = 0" using assms(1,3) by (auto simp: xc_Validate_def Let_def split: if_split_asm)
  then show ?thesis using assms(4) by (simp add: request_acceptable_def)
qed

end
