(* ===== verification/Exec_Orchestrator.thy ===== *)
theory Exec_Orchestrator
  imports Exec_Registry Exec_Scheduler Exec_Validation
begin

text \<open>
  The execution orchestrator (\<open>execution/orchestrator\<close>) with its execution contexts
  (\<open>execution/context\<close>) and in-memory storage (\<open>execution/storage\<close>). The scheduler is any
  implementation of the interface (a record of operations); the clock readings and the generated
  identifiers are arguments. Metrics and logs are left out.
\<close>

section \<open>Execution contexts\<close>

record exec_tracing =
  tc_RequestID :: string
  tc_CorrelationID :: string
  tc_TraceID :: string
  tc_SpanID :: string

record exec_security =
  sy_UserID :: string
  sy_Roles :: "string list"
  sy_Authenticated :: bool
  sy_Authorized :: bool
  sy_NetworkAccess :: bool

record exec_context =
  xe_JobID :: string
  xe_UserID :: string
  xe_SessionID :: string
  xe_RoomID :: string
  xe_Language :: string
  xe_Tracing :: exec_tracing
  xe_Security :: exec_security
  xe_Resources :: resource_profile
  xe_Deadline :: time
  xe_CreatedAt :: time
  xe_WorkerID :: string
  xe_SandboxID :: string
  xe_cancelled :: bool

type_synonym ctx_manager = "(string, exec_context) gomap"

text \<open>\<open>tracer\<close> is what the trace id factory returns, \<open>clk\<close> the clock for a zero \<open>now\<close>.\<close>

definition cm_Create ::
  "(string \<times> string) option \<Rightarrow> time \<Rightarrow> job \<Rightarrow> exec_tracing \<Rightarrow> exec_security \<Rightarrow> time \<Rightarrow> ctx_manager \<Rightarrow> ctx_manager" where
  "cm_Create tracer clk j tracing security now0 m =
    (let now = (if now0 = 0 then clk else now0);
         tracing' = (if tc_TraceID tracing = [] then
                       (case tracer of None \<Rightarrow> tracing | Some (t, s) \<Rightarrow> tracing\<lparr>tc_TraceID := t, tc_SpanID := s\<rparr>)
                     else tracing)
     in AList.update (j_ID j)
          \<lparr>xe_JobID = j_ID j, xe_UserID = j_UserID j, xe_SessionID = j_SessionID j, xe_RoomID = j_RoomID j,
           xe_Language = j_Language j, xe_Tracing = tracing', xe_Security = security, xe_Resources = j_Resources j,
           xe_Deadline = now + j_Timeout j, xe_CreatedAt = now, xe_WorkerID = [], xe_SandboxID = [], xe_cancelled = False\<rparr> m)"

definition cm_Get :: "string \<Rightarrow> ctx_manager \<Rightarrow> exec_context option" where
  "cm_Get i m = map_of m i"

definition cm_Cancel :: "string \<Rightarrow> ctx_manager \<Rightarrow> ctx_manager \<times> bool" where
  "cm_Cancel i m =
    (case map_of m i of
       None \<Rightarrow> (m, False)
     | Some c \<Rightarrow> (AList.update i (c\<lparr>xe_cancelled := True\<rparr>) m, True))"

definition cm_Release :: "string \<Rightarrow> ctx_manager \<Rightarrow> ctx_manager" where
  "cm_Release i m = AList.delete i m"

definition cm_Assign :: "string \<Rightarrow> string \<Rightarrow> string \<Rightarrow> ctx_manager \<Rightarrow> ctx_manager" where
  "cm_Assign i worker sandbox m =
    (case map_of m i of
       None \<Rightarrow> m
     | Some c \<Rightarrow>
         let c' = (if worker \<noteq> [] then c\<lparr>xe_WorkerID := worker\<rparr> else c)
         in AList.update i (if sandbox \<noteq> [] then c'\<lparr>xe_SandboxID := sandbox\<rparr> else c') m)"

section \<open>Storage\<close>

type_synonym job_repo = "(string, job) gomap"
type_synonym job_archive = "(string, job \<times> time) gomap"

definition jr_Save :: "job \<Rightarrow> job_repo \<Rightarrow> job_repo" where
  "jr_Save j r = AList.update (j_ID j) j r"

definition jr_Load :: "string \<Rightarrow> job_repo \<Rightarrow> job_error + job" where
  "jr_Load i r = (case map_of r i of None \<Rightarrow> Inl ErrJobNotFound | Some j \<Rightarrow> Inr j)"

definition jr_Delete :: "string \<Rightarrow> job_repo \<Rightarrow> job_repo" where
  "jr_Delete i r = AList.delete i r"

definition ja_Archive :: "job \<Rightarrow> time \<Rightarrow> job_archive \<Rightarrow> job_archive" where
  "ja_Archive j at a = AList.update (j_ID j) (j, at) a"

definition ja_Get :: "string \<Rightarrow> job_archive \<Rightarrow> job_error + job" where
  "ja_Get i a = (case map_of a i of None \<Rightarrow> Inl ErrJobNotFound | Some (j, at) \<Rightarrow> Inr j)"

text \<open>\<open>sort.Slice\<close> does not fix the order of records archived at the same time; this is one choice.\<close>

definition ja_List :: "int \<Rightarrow> job_archive \<Rightarrow> job list" where
  "ja_List limit a =
    (let recs = sort_key (\<lambda>(j, at). - at) (map snd a)
     in map fst (if limit > 0 \<and> int (length recs) > limit then take (nat limit) recs else recs))"

section \<open>State and events\<close>

datatype exec_event_type =
    EvRequested | EvValidated | EvRejected | EvJobCreated | EvJobQueued | EvJobDispatched | EvJobStarted
  | EvJobCancelled | EvJobRetried | EvJobCompleted | EvJobFailed | EvJobTimedOut | EvArchived

record exec_event =
  ev_Type :: exec_event_type
  ev_JobID :: string
  ev_RequestID :: string
  ev_CorrelationID :: string
  ev_UserID :: string
  ev_SessionID :: string
  ev_RoomID :: string
  ev_Language :: string
  ev_State :: job_state
  ev_Reason :: string

record 'q orch_env =
  oe_cfg :: exec_config
  oe_langs :: lang_registry
  oe_validators :: "validator list"
  oe_sched :: "'q sched_ops"

record 'q orch =
  oc_reg :: exec_registry
  oc_ctx :: ctx_manager
  oc_sched :: 'q
  oc_store :: job_repo
  oc_archive :: job_archive
  oc_events :: "exec_event list"

definition oc_New :: "'q \<Rightarrow> 'q orch" where
  "oc_New q = \<lparr>oc_reg = er_New, oc_ctx = [], oc_sched = q, oc_store = [], oc_archive = [], oc_events = []\<rparr>"

definition oc_publish :: "exec_event \<Rightarrow> 'q orch \<Rightarrow> 'q orch" where
  "oc_publish e o' = o'\<lparr>oc_events := oc_events o' @ [e]\<rparr>"

definition request_event :: "exec_event_type \<Rightarrow> exec_request \<Rightarrow> string \<Rightarrow> exec_event" where
  "request_event t req reason =
    \<lparr>ev_Type = t, ev_JobID = [], ev_RequestID = rq_RequestID req, ev_CorrelationID = rq_CorrelationID req,
     ev_UserID = rq_UserID req, ev_SessionID = (if t = EvRequested then rq_SessionID req else []),
     ev_RoomID = rq_RoomID req, ev_Language = rq_Language req, ev_State = StatePending, ev_Reason = reason\<rparr>"

definition oc_publishJob :: "exec_event_type \<Rightarrow> job \<Rightarrow> string \<Rightarrow> 'q orch \<Rightarrow> 'q orch" where
  "oc_publishJob t j reason =
    oc_publish \<lparr>ev_Type = t, ev_JobID = j_ID j, ev_RequestID = j_RequestID j, ev_CorrelationID = j_CorrelationID j,
      ev_UserID = j_UserID j, ev_SessionID = j_SessionID j, ev_RoomID = j_RoomID j, ev_Language = j_Language j,
      ev_State = j_State j, ev_Reason = reason\<rparr>"

definition oc_persist :: "job \<Rightarrow> 'q orch \<Rightarrow> 'q orch" where
  "oc_persist j o' = o'\<lparr>oc_store := jr_Save j (oc_store o')\<rparr>"

text \<open>
  The snapshot \<open>snap, _ := o.reg.Get(id)\<close> after a transition: the job is there, and the zero job
  of the ignored \<open>false\<close> does not arise.
\<close>

definition oc_snap :: "string \<Rightarrow> 'q orch \<Rightarrow> job" where
  "oc_snap i o' = the (er_Get i (oc_reg o'))"

section \<open>Submission\<close>

text \<open>What a call reads from outside: clocks, generated ids, the trace ids, the context checks.\<close>

record exec_inputs =
  in_now :: time
  in_now2 :: time
  in_reqID :: string
  in_corrID :: string
  in_jobID :: string
  in_tracer :: "(string \<times> string) option"
  in_ctxDone :: "nat \<Rightarrow> bool"

definition oc_resolveDefaults :: "'q orch_env \<Rightarrow> exec_request \<Rightarrow> time \<Rightarrow> string \<Rightarrow> job_defaults" where
  "oc_resolveDefaults env req now jobID =
    (let (profile, timeout) =
           (case lr_Get (rq_Language req) (oe_langs env) of
              Inl e \<Rightarrow> (rp_zero, rq_Timeout req)
            | Inr lang \<Rightarrow>
                (la_Profile lang,
                 if rq_Timeout req \<le> 0 \<and> la_DefaultTimeout lang > 0 then la_DefaultTimeout lang else rq_Timeout req));
         timeout = (if timeout \<le> 0 then xc_DefaultTimeout (oe_cfg env) else timeout);
         timeout = (if timeout > xc_MaxTimeout (oe_cfg env) then xc_MaxTimeout (oe_cfg env) else timeout)
     in \<lparr>df_ID = jobID, df_RequestID = rq_RequestID req, df_CorrelationID = rq_CorrelationID req, df_Now = now,
         df_Timeout = timeout, df_MaxRetries = xc_MaxRetries (oe_cfg env), df_Resources = profile\<rparr>)"

definition oc_failScheduling :: "time \<Rightarrow> string \<Rightarrow> string \<Rightarrow> 'q orch \<Rightarrow> 'q orch" where
  "oc_failScheduling now i cause o' =
    (case er_Transition i StateFailed (\<lambda>j. j\<lparr>j_Outcome := OutcomeFailure, j_CompletedAt := now\<rparr>) (oc_reg o') of
       (reg, Inl e) \<Rightarrow> o'\<lparr>oc_reg := reg\<rparr>
     | (reg, Inr from) \<Rightarrow>
         let o' = o'\<lparr>oc_reg := reg\<rparr>;
             snap = oc_snap i o';
             o' = oc_publishJob EvJobFailed snap cause o';
             o' = o'\<lparr>oc_ctx := cm_Release i (oc_ctx o')\<rparr>
         in oc_persist snap o')"

definition oc_fillIDs :: "exec_inputs \<Rightarrow> exec_request \<Rightarrow> exec_request" where
  "oc_fillIDs inp req =
    (let req = (if rq_RequestID req = [] then req\<lparr>rq_RequestID := in_reqID inp\<rparr> else req)
     in if rq_CorrelationID req = [] then req\<lparr>rq_CorrelationID := in_corrID inp\<rparr> else req)"

definition oc_tracing :: "string \<Rightarrow> string \<Rightarrow> exec_tracing" where
  "oc_tracing rid cid = \<lparr>tc_RequestID = rid, tc_CorrelationID = cid, tc_TraceID = [], tc_SpanID = []\<rparr>"

text \<open>
  The hand-over to the scheduler, which \<open>SubmitExecution\<close> and \<open>Retry\<close> share: the job is queued,
  its snapshot offered to the scheduler's operation \<open>sched\<close>, and failed if that refuses it.
\<close>

definition oc_queue :: "(job \<Rightarrow> 'q \<Rightarrow> 'q \<times> job_error option) \<Rightarrow> exec_inputs \<Rightarrow> string \<Rightarrow> 'q orch \<Rightarrow> 'q orch \<times> (job_error + job)" where
  "oc_queue sched inp i o' =
    (case er_Transition i StateQueued (\<lambda>j. j\<lparr>j_ScheduledAt := in_now inp\<rparr>) (oc_reg o') of
       (reg, Inl e) \<Rightarrow> (o'\<lparr>oc_reg := reg\<rparr>, Inl e)
     | (reg, Inr from) \<Rightarrow>
         let o' = o'\<lparr>oc_reg := reg\<rparr>;
             snap = oc_snap i o'
         in case sched snap (oc_sched o') of
              (q, Some e) \<Rightarrow> (oc_failScheduling (in_now2 inp) i ''schedule error'' (o'\<lparr>oc_sched := q\<rparr>), Inl e)
            | (q, None) \<Rightarrow> (oc_persist snap (oc_publishJob EvJobQueued snap [] (o'\<lparr>oc_sched := q\<rparr>)), Inr snap))"

definition oc_create_ctx :: "exec_inputs \<Rightarrow> job \<Rightarrow> exec_security \<Rightarrow> string \<Rightarrow> string \<Rightarrow> 'q orch \<Rightarrow> 'q orch" where
  "oc_create_ctx inp j security rid cid o' =
    o'\<lparr>oc_ctx := cm_Create (in_tracer inp) (in_now inp) j (oc_tracing rid cid) security (in_now inp) (oc_ctx o')\<rparr>"

definition oc_SubmitExecution :: "'q orch_env \<Rightarrow> exec_inputs \<Rightarrow> exec_request \<Rightarrow> 'q orch \<Rightarrow> 'q orch \<times> (job_error + job)" where
  "oc_SubmitExecution env inp req0 o' =
    (let req = oc_fillIDs inp req0;
         o' = oc_publish (request_event EvRequested req []) o';
         res = pipeline_Validate True (in_ctxDone inp) (oe_validators env) (Some req)
     in if \<not> result_OK res
        then (oc_publish (request_event EvRejected req (fst (hd res))) o', Inl (the (result_Err res)))
        else
          let o' = oc_publish (request_event EvValidated req []) o';
              j = job_New req (oc_resolveDefaults env req (in_now inp) (in_jobID inp))
          in case er_Add j (oc_reg o') of
               (reg, Some e) \<Rightarrow> (o'\<lparr>oc_reg := reg\<rparr>, Inl e)
             | (reg, None) \<Rightarrow>
                 let o' = oc_publishJob EvJobCreated j [] (o'\<lparr>oc_reg := reg\<rparr>)
                 in case er_Transition (j_ID j) StateValidated id (oc_reg o') of
                      (reg, Inl e) \<Rightarrow> (o'\<lparr>oc_reg := reg\<rparr>, Inl e)
                    | (reg, Inr from) \<Rightarrow>
                        let security = \<lparr>sy_UserID = rq_UserID req, sy_Roles = rq_Roles req,
                                        sy_Authenticated = rq_Authenticated req, sy_Authorized = True,
                                        sy_NetworkAccess = eo_NetworkAccess (rq_ExecutionOptions req)\<rparr>
                        in oc_queue (so_Schedule (oe_sched env)) inp (j_ID j)
                             (oc_create_ctx inp j security (rq_RequestID req) (rq_CorrelationID req) (o'\<lparr>oc_reg := reg\<rparr>)))"

section \<open>Cancellation, retry and lifecycle marks\<close>

definition oc_Cancel :: "'q orch_env \<Rightarrow> time \<Rightarrow> string \<Rightarrow> 'q orch \<Rightarrow> 'q orch \<times> job_error option" where
  "oc_Cancel env now i o' =
    (case er_Transition i StateCancelled
            (\<lambda>j. j\<lparr>j_Outcome := OutcomeCancelled, j_CompletedAt := now, j_CancelRequested := True\<rparr>) (oc_reg o') of
       (reg, Inl e) \<Rightarrow> (o'\<lparr>oc_reg := reg\<rparr>, Some (if e = ErrIllegalTransition then ErrCancellationConflict else e))
     | (reg, Inr from) \<Rightarrow>
         let o' = o'\<lparr>oc_reg := reg, oc_ctx := fst (cm_Cancel i (oc_ctx o')),
                     oc_sched := fst (so_Cancel (oe_sched env) i (oc_sched o'))\<rparr>;
             snap = oc_snap i o';
             o' = oc_publishJob EvJobCancelled snap [] o';
             o' = o'\<lparr>oc_ctx := cm_Release i (oc_ctx o')\<rparr>
         in (oc_persist snap o', None))"

definition oc_Retry :: "'q orch_env \<Rightarrow> exec_inputs \<Rightarrow> string \<Rightarrow> 'q orch \<Rightarrow> 'q orch \<times> job_error option" where
  "oc_Retry env inp i o' =
    (case er_Get i (oc_reg o') of
       None \<Rightarrow> (o', Some ErrJobNotFound)
     | Some snap \<Rightarrow>
         if \<not> job_CanRetry (j_State snap) then (o', Some ErrRetryConflict)
         else if j_RetryCount snap \<ge> j_MaxRetries snap then (o', Some ErrRetriesExhausted)
         else case er_Transition i StateRetrying
                (\<lambda>j. j\<lparr>j_RetryCount := j_RetryCount j + 1, j_Outcome := OutcomeNone, j_StartedAt := 0, j_CompletedAt := 0\<rparr>)
                (oc_reg o') of
             (reg, Inl e) \<Rightarrow> (o'\<lparr>oc_reg := reg\<rparr>, Some (if e = ErrIllegalTransition then ErrRetryConflict else e))
           | (reg, Inr from) \<Rightarrow>
               let o' = o'\<lparr>oc_reg := reg\<rparr>;
                   retrying = oc_snap i o';
                   o' = oc_publishJob EvJobRetried retrying [] o';
                   security = \<lparr>sy_UserID = j_UserID retrying, sy_Roles = [], sy_Authenticated = True, sy_Authorized = True,
                               sy_NetworkAccess = eo_NetworkAccess (j_ExecutionOptions retrying)\<rparr>;
                   o' = oc_create_ctx inp retrying security (j_RequestID retrying) (j_CorrelationID retrying) o'
               in case oc_queue (so_Retry (oe_sched env)) inp i o' of
                    (o', Inl e) \<Rightarrow> (o', Some e)
                  | (o', Inr queued) \<Rightarrow> (o', None))"

definition oc_advance ::
  "string \<Rightarrow> job_state \<Rightarrow> exec_event_type option \<Rightarrow> string \<Rightarrow> (job \<Rightarrow> job) \<Rightarrow> 'q orch \<Rightarrow> 'q orch \<times> job_error option" where
  "oc_advance i to evt reason mutate o' =
    (case er_Transition i to mutate (oc_reg o') of
       (reg, Inl e) \<Rightarrow> (o'\<lparr>oc_reg := reg\<rparr>, Some e)
     | (reg, Inr from) \<Rightarrow>
         let o' = o'\<lparr>oc_reg := reg\<rparr>;
             snap = oc_snap i o';
             o' = (case evt of None \<Rightarrow> o' | Some t \<Rightarrow> oc_publishJob t snap reason o')
         in (oc_persist snap o', None))"

definition oc_MarkDispatched :: "string \<Rightarrow> string \<Rightarrow> 'q orch \<Rightarrow> 'q orch \<times> job_error option" where
  "oc_MarkDispatched i worker o' =
    oc_advance i StateDispatched (Some EvJobDispatched) [] (\<lambda>j. j\<lparr>j_WorkerID := worker\<rparr>)
      (o'\<lparr>oc_ctx := cm_Assign i worker [] (oc_ctx o')\<rparr>)"

definition oc_MarkStarted :: "time \<Rightarrow> string \<Rightarrow> 'q orch \<Rightarrow> 'q orch \<times> job_error option" where
  "oc_MarkStarted now i o' = oc_advance i StateRunning (Some EvJobStarted) [] (\<lambda>j. j\<lparr>j_StartedAt := now\<rparr>) o'"

definition oc_MarkStreaming :: "string \<Rightarrow> 'q orch \<Rightarrow> 'q orch \<times> job_error option" where
  "oc_MarkStreaming i o' = oc_advance i StateStreaming None [] id o'"

definition oc_MarkCompleted :: "time \<Rightarrow> string \<Rightarrow> 'q orch \<Rightarrow> 'q orch \<times> job_error option" where
  "oc_MarkCompleted now i o' =
    (case oc_advance i StateCompleted (Some EvJobCompleted) [] (\<lambda>j. j\<lparr>j_Outcome := OutcomeSuccess, j_CompletedAt := now\<rparr>) o' of
       (o', None) \<Rightarrow> (o'\<lparr>oc_ctx := cm_Release i (oc_ctx o')\<rparr>, None)
     | (o', Some e) \<Rightarrow> (o', Some e))"

definition oc_MarkFailed :: "time \<Rightarrow> string \<Rightarrow> string \<Rightarrow> 'q orch \<Rightarrow> 'q orch \<times> job_error option" where
  "oc_MarkFailed now i reason o' =
    oc_advance i StateFailed (Some EvJobFailed) reason (\<lambda>j. j\<lparr>j_Outcome := OutcomeFailure, j_CompletedAt := now\<rparr>) o'"

definition oc_MarkTimedOut :: "time \<Rightarrow> string \<Rightarrow> 'q orch \<Rightarrow> 'q orch \<times> job_error option" where
  "oc_MarkTimedOut now i o' =
    (case oc_advance i StateTimedOut (Some EvJobTimedOut) [] (\<lambda>j. j\<lparr>j_Outcome := OutcomeTimeout, j_CompletedAt := now\<rparr>) o' of
       (o', None) \<Rightarrow> (o'\<lparr>oc_ctx := fst (cm_Cancel i (oc_ctx o'))\<rparr>, None)
     | (o', Some e) \<Rightarrow> (o', Some e))"

section \<open>Queries and archival\<close>

definition oc_Status :: "string \<Rightarrow> 'q orch \<Rightarrow> job_error + job" where
  "oc_Status i o' = (case er_Get i (oc_reg o') of None \<Rightarrow> Inl ErrJobNotFound | Some j \<Rightarrow> Inr j)"

definition oc_Statistics :: "string \<Rightarrow> 'q orch \<Rightarrow> job_error + job_statistics" where
  "oc_Statistics i o' = (case er_Get i (oc_reg o') of None \<Rightarrow> Inl ErrJobNotFound | Some j \<Rightarrow> Inr (job_Statistics j))"

definition oc_Archive :: "time \<Rightarrow> string \<Rightarrow> 'q orch \<Rightarrow> 'q orch \<times> (job_error + job)" where
  "oc_Archive now i o' =
    (case er_Transition i StateArchived id (oc_reg o') of
       (reg, Inl e) \<Rightarrow> (o'\<lparr>oc_reg := reg\<rparr>, Inl e)
     | (reg, Inr from) \<Rightarrow>
         (case er_Remove i reg of
            (reg, snap) \<Rightarrow>
              let j = the snap;
                  o' = o'\<lparr>oc_reg := reg, oc_ctx := cm_Release i (oc_ctx o'), oc_archive := ja_Archive j now (oc_archive o'),
                          oc_store := jr_Delete i (oc_store o')\<rparr>
              in (oc_publishJob EvArchived j [] o', Inr j)))"

fun oc_archive_loop :: "time \<Rightarrow> job list \<Rightarrow> nat \<Rightarrow> 'q orch \<Rightarrow> 'q orch \<times> nat" where
  "oc_archive_loop now [] n o' = (o', n)"
| "oc_archive_loop now (j # js) n o' =
    (case oc_Archive now (j_ID j) o' of
       (o', Inl e) \<Rightarrow> oc_archive_loop now js n o'
     | (o', Inr _) \<Rightarrow> oc_archive_loop now js (Suc n) o')"

text \<open>\<^const>\<open>None\<close> is the nil dereference of \<open>FinishedBefore\<close>.\<close>

definition oc_ArchiveFinished :: "'q orch_env \<Rightarrow> time \<Rightarrow> 'q orch \<Rightarrow> ('q orch \<times> nat) option" where
  "oc_ArchiveFinished env now o' =
    map_option (\<lambda>js. oc_archive_loop now js 0 o') (er_FinishedBefore (now - xc_ArchiveRetention (oe_cfg env)) (oc_reg o'))"

section \<open>The invariant\<close>

text \<open>
  What a job looks like between operations: its outcome is that of its state, its retries are
  within its allowance, and its number of transitions is bounded by its retries and its progress.
\<close>

definition job_ok :: "job \<Rightarrow> bool" where
  "job_ok j \<longleftrightarrow> j_Outcome j = job_OutcomeFor (j_State j) \<and> 0 \<le> j_RetryCount j \<and> j_RetryCount j \<le> max 0 (j_MaxRetries j)
     \<and> j_Transitions j \<le> 6 * j_RetryCount j + job_rank (j_State j)
     \<and> j_State j \<in> {StateQueued, StateDispatched, StateRunning, StateStreaming, StateCompleted, StateFailed, StateTimedOut, StateCancelled}"

abbreviation oc_G :: "'q orch \<Rightarrow> string \<Rightarrow> job option" where
  "oc_G o' \<equiv> map_of (er_byID (oc_reg o'))"

definition oc_maps :: "(string \<Rightarrow> job option) \<Rightarrow> (string \<Rightarrow> job option) \<Rightarrow> (string \<Rightarrow> exec_context option) \<Rightarrow> bool" where
  "oc_maps G S C \<longleftrightarrow> S = G \<and> (\<forall>i j. G i = Some j \<longrightarrow> j_ID j = i \<and> job_ok j)
     \<and> (\<forall>i c. C i = Some c \<longrightarrow> xe_JobID c = i \<and> (\<exists>j. G i = Some j \<and> j_State j \<notin> {StateCompleted, StateCancelled}))
     \<and> (\<forall>i j. G i = Some j \<and> job_IsActive (j_State j) \<longrightarrow> (\<exists>c. C i = Some c \<and> \<not> xe_cancelled c))"

definition oc_inv :: "'q orch \<Rightarrow> bool" where
  "oc_inv o' \<longleftrightarrow> er_ok (oc_reg o') \<and> oc_maps (oc_G o') (map_of (oc_store o')) (map_of (oc_ctx o'))"

lemma oc_maps_upd:
  assumes "oc_maps G S C" "j_ID j = i" "job_ok j"
    and "\<And>c'. c = Some c' \<Longrightarrow> xe_JobID c' = i \<and> j_State j \<notin> {StateCompleted, StateCancelled}"
    and "job_IsActive (j_State j) \<Longrightarrow> \<exists>c'. c = Some c' \<and> \<not> xe_cancelled c'"
  shows "oc_maps (G(i \<mapsto> j)) (S(i \<mapsto> j)) (C(i := c))"
  using assms unfolding oc_maps_def by auto

lemma oc_maps_del: "oc_maps G S C \<Longrightarrow> oc_maps (G(i := None)) (S(i := None)) (C(i := None))"
  unfolding oc_maps_def by auto

text \<open>The effect of an operation that replaces one job and its context.\<close>

definition oc_sets :: "string \<Rightarrow> job \<Rightarrow> exec_context option \<Rightarrow> 'q orch \<Rightarrow> 'q orch \<Rightarrow> bool" where
  "oc_sets i j c o1 o2 \<longleftrightarrow> er_ok (oc_reg o2) \<and> oc_G o2 = (oc_G o1)(i \<mapsto> j)
     \<and> map_of (oc_store o2) = (map_of (oc_store o1))(i \<mapsto> j) \<and> map_of (oc_ctx o2) = (map_of (oc_ctx o1))(i := c)"

lemma oc_inv_sets:
  assumes "oc_inv o1" "oc_sets i j c o1 o2" "j_ID j = i" "job_ok j"
    and "\<And>c'. c = Some c' \<Longrightarrow> xe_JobID c' = i \<and> j_State j \<notin> {StateCompleted, StateCancelled}"
    and "job_IsActive (j_State j) \<Longrightarrow> \<exists>c'. c = Some c' \<and> \<not> xe_cancelled c'"
  shows "oc_inv o2"
  using assms oc_maps_upd [of "oc_G o1" "map_of (oc_store o1)" "map_of (oc_ctx o1)" j i c]
  by (simp add: oc_inv_def oc_sets_def)

abbreviation stepped :: "job_state \<Rightarrow> job \<Rightarrow> job" where
  "stepped to j \<equiv> j\<lparr>j_State := to, j_Transitions := j_Transitions j + 1\<rparr>"

lemma er_Transition_Inl:
  "er_Transition i to m r = (r', Inl e) \<Longrightarrow> r' = r \<and>
     (map_of (er_byID r) i = None \<and> e = ErrJobNotFound
      \<or> (\<exists>j. map_of (er_byID r) i = Some j \<and> \<not> job_CanTransition (j_State j) to \<and> e = ErrIllegalTransition))"
  by (auto simp: er_Transition_def split: option.splits if_splits)

lemma er_Transition_Inr:
  assumes "er_Transition i to m r = (r', Inr from)"
  obtains j where "map_of (er_byID r) i = Some j" "from = j_State j" "job_CanTransition (j_State j) to"
    "map_of (er_byID r') = (map_of (er_byID r))(i \<mapsto> m (stepped to j))"
    "er_ok r \<Longrightarrow> keeps_identity m \<Longrightarrow> er_ok r'"
  using assms er_ok_Transition [of r m i to]
  by (auto simp: er_Transition_def fun_eq_iff split: option.splits if_splits)

lemma oc_simps [simp]:
  "oc_reg (oc_publishJob t j s o') = oc_reg o'" "oc_ctx (oc_publishJob t j s o') = oc_ctx o'"
  "oc_store (oc_publishJob t j s o') = oc_store o'" "oc_sched (oc_publishJob t j s o') = oc_sched o'"
  "oc_archive (oc_publishJob t j s o') = oc_archive o'"
  "oc_reg (oc_publish e o') = oc_reg o'" "oc_ctx (oc_publish e o') = oc_ctx o'"
  "oc_store (oc_publish e o') = oc_store o'" "oc_sched (oc_publish e o') = oc_sched o'"
  "oc_archive (oc_publish e o') = oc_archive o'"
  "oc_reg (oc_persist j o') = oc_reg o'" "oc_ctx (oc_persist j o') = oc_ctx o'"
  "oc_store (oc_persist j o') = AList.update (j_ID j) j (oc_store o')" "oc_sched (oc_persist j o') = oc_sched o'"
  "oc_archive (oc_persist j o') = oc_archive o'"
  by (simp_all add: oc_publishJob_def oc_publish_def oc_persist_def jr_Save_def)

lemma keeps_identity_intros [simp, intro]:
  "keeps_identity id" "keeps_identity (\<lambda>j. j\<lparr>j_ScheduledAt := t\<rparr>)" "keeps_identity (\<lambda>j. j\<lparr>j_WorkerID := w\<rparr>)"
  "keeps_identity (\<lambda>j. j\<lparr>j_StartedAt := t\<rparr>)" "keeps_identity (\<lambda>j. j\<lparr>j_Outcome := oc, j_CompletedAt := t\<rparr>)"
  "keeps_identity (\<lambda>j. j\<lparr>j_Outcome := oc, j_CompletedAt := t, j_CancelRequested := True\<rparr>)"
  "keeps_identity (\<lambda>j. j\<lparr>j_RetryCount := j_RetryCount j + 1, j_Outcome := oc, j_StartedAt := t, j_CompletedAt := t'\<rparr>)"
  by (simp_all add: keeps_identity_def)

lemma oc_advance_fails: "oc_advance i to evt s m o1 = (o2, Some e) \<Longrightarrow> o2 = o1"
  by (auto simp: oc_advance_def Let_def split: prod.splits sum.splits dest: er_Transition_Inl)

lemma oc_advance_fails': "snd (oc_advance i to evt s m o1) = Some e \<Longrightarrow> fst (oc_advance i to evt s m o1) = o1"
  by (rule oc_advance_fails [of i to evt s m o1 _ e]) (simp add: prod_eq_iff)

lemma oc_advance_sets:
  assumes "oc_advance i to evt s m o1 = (o2, None)" "oc_inv o1" "keeps_identity m"
  obtains j where "oc_G o1 i = Some j" "job_CanTransition (j_State j) to" "oc_sets i (m (stepped to j)) (map_of (oc_ctx o1) i) o1 o2"
proof -
  obtain reg from' where t: "er_Transition i to m (oc_reg o1) = (reg, Inr from')"
    using assms(1) by (auto simp: oc_advance_def split: prod.splits sum.splits)
  from t obtain j where j: "oc_G o1 i = Some j" "job_CanTransition (j_State j) to"
    "map_of (er_byID reg) = (oc_G o1)(i \<mapsto> m (stepped to j))" "er_ok reg"
    using assms(2,3) by (elim er_Transition_Inr) (auto simp: oc_inv_def)
  have "j_ID (m (stepped to j)) = i" using assms(2,3) j(1) by (auto simp: oc_inv_def oc_maps_def keeps_identity_def)
  then have "oc_sets i (m (stepped to j)) (map_of (oc_ctx o1) i) o1 o2"
    using assms(1) j(3,4)
    by (cases evt) (auto simp: oc_advance_def t oc_sets_def Let_def oc_snap_def er_Get_def fun_eq_iff)
  then show ?thesis using that j by blast
qed

lemma job_ok_step:
  assumes "job_ok j" "job_CanTransition (j_State j) to" "to \<in> {StateDispatched, StateRunning, StateStreaming}"
  shows "job_ok (stepped to j)"
  using assms by (cases "j_State j") (auto simp: job_ok_def)

lemma job_ok_finish:
  assumes "job_ok j" "job_CanTransition (j_State j) to" "to \<in> {StateCompleted, StateFailed, StateTimedOut, StateCancelled}"
  shows "job_ok (stepped to j\<lparr>j_Outcome := job_OutcomeFor to, j_CompletedAt := t\<rparr>)"
  using assms by (cases "j_State j") (auto simp: job_ok_def)

lemma oc_inv_ctx:
  assumes "oc_inv o'" "oc_G o' i = Some j"
  shows "j_ID j = i" "job_ok j" "job_IsActive (j_State j) \<Longrightarrow> \<exists>c. map_of (oc_ctx o') i = Some c \<and> \<not> xe_cancelled c"
    "map_of (oc_ctx o') i = Some c \<Longrightarrow> xe_JobID c = i"
  using assms by (auto simp: oc_inv_def oc_maps_def)

lemma job_active_source: "job_CanTransition s to \<Longrightarrow> to \<in> {StateDispatched, StateRunning, StateStreaming} \<Longrightarrow> job_IsActive s"
  by (cases s) (auto simp: job_IsActive_def)

lemma oc_inv_advance_active:
  assumes "oc_inv o1" "to \<in> {StateDispatched, StateRunning, StateStreaming}"
    and "keeps_identity m" "\<And>j. job_ok (m j) = job_ok j"
  shows "oc_inv (fst (oc_advance i to evt s m o1))"
proof (cases "snd (oc_advance i to evt s m o1)")
  case None
  let ?o2 = "fst (oc_advance i to evt s m o1)"
  have "oc_advance i to evt s m o1 = (?o2, None)" using None by (simp add: prod_eq_iff)
  from oc_advance_sets [OF this assms(1,3)]
  obtain j where j: "oc_G o1 i = Some j" "job_CanTransition (j_State j) to" "oc_sets i (m (stepped to j)) (map_of (oc_ctx o1) i) o1 ?o2"
    by blast
  have st: "j_State (m (stepped to j)) = to" "j_ID (m (stepped to j)) = i"
    using assms(3) oc_inv_ctx(1) [OF assms(1) j(1)] by (simp_all add: keeps_identity_def)
  have ok: "job_ok (m (stepped to j))" using job_ok_step [OF oc_inv_ctx(2) [OF assms(1) j(1)] j(2) assms(2)] assms(4) by simp
  have live: "\<exists>c. map_of (oc_ctx o1) i = Some c \<and> \<not> xe_cancelled c"
    using oc_inv_ctx(3) [OF assms(1) j(1)] job_active_source [OF j(2) assms(2)] by blast
  show ?thesis
  proof (rule oc_inv_sets [OF assms(1) j(3) st(2) ok])
    show "xe_JobID c' = i \<and> j_State (m (stepped to j)) \<notin> {StateCompleted, StateCancelled}" if "map_of (oc_ctx o1) i = Some c'" for c'
      using oc_inv_ctx(4) [OF assms(1) j(1) that] st(1) assms(2) by auto
  qed (use live in blast)
next
  case (Some e)
  then show ?thesis using assms(1) by (simp add: oc_advance_fails')
qed

lemma job_ok_cong: "job_ok (j\<lparr>j_WorkerID := w\<rparr>) = job_ok j" "job_ok (j\<lparr>j_StartedAt := t\<rparr>) = job_ok j"
  "job_ok (j\<lparr>j_ScheduledAt := t\<rparr>) = job_ok j" "job_ok (j\<lparr>j_CancelRequested := b\<rparr>) = job_ok j"
  by (simp_all add: job_ok_def)

lemma oc_maps_ctx:
  assumes "oc_maps G S C" "C i = Some c" "xe_JobID c' = xe_JobID c"
    and "xe_cancelled c' \<longrightarrow> xe_cancelled c \<or> (\<forall>j. G i = Some j \<longrightarrow> \<not> job_IsActive (j_State j))"
  shows "oc_maps G S (C(i \<mapsto> c'))"
  using assms unfolding oc_maps_def by (simp split: if_splits) (metis option.inject)

lemma oc_inv_ctx_upd:
  assumes "oc_inv o'" "map_of (oc_ctx o') i = Some c" "xe_JobID c' = xe_JobID c"
    and "xe_cancelled c' \<longrightarrow> xe_cancelled c \<or> (\<forall>j. oc_G o' i = Some j \<longrightarrow> \<not> job_IsActive (j_State j))"
  shows "oc_inv (o'\<lparr>oc_ctx := AList.update i c' (oc_ctx o')\<rparr>)"
  using oc_maps_ctx [of "oc_G o'" "map_of (oc_store o')" "map_of (oc_ctx o')" i c c'] assms
  by (simp add: oc_inv_def update_conv)

lemma oc_inv_Assign: "oc_inv o' \<Longrightarrow> oc_inv (o'\<lparr>oc_ctx := cm_Assign i w s (oc_ctx o')\<rparr>)"
proof (cases "map_of (oc_ctx o') i")
  case (Some c)
  assume inv: "oc_inv o'"
  define c1 where "c1 = (if w \<noteq> [] then c\<lparr>xe_WorkerID := w\<rparr> else c)"
  define c2 where "c2 = (if s \<noteq> [] then c1\<lparr>xe_SandboxID := s\<rparr> else c1)"
  have "xe_JobID c2 = xe_JobID c" "xe_cancelled c2 = xe_cancelled c" by (simp_all add: c1_def c2_def)
  moreover have "cm_Assign i w s (oc_ctx o') = AList.update i c2 (oc_ctx o')"
    by (simp add: cm_Assign_def Some c1_def c2_def)
  ultimately show ?thesis using oc_inv_ctx_upd [OF inv Some] by simp
qed (simp add: cm_Assign_def)

lemma oc_inv_MarkDispatched: "oc_inv o1 \<Longrightarrow> oc_inv (fst (oc_MarkDispatched i w o1))"
  unfolding oc_MarkDispatched_def by (rule oc_inv_advance_active) (auto simp: job_ok_cong intro: oc_inv_Assign)

lemma oc_inv_MarkStarted: "oc_inv o1 \<Longrightarrow> oc_inv (fst (oc_MarkStarted now i o1))"
  unfolding oc_MarkStarted_def by (rule oc_inv_advance_active) (auto simp: job_ok_cong)

lemma oc_inv_MarkStreaming: "oc_inv o1 \<Longrightarrow> oc_inv (fst (oc_MarkStreaming i o1))"
  unfolding oc_MarkStreaming_def by (rule oc_inv_advance_active) auto

text \<open>A finishing advance: the job is replaced, the context is as before.\<close>

lemma oc_advance_finish:
  assumes "oc_inv o1" "oc_advance i to evt s (\<lambda>j. j\<lparr>j_Outcome := job_OutcomeFor to, j_CompletedAt := t\<rparr>) o1 = (o2, None)"
    "to \<in> {StateCompleted, StateFailed, StateTimedOut, StateCancelled}"
  shows "\<exists>j. oc_sets i j (map_of (oc_ctx o1) i) o1 o2 \<and> j_ID j = i \<and> job_ok j \<and> j_State j = to
    \<and> (\<forall>c. map_of (oc_ctx o1) i = Some c \<longrightarrow> xe_JobID c = i)"
proof -
  have k: "keeps_identity (\<lambda>j. j\<lparr>j_Outcome := job_OutcomeFor to, j_CompletedAt := t\<rparr>)" by simp
  obtain j where j: "oc_G o1 i = Some j" "job_CanTransition (j_State j) to"
    "oc_sets i (stepped to j\<lparr>j_Outcome := job_OutcomeFor to, j_CompletedAt := t\<rparr>) (map_of (oc_ctx o1) i) o1 o2"
    by (rule oc_advance_sets [OF assms(2,1) k])
  have "job_ok (stepped to j\<lparr>j_Outcome := job_OutcomeFor to, j_CompletedAt := t\<rparr>)"
    by (rule job_ok_finish [OF oc_inv_ctx(2) [OF assms(1) j(1)] j(2) assms(3)])
  moreover have "\<forall>c. map_of (oc_ctx o1) i = Some c \<longrightarrow> xe_JobID c = i" using oc_inv_ctx(4) [OF assms(1) j(1)] by blast
  moreover have "j_ID (stepped to j\<lparr>j_Outcome := job_OutcomeFor to, j_CompletedAt := t\<rparr>) = i"
    using oc_inv_ctx(1) [OF assms(1) j(1)] by simp
  moreover have "j_State (stepped to j\<lparr>j_Outcome := job_OutcomeFor to, j_CompletedAt := t\<rparr>) = to" by simp
  ultimately show ?thesis using j(3) by blast
qed

lemma oc_inv_MarkFailed:
  assumes "oc_inv o1"
  shows "oc_inv (fst (oc_MarkFailed now i reason o1))"
proof (cases "snd (oc_MarkFailed now i reason o1)")
  case None
  let ?o2 = "fst (oc_MarkFailed now i reason o1)"
  have "oc_advance i StateFailed (Some EvJobFailed) reason (\<lambda>j. j\<lparr>j_Outcome := job_OutcomeFor StateFailed, j_CompletedAt := now\<rparr>) o1 = (?o2, None)"
    using None by (simp add: oc_MarkFailed_def prod_eq_iff)
  then obtain j where j: "oc_sets i j (map_of (oc_ctx o1) i) o1 ?o2" "j_ID j = i" "job_ok j" "j_State j = StateFailed"
    "\<forall>c. map_of (oc_ctx o1) i = Some c \<longrightarrow> xe_JobID c = i"
    using oc_advance_finish [OF assms] by blast
  show ?thesis using j(4,5) by (intro oc_inv_sets [OF assms j(1-3)]) (auto simp: job_IsActive_def)
next
  case (Some e)
  then show ?thesis using assms by (simp add: oc_MarkFailed_def oc_advance_fails')
qed

lemma oc_sets_release: "oc_sets i j c o1 o2 \<Longrightarrow> oc_sets i j None o1 (o2\<lparr>oc_ctx := cm_Release i (oc_ctx o2)\<rparr>)"
  by (auto simp: oc_sets_def cm_Release_def fun_eq_iff)

lemma oc_inv_MarkCompleted:
  assumes "oc_inv o1"
  shows "oc_inv (fst (oc_MarkCompleted now i o1))"
proof -
  let ?m = "\<lambda>j. j\<lparr>j_Outcome := job_OutcomeFor StateCompleted, j_CompletedAt := now\<rparr>"
  obtain o2 err where a: "oc_advance i StateCompleted (Some EvJobCompleted) [] ?m o1 = (o2, err)" by (metis surj_pair)
  show ?thesis
  proof (cases err)
    case None
    obtain j where j: "oc_sets i j (map_of (oc_ctx o1) i) o1 o2" "j_ID j = i" "job_ok j" "j_State j = StateCompleted"
      using oc_advance_finish [OF assms a [unfolded None]] by blast
    have "oc_inv (o2\<lparr>oc_ctx := cm_Release i (oc_ctx o2)\<rparr>)"
      using j(4) by (intro oc_inv_sets [OF assms oc_sets_release [OF j(1)] j(2,3)]) (simp_all add: job_IsActive_def)
    then show ?thesis using a None by (simp add: oc_MarkCompleted_def)
  next
    case (Some e)
    show ?thesis using a [unfolded Some] oc_advance_fails [OF a [unfolded Some]] assms by (simp add: oc_MarkCompleted_def)
  qed
qed

lemma oc_inv_MarkTimedOut:
  assumes "oc_inv o1"
  shows "oc_inv (fst (oc_MarkTimedOut now i o1))"
proof -
  let ?m = "\<lambda>j. j\<lparr>j_Outcome := job_OutcomeFor StateTimedOut, j_CompletedAt := now\<rparr>"
  obtain o2 err where a: "oc_advance i StateTimedOut (Some EvJobTimedOut) [] ?m o1 = (o2, err)" by (metis surj_pair)
  show ?thesis
  proof (cases err)
    case None
    obtain j where j: "oc_sets i j (map_of (oc_ctx o1) i) o1 o2" "j_ID j = i" "job_ok j" "j_State j = StateTimedOut"
      "\<forall>c. map_of (oc_ctx o1) i = Some c \<longrightarrow> xe_JobID c = i"
      using oc_advance_finish [OF assms a [unfolded None]] by blast
    have inv: "oc_inv o2" using j(4,5) by (intro oc_inv_sets [OF assms j(1-3)]) (simp_all add: job_IsActive_def)
    have "oc_G o2 i = Some j" using j(1) by (simp add: oc_sets_def)
    then have "oc_inv (o2\<lparr>oc_ctx := fst (cm_Cancel i (oc_ctx o2))\<rparr>)"
      using inv j(4) by (cases "map_of (oc_ctx o2) i")
        (auto simp: cm_Cancel_def job_IsActive_def intro: oc_inv_ctx_upd)
    then show ?thesis using a None by (simp add: oc_MarkTimedOut_def)
  next
    case (Some e)
    show ?thesis using a [unfolded Some] oc_advance_fails [OF a [unfolded Some]] assms by (simp add: oc_MarkTimedOut_def)
  qed
qed

lemma cm_Cancel_other [simp]: "x \<noteq> i \<Longrightarrow> map_of (fst (cm_Cancel i m)) x = map_of m x"
  by (simp add: cm_Cancel_def split: option.split)

lemma oc_Cancel_sets:
  assumes "oc_inv o1" "oc_Cancel env now i o1 = (o2, None)"
  shows "\<exists>j. oc_G o1 i = Some j \<and> job_CanTransition (j_State j) StateCancelled
    \<and> oc_sets i (stepped StateCancelled j\<lparr>j_Outcome := OutcomeCancelled, j_CompletedAt := now, j_CancelRequested := True\<rparr>) None o1 o2"
proof -
  let ?m = "\<lambda>j. j\<lparr>j_Outcome := OutcomeCancelled, j_CompletedAt := now, j_CancelRequested := True\<rparr>"
  obtain reg from' where t: "er_Transition i StateCancelled ?m (oc_reg o1) = (reg, Inr from')"
    using assms(2) by (auto simp: oc_Cancel_def split: prod.splits sum.splits)
  from t obtain j where j: "oc_G o1 i = Some j" "job_CanTransition (j_State j) StateCancelled"
    "map_of (er_byID reg) = (oc_G o1)(i \<mapsto> ?m (stepped StateCancelled j))" "er_ok reg"
    using assms(1) by (elim er_Transition_Inr) (auto simp: oc_inv_def)
  have "j_ID j = i" using oc_inv_ctx(1) [OF assms(1) j(1)] .
  then have "oc_sets i (?m (stepped StateCancelled j)) None o1 o2"
    using assms(2) j(3,4) t
    by (simp add: oc_Cancel_def oc_sets_def Let_def oc_snap_def er_Get_def cm_Release_def) (auto simp: fun_eq_iff)
  then show ?thesis using j by blast
qed

lemma oc_Cancel_fails: "oc_Cancel env now i o1 = (o2, Some e) \<Longrightarrow> o2 = o1"
  by (auto simp: oc_Cancel_def Let_def split: prod.splits sum.splits dest: er_Transition_Inl)

lemma oc_inv_Cancel: "oc_inv o1 \<Longrightarrow> oc_inv (fst (oc_Cancel env now i o1))"
proof -
  assume inv: "oc_inv o1"
  obtain o2 err where c: "oc_Cancel env now i o1 = (o2, err)" by (metis surj_pair)
  show ?thesis
  proof (cases err)
    case None
    then obtain j where j: "oc_G o1 i = Some j" "job_CanTransition (j_State j) StateCancelled"
      "oc_sets i (stepped StateCancelled j\<lparr>j_Outcome := OutcomeCancelled, j_CompletedAt := now, j_CancelRequested := True\<rparr>) None o1 o2"
      using oc_Cancel_sets [OF inv] c by metis
    have "job_ok (stepped StateCancelled j\<lparr>j_Outcome := OutcomeCancelled, j_CompletedAt := now\<rparr>)"
      using job_ok_finish [OF oc_inv_ctx(2) [OF inv j(1)] j(2), of now] by simp
    then have "job_ok (stepped StateCancelled j\<lparr>j_Outcome := OutcomeCancelled, j_CompletedAt := now, j_CancelRequested := True\<rparr>)"
      by (simp add: job_ok_def)
    then have "oc_inv o2" using oc_inv_ctx(1) [OF inv j(1)]
      by (intro oc_inv_sets [OF inv j(3)]) (simp_all add: job_IsActive_def)
    then show ?thesis using c by simp
  next
    case (Some e)
    then show ?thesis using oc_Cancel_fails c inv by (metis fst_conv)
  qed
qed

lemma oc_failScheduling_sets:
  assumes "er_ok (oc_reg o1)" "oc_G o1 i = Some j" "j_State j = StateQueued" "j_ID j = i"
  shows "oc_sets i (stepped StateFailed j\<lparr>j_Outcome := OutcomeFailure, j_CompletedAt := now\<rparr>) None o1 (oc_failScheduling now i cause o1)"
proof -
  let ?m = "\<lambda>j. j\<lparr>j_Outcome := OutcomeFailure, j_CompletedAt := now\<rparr>"
  obtain reg from' where t: "er_Transition i StateFailed ?m (oc_reg o1) = (reg, Inr from')"
    using assms(2,3) by (simp add: er_Transition_def)
  then have "map_of (er_byID reg) = (oc_G o1)(i \<mapsto> ?m (stepped StateFailed j))" "er_ok reg"
    using assms(1,2) by (auto elim!: er_Transition_Inr)
  then show ?thesis
    using t assms(4) by (auto simp: oc_failScheduling_def oc_sets_def Let_def oc_snap_def er_Get_def cm_Release_def fun_eq_iff)
qed

lemma cm_Create_get:
  "\<exists>c. map_of (cm_Create tr clk j tc sy now m) = (map_of m)(j_ID j \<mapsto> c) \<and> xe_JobID c = j_ID j \<and> \<not> xe_cancelled c
     \<and> xe_Deadline c = (if now = 0 then clk else now) + j_Timeout j"
  unfolding cm_Create_def Let_def by (rule exI, rule conjI, rule update_conv') simp

lemma oc_sets_trans: "oc_sets i j c o1 o2 \<Longrightarrow> oc_sets i j' c' o2 o3 \<Longrightarrow> oc_sets i j' c' o1 o3"
  by (auto simp: oc_sets_def)

text \<open>Entering the queue: from a job in a state that may be queued, to a scheduled or a failed one.\<close>

definition queued_job :: "time \<Rightarrow> job \<Rightarrow> job" where
  "queued_job now j = stepped StateQueued j\<lparr>j_ScheduledAt := now\<rparr>"

lemma queued_job_simps [simp]:
  "j_ID (queued_job now j) = j_ID j" "j_State (queued_job now j) = StateQueued"
  "j_Transitions (queued_job now j) = j_Transitions j + 1" "j_Outcome (queued_job now j) = j_Outcome j"
  "j_RetryCount (queued_job now j) = j_RetryCount j" "j_MaxRetries (queued_job now j) = j_MaxRetries j"
  by (simp_all add: queued_job_def)

lemma job_ok_queued:
  assumes "j_Outcome j = OutcomeNone" "0 \<le> j_RetryCount j" "j_RetryCount j \<le> max 0 (j_MaxRetries j)"
    "j_Transitions j \<le> 6 * j_RetryCount j + 1"
  shows "job_ok (queued_job now j)" "job_ok (stepped StateFailed (queued_job now j)\<lparr>j_Outcome := OutcomeFailure, j_CompletedAt := now'\<rparr>)"
  using assms by (simp_all add: job_ok_def)

lemma er_Transition_queue:
  assumes "er_ok r" "map_of (er_byID r) i = Some j" "job_CanTransition (j_State j) StateQueued"
  shows "\<exists>reg. er_Transition i StateQueued (\<lambda>j. j\<lparr>j_ScheduledAt := now\<rparr>) r = (reg, Inr (j_State j))
    \<and> map_of (er_byID reg) = (map_of (er_byID r))(i \<mapsto> queued_job now j) \<and> er_ok reg"
proof -
  obtain reg where t: "er_Transition i StateQueued (\<lambda>j. j\<lparr>j_ScheduledAt := now\<rparr>) r = (reg, Inr (j_State j))"
    using assms(2,3) by (simp add: er_Transition_def)
  then show ?thesis using assms(1,2) by (auto simp: queued_job_def elim!: er_Transition_Inr)
qed

lemma oc_queue_sets:
  assumes ok: "er_ok (oc_reg o1)" and j: "oc_G o1 i = Some j" "job_CanTransition (j_State j) StateQueued" "j_ID j = i"
  shows "oc_queue sched inp i o1 = (o2, res) \<Longrightarrow>
    res = Inr (queued_job (in_now inp) j) \<and> oc_sets i (queued_job (in_now inp) j) (map_of (oc_ctx o1) i) o1 o2
    \<or> (\<exists>e. res = Inl e) \<and> oc_sets i
        (stepped StateFailed (queued_job (in_now inp) j)\<lparr>j_Outcome := OutcomeFailure, j_CompletedAt := in_now2 inp\<rparr>) None o1 o2"
proof -
  assume r: "oc_queue sched inp i o1 = (o2, res)"
  let ?j = "queued_job (in_now inp) j"
  obtain reg where t: "er_Transition i StateQueued (\<lambda>j. j\<lparr>j_ScheduledAt := in_now inp\<rparr>) (oc_reg o1) = (reg, Inr (j_State j))"
    "map_of (er_byID reg) = (oc_G o1)(i \<mapsto> ?j)" "er_ok reg"
    using er_Transition_queue [OF ok j(1,2)] by blast
  define o4 where "o4 = o1\<lparr>oc_reg := reg\<rparr>"
  have snap: "oc_snap i o4 = ?j" using t(2) by (simp add: oc_snap_def er_Get_def o4_def)
  obtain q err where q: "sched ?j (oc_sched o1) = (q, err)" by (metis surj_pair)
  have o2: "(o2, res) = (case err of
      Some e \<Rightarrow> (oc_failScheduling (in_now2 inp) i ''schedule error'' (o4\<lparr>oc_sched := q\<rparr>), Inl e)
    | None \<Rightarrow> (oc_persist ?j (oc_publishJob EvJobQueued ?j [] (o4\<lparr>oc_sched := q\<rparr>)), Inr ?j))"
    using r q snap t(1) by (cases err) (simp_all add: oc_queue_def Let_def o4_def)
  show ?thesis
  proof (cases err)
    case None
    then show ?thesis using o2 t j(3) by (auto simp: oc_sets_def o4_def fun_eq_iff)
  next
    case (Some e)
    have "oc_sets i (stepped StateFailed ?j\<lparr>j_Outcome := OutcomeFailure, j_CompletedAt := in_now2 inp\<rparr>) None (o4\<lparr>oc_sched := q\<rparr>) o2"
      using oc_failScheduling_sets [of "o4\<lparr>oc_sched := q\<rparr>" i ?j "in_now2 inp" "''schedule error''"] o2 Some t j(3)
      by (simp add: o4_def)
    then show ?thesis using o2 Some t(2) by (auto simp: oc_sets_def o4_def fun_eq_iff)
  qed
qed

lemma oc_create_ctx_get:
  "oc_reg (oc_create_ctx inp j sy r c o') = oc_reg o'" "oc_store (oc_create_ctx inp j sy r c o') = oc_store o'"
  "\<exists>x. map_of (oc_ctx (oc_create_ctx inp j sy r c o')) = (map_of (oc_ctx o'))(j_ID j \<mapsto> x) \<and> xe_JobID x = j_ID j \<and> \<not> xe_cancelled x
     \<and> xe_Deadline x = in_now inp + j_Timeout j"
  using cm_Create_get [of "in_tracer inp" "in_now inp" j "oc_tracing r c" sy "in_now inp" "oc_ctx o'"]
  by (simp_all add: oc_create_ctx_def)

text \<open>
  Queuing a job that was moved to \<open>j\<close> in the registry since the state \<open>o1\<close>, after creating its
  context: the effect relative to \<open>o1\<close>.
\<close>

lemma oc_ctx_queue_sets:
  assumes "er_ok (oc_reg o2)" "oc_G o2 = (oc_G o1)(i \<mapsto> j)" "oc_store o2 = oc_store o1" "oc_ctx o2 = oc_ctx o1"
    and "job_CanTransition (j_State j) StateQueued" "j_ID j = i" "j_ID j0 = i"
    and "oc_queue sched inp i (oc_create_ctx inp j0 sy r c o2) = (o3, res)"
  shows "(\<exists>x. res = Inr (queued_job (in_now inp) j) \<and> oc_sets i (queued_job (in_now inp) j) (Some x) o1 o3
      \<and> xe_JobID x = i \<and> \<not> xe_cancelled x \<and> xe_Deadline x = in_now inp + j_Timeout j0)
    \<or> (\<exists>e. res = Inl e) \<and> oc_sets i
        (stepped StateFailed (queued_job (in_now inp) j)\<lparr>j_Outcome := OutcomeFailure, j_CompletedAt := in_now2 inp\<rparr>) None o1 o3"
proof -
  let ?o = "oc_create_ctx inp j0 sy r c o2"
  obtain x where x: "map_of (oc_ctx ?o) = (map_of (oc_ctx o2))(i \<mapsto> x)" "xe_JobID x = i" "\<not> xe_cancelled x"
    "xe_Deadline x = in_now inp + j_Timeout j0"
    using oc_create_ctx_get(3) [of inp j0 sy r c o2] assms(7) by auto
  have "oc_sets i j' c' ?o o3 \<Longrightarrow> oc_sets i j' c' o1 o3" for j' c'
    using assms(2-4) x(1) by (auto simp: oc_sets_def oc_create_ctx_get fun_eq_iff)
  then show ?thesis
    using oc_queue_sets [of ?o i j sched inp o3 res] assms(1,2,5,6,8) x by (auto simp: oc_create_ctx_get)
qed

abbreviation oc_newJob :: "'q orch_env \<Rightarrow> exec_inputs \<Rightarrow> exec_request \<Rightarrow> job" where
  "oc_newJob env inp req \<equiv> job_New (oc_fillIDs inp req) (oc_resolveDefaults env (oc_fillIDs inp req) (in_now inp) (in_jobID inp))"

lemma job_New_simps:
  "j_ID (job_New r d) = df_ID d" "j_State (job_New r d) = StatePending" "j_Outcome (job_New r d) = OutcomeNone"
  "j_RetryCount (job_New r d) = 0" "j_Transitions (job_New r d) = 0" "j_MaxRetries (job_New r d) = df_MaxRetries d"
  "j_Timeout (job_New r d) = (if rq_Timeout r \<le> 0 then df_Timeout d else rq_Timeout r)" "j_Priority (job_New r d) = rq_Priority r"
  "j_Source (job_New r d) = rq_Source r" "j_Stdin (job_New r d) = rq_Stdin r" "j_Language (job_New r d) = rq_Language r"
  "j_UserID (job_New r d) = rq_UserID r"
  by (simp_all add: job_New_def Let_def)

lemma oc_resolveDefaults_simps:
  "df_ID (oc_resolveDefaults env r now i) = i" "df_MaxRetries (oc_resolveDefaults env r now i) = xc_MaxRetries (oe_cfg env)"
  by (simp_all add: oc_resolveDefaults_def Let_def case_prod_beta)

lemma oc_Submit_rejects:
  assumes "\<not> result_OK (pipeline_Validate True (in_ctxDone inp) (oe_validators env) (Some (oc_fillIDs inp req)))"
  shows "\<exists>e. oc_SubmitExecution env inp req o1 =
     (o1\<lparr>oc_events := oc_events o1 @ [request_event EvRequested (oc_fillIDs inp req) [], e]\<rparr>,
      Inl (the (result_Err (pipeline_Validate True (in_ctxDone inp) (oe_validators env) (Some (oc_fillIDs inp req))))))"
  using assms by (simp add: oc_SubmitExecution_def Let_def oc_publish_def) blast

lemma oc_Submit_duplicate:
  assumes "result_OK (pipeline_Validate True (in_ctxDone inp) (oe_validators env) (Some (oc_fillIDs inp req)))"
    and "oc_G o1 (in_jobID inp) \<noteq> None"
  shows "\<exists>es. oc_SubmitExecution env inp req o1 = (o1\<lparr>oc_events := oc_events o1 @ es\<rparr>, Inl ErrDuplicateJob)"
  using assms
  by (simp add: oc_SubmitExecution_def Let_def oc_publish_def er_Add_def gm_has_def job_New_simps oc_resolveDefaults_simps) blast

lemma oc_Submit_sets:
  assumes inv: "er_ok (oc_reg o1)"
    and ok: "result_OK (pipeline_Validate True (in_ctxDone inp) (oe_validators env) (Some (oc_fillIDs inp req)))"
    and fresh: "oc_G o1 (in_jobID inp) = None"
    and r: "oc_SubmitExecution env inp req o1 = (o2, res)"
  shows "let i = in_jobID inp; j = queued_job (in_now inp) (stepped StateValidated (oc_newJob env inp req)) in
    (\<exists>x. res = Inr j \<and> oc_sets i j (Some x) o1 o2 \<and> xe_JobID x = i \<and> \<not> xe_cancelled x \<and> xe_Deadline x = in_now inp + j_Timeout j)
    \<or> (\<exists>e. res = Inl e) \<and> oc_sets i (stepped StateFailed j\<lparr>j_Outcome := OutcomeFailure, j_CompletedAt := in_now2 inp\<rparr>) None o1 o2"
proof -
  let ?r = "oc_fillIDs inp req" and ?i = "in_jobID inp"
  define j where "j = oc_newJob env inp req"
  have jid: "j_ID j = ?i" by (simp add: j_def job_New_simps oc_resolveDefaults_simps)
  define oa where "oa = oc_publish (request_event EvValidated ?r []) (oc_publish (request_event EvRequested ?r []) o1)"
  have oa: "oc_reg oa = oc_reg o1" "oc_store oa = oc_store o1" "oc_ctx oa = oc_ctx o1" by (simp_all add: oa_def)
  obtain reg where add: "er_Add j (oc_reg oa) = (reg, None)" "map_of (er_byID reg) = (oc_G o1)(?i \<mapsto> j)" "er_ok reg"
    using er_ok_Add [OF inv, of j] fresh jid oa(1) by (auto simp: er_Add_def gm_has_def fun_eq_iff)
  define ob where "ob = oc_publishJob EvJobCreated j [] (oa\<lparr>oc_reg := reg\<rparr>)"
  obtain reg2 where t: "er_Transition ?i StateValidated id (oc_reg ob) = (reg2, Inr StatePending)"
    "map_of (er_byID reg2) = (oc_G o1)(?i \<mapsto> stepped StateValidated j)" "er_ok reg2"
  proof -
    obtain reg2 where t: "er_Transition ?i StateValidated id reg = (reg2, Inr StatePending)"
      using add(2) by (simp add: er_Transition_def j_def job_New_simps)
    then show ?thesis
      using that [of reg2] er_ok_Transition [OF add(3), of id ?i StateValidated] add(2)
      by (auto simp: ob_def elim!: er_Transition_Inr)
  qed
  define sy where "sy = \<lparr>sy_UserID = rq_UserID ?r, sy_Roles = rq_Roles ?r, sy_Authenticated = rq_Authenticated ?r, sy_Authorized = True,
     sy_NetworkAccess = eo_NetworkAccess (rq_ExecutionOptions ?r)\<rparr>"
  have q: "oc_queue (so_Schedule (oe_sched env)) inp ?i (oc_create_ctx inp j sy (rq_RequestID ?r) (rq_CorrelationID ?r) (ob\<lparr>oc_reg := reg2\<rparr>)) = (o2, res)"
    using r ok add(1) t(1) jid by (simp add: oc_SubmitExecution_def Let_def oa_def ob_def j_def sy_def)
  have "j_Timeout (queued_job (in_now inp) (stepped StateValidated j)) = j_Timeout j" by (simp add: queued_job_def)
  then show ?thesis
    using oc_ctx_queue_sets [OF _ _ _ _ _ _ _ q, of o1 "stepped StateValidated j"] t jid oa
    unfolding j_def [symmetric] Let_def by (simp add: ob_def)
qed

lemma oc_inv_events: "oc_inv (o'\<lparr>oc_events := es\<rparr>) = oc_inv o'"
  by (simp add: oc_inv_def)

lemma oc_inv_Submit: "oc_inv o1 \<Longrightarrow> oc_inv (fst (oc_SubmitExecution env inp req o1))"
proof -
  assume inv: "oc_inv o1"
  let ?ok = "result_OK (pipeline_Validate True (in_ctxDone inp) (oe_validators env) (Some (oc_fillIDs inp req)))"
  show ?thesis
  proof (cases "?ok \<and> oc_G o1 (in_jobID inp) = None")
    case False
    then have "\<exists>es. fst (oc_SubmitExecution env inp req o1) = o1\<lparr>oc_events := es\<rparr>"
      using oc_Submit_rejects [of inp env req o1] oc_Submit_duplicate [of inp env req o1] by fastforce
    then show ?thesis using inv by (auto simp: oc_inv_events)
  next
    case True
    let ?o2 = "fst (oc_SubmitExecution env inp req o1)"
    define j where "j = stepped StateValidated (oc_newJob env inp req)"
    have j: "j_ID j = in_jobID inp" "j_Outcome j = OutcomeNone" "j_RetryCount j = 0" "j_Transitions j = 1"
      by (simp_all add: j_def job_New_simps oc_resolveDefaults_simps)
    have ok: "job_ok (queued_job (in_now inp) j)"
      "job_ok (stepped StateFailed (queued_job (in_now inp) j)\<lparr>j_Outcome := OutcomeFailure, j_CompletedAt := in_now2 inp\<rparr>)"
      using job_ok_queued [of j] j by simp_all
    have er: "er_ok (oc_reg o1)" using inv by (simp add: oc_inv_def)
    consider x where "oc_sets (in_jobID inp) (queued_job (in_now inp) j) (Some x) o1 ?o2" "xe_JobID x = in_jobID inp" "\<not> xe_cancelled x"
      | "oc_sets (in_jobID inp) (stepped StateFailed (queued_job (in_now inp) j)\<lparr>j_Outcome := OutcomeFailure, j_CompletedAt := in_now2 inp\<rparr>) None o1 ?o2"
      using oc_Submit_sets [OF er conjunct1 [OF True] conjunct2 [OF True] surjective_pairing]
      unfolding j_def [symmetric] Let_def by blast
    then show ?thesis
    proof cases
      case 1
      show ?thesis by (rule oc_inv_sets [OF inv 1(1) _ ok(1)]) (use 1 j(1) in auto)
    next
      case 2
      show ?thesis by (rule oc_inv_sets [OF inv 2 _ ok(2)]) (use j(1) in \<open>auto simp: job_IsActive_def\<close>)
    qed
  qed
qed

lemma oc_Retry_sets:
  assumes inv: "oc_inv o1" and j: "oc_G o1 i = Some j" "job_CanRetry (j_State j)" "j_RetryCount j < j_MaxRetries j"
    and r: "oc_Retry env inp i o1 = (o2, err)"
  shows "let j' = stepped StateRetrying j\<lparr>j_RetryCount := j_RetryCount j + 1, j_Outcome := OutcomeNone, j_StartedAt := 0, j_CompletedAt := 0\<rparr>;
             jq = queued_job (in_now inp) j' in
    (\<exists>x. err = None \<and> oc_sets i jq (Some x) o1 o2 \<and> xe_JobID x = i \<and> \<not> xe_cancelled x \<and> xe_Deadline x = in_now inp + j_Timeout j)
    \<or> err \<noteq> None \<and> oc_sets i (stepped StateFailed jq\<lparr>j_Outcome := OutcomeFailure, j_CompletedAt := in_now2 inp\<rparr>) None o1 o2"
proof -
  let ?m = "\<lambda>j. j\<lparr>j_RetryCount := j_RetryCount j + 1, j_Outcome := OutcomeNone, j_StartedAt := 0, j_CompletedAt := 0\<rparr>"
  define j' where "j' = stepped StateRetrying j\<lparr>j_RetryCount := j_RetryCount j + 1, j_Outcome := OutcomeNone, j_StartedAt := 0, j_CompletedAt := 0\<rparr>"
  have j': "j_ID j' = i" "j_State j' = StateRetrying" "j_Timeout j' = j_Timeout j"
    using oc_inv_ctx(1) [OF inv j(1)] by (simp_all add: j'_def)
  have can: "job_CanTransition (j_State j) StateRetrying" using j(2) by (auto simp: job_CanRetry_def)
  obtain reg where t: "er_Transition i StateRetrying ?m (oc_reg o1) = (reg, Inr (j_State j))"
    "map_of (er_byID reg) = (oc_G o1)(i \<mapsto> j')" "er_ok reg"
  proof -
    obtain reg where t: "er_Transition i StateRetrying ?m (oc_reg o1) = (reg, Inr (j_State j))"
      using j(1) can by (simp add: er_Transition_def)
    then show ?thesis
      using that [of reg] er_ok_Transition [of "oc_reg o1" ?m i StateRetrying] inv j(1)
      by (auto simp: oc_inv_def j'_def elim!: er_Transition_Inr)
  qed
  define oa where "oa = oc_publishJob EvJobRetried j' [] (o1\<lparr>oc_reg := reg\<rparr>)"
  define sy where "sy = \<lparr>sy_UserID = j_UserID j', sy_Roles = [], sy_Authenticated = True, sy_Authorized = True,
     sy_NetworkAccess = eo_NetworkAccess (j_ExecutionOptions j')\<rparr>"
  obtain o3 res where q: "oc_queue (so_Retry (oe_sched env)) inp i (oc_create_ctx inp j' sy (j_RequestID j') (j_CorrelationID j') oa) = (o3, res)"
    by (metis surj_pair)
  have snap: "oc_snap i (o1\<lparr>oc_reg := reg\<rparr>) = j'" using t(2) by (simp add: oc_snap_def er_Get_def)
  have e: "o2 = o3" "err = (case res of Inl e \<Rightarrow> Some e | Inr _ \<Rightarrow> None)"
    using r q j t(1) snap
    by (auto simp: oc_Retry_def er_Get_def Let_def oa_def sy_def job_CanRetry_def split: sum.splits)
  show ?thesis
    using oc_ctx_queue_sets [OF _ _ _ _ _ _ _ q, of o1 j'] t(2,3) j' e unfolding j'_def [symmetric] Let_def
    by (auto simp: oa_def)
qed

lemma oc_inv_Retry: "oc_inv o1 \<Longrightarrow> oc_inv (fst (oc_Retry env inp i o1))"
proof -
  assume inv: "oc_inv o1"
  show ?thesis
  proof (cases "\<exists>j. oc_G o1 i = Some j \<and> job_CanRetry (j_State j) \<and> j_RetryCount j < j_MaxRetries j")
    case False
    then have "fst (oc_Retry env inp i o1) = o1" by (auto simp: oc_Retry_def er_Get_def split: option.splits)
    then show ?thesis using inv by simp
  next
    case True
    then obtain j where j: "oc_G o1 i = Some j" "job_CanRetry (j_State j)" "j_RetryCount j < j_MaxRetries j" by blast
    let ?o2 = "fst (oc_Retry env inp i o1)"
    define j' where "j' = stepped StateRetrying j\<lparr>j_RetryCount := j_RetryCount j + 1, j_Outcome := OutcomeNone, j_StartedAt := 0, j_CompletedAt := 0\<rparr>"
    have jok: "job_ok j" "j_ID j = i" using oc_inv_ctx [OF inv j(1)] by auto
    have j': "j_ID j' = i" "j_Outcome j' = OutcomeNone" "0 \<le> j_RetryCount j'" "j_RetryCount j' \<le> max 0 (j_MaxRetries j')"
      "j_Transitions j' \<le> 6 * j_RetryCount j' + 1"
      using jok j(2,3) by (auto simp: j'_def job_ok_def job_CanRetry_def)
    have ok: "job_ok (queued_job (in_now inp) j')"
      "job_ok (stepped StateFailed (queued_job (in_now inp) j')\<lparr>j_Outcome := OutcomeFailure, j_CompletedAt := in_now2 inp\<rparr>)"
      using job_ok_queued [OF j'(2-5)] by auto
    consider x where "oc_sets i (queued_job (in_now inp) j') (Some x) o1 ?o2" "xe_JobID x = i" "\<not> xe_cancelled x"
      | "oc_sets i (stepped StateFailed (queued_job (in_now inp) j')\<lparr>j_Outcome := OutcomeFailure, j_CompletedAt := in_now2 inp\<rparr>) None o1 ?o2"
      using oc_Retry_sets [OF inv j surjective_pairing] unfolding j'_def [symmetric] Let_def by blast
    then show ?thesis
    proof cases
      case 1
      show ?thesis by (rule oc_inv_sets [OF inv 1(1) _ ok(1)]) (use 1 j'(1) in auto)
    next
      case 2
      show ?thesis by (rule oc_inv_sets [OF inv 2 _ ok(2)]) (use j'(1) in \<open>auto simp: job_IsActive_def\<close>)
    qed
  qed
qed

lemma oc_Archive_fails: "oc_Archive now i o1 = (o2, Inl e) \<Longrightarrow> o2 = o1"
  by (auto simp: oc_Archive_def Let_def split: prod.splits sum.splits dest: er_Transition_Inl)

lemma oc_Archive_effect:
  assumes "er_ok (oc_reg o1)" "oc_G o1 i = Some j" "job_CanTransition (j_State j) StateArchived" "j_ID j = i"
  shows "\<exists>o2. oc_Archive now i o1 = (o2, Inr (stepped StateArchived j)) \<and> er_ok (oc_reg o2)
    \<and> oc_G o2 = (oc_G o1)(i := None) \<and> map_of (oc_store o2) = (map_of (oc_store o1))(i := None)
    \<and> map_of (oc_ctx o2) = (map_of (oc_ctx o1))(i := None)
    \<and> map_of (oc_archive o2) = (map_of (oc_archive o1))(i \<mapsto> (stepped StateArchived j, now)) \<and> oc_sched o2 = oc_sched o1"
proof -
  obtain reg where t: "er_Transition i StateArchived id (oc_reg o1) = (reg, Inr (j_State j))"
    using assms(2,3) by (simp add: er_Transition_def)
  have r: "map_of (er_byID reg) = (oc_G o1)(i \<mapsto> stepped StateArchived j)" "er_ok reg"
    using t assms(1,2) by (auto elim!: er_Transition_Inr)
  obtain reg2 where rm: "er_Remove i reg = (reg2, Some (stepped StateArchived j))" "map_of (er_byID reg2) = (oc_G o1)(i := None)"
    using r(1) by (simp add: er_Remove_def fun_eq_iff)
  have "er_ok reg2" using er_ok_Remove [OF r(2), of i] rm(1) by simp
  then show ?thesis
    using t rm assms(4)
    by (simp add: oc_Archive_def Let_def ja_Archive_def jr_Delete_def cm_Release_def)
qed

lemma oc_inv_Archive: "oc_inv o1 \<Longrightarrow> oc_inv (fst (oc_Archive now i o1))"
proof (cases "\<exists>j. oc_G o1 i = Some j \<and> job_CanTransition (j_State j) StateArchived")
  case True
  assume inv: "oc_inv o1"
  then obtain j where "oc_G o1 i = Some j" "job_CanTransition (j_State j) StateArchived" "j_ID j = i"
    using True oc_inv_ctx(1) by blast
  then show ?thesis
    using oc_Archive_effect [of o1 i j now] inv oc_maps_del [of "oc_G o1" "map_of (oc_store o1)" "map_of (oc_ctx o1)" i]
    by (auto simp: oc_inv_def)
next
  case False
  assume "oc_inv o1"
  then show ?thesis using False by (auto simp: oc_Archive_def er_Transition_def split: option.splits)
qed

lemma oc_inv_archive_loop: "oc_inv o1 \<Longrightarrow> oc_inv (fst (oc_archive_loop now js n o1))"
proof (induction js arbitrary: n o1)
  case (Cons j js)
  obtain o2 r where a: "oc_Archive now (j_ID j) o1 = (o2, r)" by (metis surj_pair)
  have "oc_inv o2" using oc_inv_Archive [OF Cons.prems, of now "j_ID j"] a by simp
  then show ?case using Cons.IH a by (cases r) simp_all
qed simp

lemma oc_inv_New: "oc_inv (oc_New q)"
  using er_ok_New by (simp add: oc_inv_def oc_New_def oc_maps_def er_New_def)

lemma oc_inv_ArchiveFinished: "oc_inv o1 \<Longrightarrow> oc_ArchiveFinished env now o1 = Some (o2, n) \<Longrightarrow> oc_inv o2"
  by (auto simp: oc_ArchiveFinished_def dest: oc_inv_archive_loop [where n = 0]) (metis fst_conv oc_inv_archive_loop)

section \<open>Properties\<close>

inductive oc_reachable :: "'q orch_env \<Rightarrow> 'q orch \<Rightarrow> bool" for env where
  oc_new: "oc_reachable env (oc_New q)"
| oc_submit: "oc_reachable env o' \<Longrightarrow> oc_reachable env (fst (oc_SubmitExecution env inp req o'))"
| oc_cancel: "oc_reachable env o' \<Longrightarrow> oc_reachable env (fst (oc_Cancel env now i o'))"
| oc_retry: "oc_reachable env o' \<Longrightarrow> oc_reachable env (fst (oc_Retry env inp i o'))"
| oc_dispatched: "oc_reachable env o' \<Longrightarrow> oc_reachable env (fst (oc_MarkDispatched i w o'))"
| oc_started: "oc_reachable env o' \<Longrightarrow> oc_reachable env (fst (oc_MarkStarted now i o'))"
| oc_streaming: "oc_reachable env o' \<Longrightarrow> oc_reachable env (fst (oc_MarkStreaming i o'))"
| oc_completed: "oc_reachable env o' \<Longrightarrow> oc_reachable env (fst (oc_MarkCompleted now i o'))"
| oc_failed: "oc_reachable env o' \<Longrightarrow> oc_reachable env (fst (oc_MarkFailed now i reason o'))"
| oc_timedout: "oc_reachable env o' \<Longrightarrow> oc_reachable env (fst (oc_MarkTimedOut now i o'))"
| oc_archived: "oc_reachable env o' \<Longrightarrow> oc_reachable env (fst (oc_Archive now i o'))"
| oc_swept: "oc_reachable env o' \<Longrightarrow> oc_ArchiveFinished env now o' = Some (o'', n) \<Longrightarrow> oc_reachable env o''"

lemma oc_reachable_inv: "oc_reachable env o' \<Longrightarrow> oc_inv o'"
  by (induction rule: oc_reachable.induct)
    (auto intro: oc_inv_New oc_inv_Submit oc_inv_Cancel oc_inv_Retry oc_inv_MarkDispatched oc_inv_MarkStarted
      oc_inv_MarkStreaming oc_inv_MarkCompleted oc_inv_MarkFailed oc_inv_MarkTimedOut oc_inv_Archive oc_inv_ArchiveFinished)


definition ex_env :: "sched_memory orch_env" where
  "ex_env = \<lparr>oe_cfg = xc_Default, oe_langs = lr_Default, oe_validators = DefaultValidators xc_Default lr_Default None [], oe_sched = sm_ops\<rparr>"

definition ex_inputs :: exec_inputs where
  "ex_inputs = \<lparr>in_now = 100, in_now2 = 200, in_reqID = ''req-9'', in_corrID = ''corr-9'', in_jobID = ''job-1'', in_tracer = None,
     in_ctxDone = (\<lambda>_. False)\<rparr>"

abbreviation ex_submitted :: "sched_memory orch" where
  "ex_submitted \<equiv> fst (oc_SubmitExecution ex_env ex_inputs ex_request (oc_New (sm_New 0)))"

lemma ex_fillIDs: "oc_fillIDs inp ex_request = ex_request"
  by (simp add: oc_fillIDs_def ex_request_def)

lemma ex_submitted_job: "map_option j_State (er_Get ''job-1'' (oc_reg ex_submitted)) = Some StateQueued"
proof -
  have ok: "result_OK (pipeline_Validate True (in_ctxDone ex_inputs) (oe_validators ex_env) (Some ex_request))"
    using default_pipeline_OK [of "\<lambda>_. False" True xc_Default lr_Default None "[]" ex_request] ex_request_acceptable
    by (simp add: ex_inputs_def ex_env_def)
  show ?thesis
    using ok by (simp add: oc_SubmitExecution_def Let_def ex_fillIDs er_Add_def oc_New_def er_New_def gm_has_def job_New_simps
        oc_resolveDefaults_simps er_Transition_def oc_queue_def oc_create_ctx_def oc_snap_def er_Get_def ex_env_def sm_ops_def
        sm_Schedule_def sm_New_def ex_inputs_def)
qed


lemma oc_resolveDefaults_timeout:
  assumes "xc_normal (oe_cfg env)"
  shows "0 < df_Timeout (oc_resolveDefaults env r now i) \<and> df_Timeout (oc_resolveDefaults env r now i) \<le> xc_MaxTimeout (oe_cfg env)"
  using assms by (auto simp: oc_resolveDefaults_def Let_def case_prod_beta xc_normal_def)


lemma xc_normal_Default: "xc_normal xc_Default"
  by (simp add: xc_normal_def xc_Default_def)




text \<open>The jobs a sweep takes.\<close>

definition archive_due :: "time \<Rightarrow> job \<Rightarrow> bool" where
  "archive_due cutoff j \<longleftrightarrow> j_State j \<in> {StateCompleted, StateFailed, StateTimedOut, StateCancelled} \<and> er_finished_ref j \<le> cutoff"

lemma oc_archive_loop_effect:
  assumes "er_ok (oc_reg o1)" "\<And>j. j \<in> set js \<Longrightarrow> oc_G o1 (j_ID j) = Some j \<and> job_CanTransition (j_State j) StateArchived"
    and "distinct (map j_ID js)"
  shows "\<exists>o2. oc_archive_loop now js n o1 = (o2, n + length js)
    \<and> oc_G o2 = (\<lambda>i. if i \<in> j_ID ` set js then None else oc_G o1 i)
    \<and> map_of (oc_archive o2) = (\<lambda>i. if i \<in> j_ID ` set js then Some (stepped StateArchived (the (oc_G o1 i)), now) else map_of (oc_archive o1) i)"
  using assms
proof (induction js arbitrary: n o1)
  case (Cons j js)
  obtain oa where a: "oc_Archive now (j_ID j) o1 = (oa, Inr (stepped StateArchived j))" "er_ok (oc_reg oa)"
    "oc_G oa = (oc_G o1)(j_ID j := None)" "map_of (oc_archive oa) = (map_of (oc_archive o1))(j_ID j \<mapsto> (stepped StateArchived j, now))"
    using oc_Archive_effect [of o1 "j_ID j" j now] Cons.prems by auto
  have later: "oc_G oa (j_ID j') = Some j' \<and> job_CanTransition (j_State j') StateArchived" if h: "j' \<in> set js" for j'
  proof -
    have "j_ID j' \<in> j_ID ` set js" using h by simp
    then have "j_ID j' \<noteq> j_ID j" using Cons.prems(3) by auto
    then show ?thesis using Cons.prems(2) [of j'] h a(3) by simp
  qed
  from Cons.IH [OF a(2) later, of "Suc n"] Cons.prems(3) obtain o2 where
    o2: "oc_archive_loop now js (Suc n) oa = (o2, Suc n + length js)"
      "oc_G o2 = (\<lambda>i. if i \<in> j_ID ` set js then None else oc_G oa i)"
      "map_of (oc_archive o2) = (\<lambda>i. if i \<in> j_ID ` set js then Some (stepped StateArchived (the (oc_G oa i)), now) else map_of (oc_archive oa) i)"
    by auto
  have g: "oc_G o1 (j_ID j) = Some j" "j_ID j \<notin> j_ID ` set js" using Cons.prems by auto
  show ?case
  proof (intro exI [of _ o2] conjI)
    show "oc_archive_loop now (j # js) n o1 = (o2, n + length (j # js))" using a(1) o2(1) by simp
    show "oc_G o2 = (\<lambda>i. if i \<in> j_ID ` set (j # js) then None else oc_G o1 i)"
      using o2(2) a(3) by (auto simp: fun_eq_iff)
    show "map_of (oc_archive o2) = (\<lambda>i. if i \<in> j_ID ` set (j # js) then Some (stepped StateArchived (the (oc_G o1 i)), now) else map_of (oc_archive o1) i)"
      using o2(3) a(3,4) g by (auto simp: fun_eq_iff)
  qed
qed auto

text \<open>
  C36. An archival sweep terminates without a nil dereference and takes exactly the jobs that
  finished at or before the retention cutoff: each of them leaves the registry and is found in
  the archive, marked archived; every other job stays as it is, and so does its place in the
  archive; and the sweep returns the number of jobs it took.
\<close>

theorem archive_sweep_exact:
  assumes "oc_reachable env o1"
  shows "\<exists>o2. oc_ArchiveFinished env now o1 =
      Some (o2, gm_count (archive_due (now - xc_ArchiveRetention (oe_cfg env))) (er_byID (oc_reg o1)))
    \<and> (\<forall>i. case er_Get i (oc_reg o1) of
          None \<Rightarrow> er_Get i (oc_reg o2) = None \<and> ja_Get i (oc_archive o2) = ja_Get i (oc_archive o1)
        | Some j \<Rightarrow>
            if archive_due (now - xc_ArchiveRetention (oe_cfg env)) j
            then er_Get i (oc_reg o2) = None
              \<and> ja_Get i (oc_archive o2) = Inr (j\<lparr>j_State := StateArchived, j_Transitions := j_Transitions j + 1\<rparr>)
            else er_Get i (oc_reg o2) = Some j \<and> ja_Get i (oc_archive o2) = ja_Get i (oc_archive o1))"
proof -
  let ?c = "now - xc_ArchiveRetention (oe_cfg env)"
  have inv: "er_ok (oc_reg o1)" using oc_reachable_inv [OF assms] by (simp add: oc_inv_def)
  then have ids: "\<And>i j. oc_G o1 i = Some j \<Longrightarrow> j_ID j = i" and wf: "gm_wf (er_byID (oc_reg o1))" by (auto simp: er_ok_def)
  obtain js where js: "er_FinishedBefore ?c (oc_reg o1) = Some js" "distinct (map j_ID js)"
    "set js = {j. \<exists>i. oc_G o1 i = Some j \<and> archive_due ?c j}"
    using er_FinishedBefore_exact [OF inv, of ?c] unfolding archive_due_def by auto
  have pre: "j \<in> set js \<Longrightarrow> oc_G o1 (j_ID j) = Some j \<and> job_CanTransition (j_State j) StateArchived" for j
    using js(3) ids by (fastforce simp: archive_due_def)
  obtain o2 where o2: "oc_archive_loop now js 0 o1 = (o2, length js)"
    "oc_G o2 = (\<lambda>i. if i \<in> j_ID ` set js then None else oc_G o1 i)"
    "map_of (oc_archive o2) = (\<lambda>i. if i \<in> j_ID ` set js then Some (stepped StateArchived (the (oc_G o1 i)), now) else map_of (oc_archive o1) i)"
    using oc_archive_loop_effect [OF inv pre js(2), of now 0] by auto
  have taken: "i \<in> j_ID ` set js \<longleftrightarrow> (\<exists>j. oc_G o1 i = Some j \<and> archive_due ?c j)" for i
    using js(3) ids by (auto simp: image_iff)
  have "length js = card (j_ID ` set js)" using distinct_card [OF js(2)] by simp
  also have "j_ID ` set js = {i. \<exists>j. oc_G o1 i = Some j \<and> archive_due ?c j}" using taken by blast
  also have "card \<dots> = gm_count (archive_due ?c) (er_byID (oc_reg o1))" using wf by (simp add: gm_count_card)
  finally show ?thesis
    using js(1) o2 taken
    by (intro exI [of _ o2] conjI allI) (auto simp: oc_ArchiveFinished_def er_Get_def ja_Get_def split: option.split)
qed

theorem archive_sweep_exact_witness:
  "let o1 = fst (oc_Cancel ex_env 300 ''job-1'' ex_submitted)
   in \<exists>o2. oc_ArchiveFinished ex_env (60 * Minute) o1 = Some (o2, gm_count (archive_due (45 * Minute)) (er_byID (oc_reg o1)))"
proof -
  have "oc_reachable ex_env (fst (oc_Cancel ex_env 300 ''job-1'' ex_submitted))" by (intro oc_cancel oc_submit oc_new)
  from archive_sweep_exact [OF this, of "60 * Minute"] show ?thesis by (auto simp: Let_def ex_env_def xc_Default_def)
qed

section \<open>Divergences\<close>

text \<open>
  A failed mark keeps the execution context, live, although contexts are documented to be released
  when a job ends; it goes only with a retry or with archival.
\<close>

lemma mark_failed_keeps_context:
  assumes "oc_reachable env o1" "oc_MarkFailed now i reason o1 = (o2, None)"
  shows "map_of (oc_ctx o2) i = map_of (oc_ctx o1) i"
  by (rule oc_advance_sets [OF assms(2) [unfolded oc_MarkFailed_def] oc_reachable_inv [OF assms(1)]]) (simp_all add: oc_sets_def)

text \<open>
  \<open>MarkDispatched\<close> writes the worker into the context before it knows whether the transition is
  legal: a refused call leaves the context naming another worker than the job.
\<close>

lemma refused_dispatch_reassigns_context:
  assumes "map_of (oc_ctx o1) i = Some c" "w \<noteq> []" "oc_MarkDispatched i w o1 = (o2, Some e)"
  shows "map_of (oc_ctx o2) i = Some (c\<lparr>xe_WorkerID := w\<rparr>) \<and> oc_reg o2 = oc_reg o1"
  using oc_advance_fails [OF assms(3) [unfolded oc_MarkDispatched_def]] assms(1,2) by (simp add: cm_Assign_def)

text \<open>
  The record is saved outside the registry's lock. When a mark takes its snapshot, and a later mark
  of the same job runs in full before the first one saves, the repository keeps the older version.
\<close>

lemma persist_race_keeps_stale_job:
  assumes "oc_reachable env o1" "oc_MarkStarted now i o1 = (o2, None)" "oc_MarkCompleted now' i o2 = (o3, None)"
  shows "map_of (oc_store (oc_persist (oc_snap i o2) o3)) i \<noteq> er_Get i (oc_reg o3)"
proof -
  have i1: "oc_inv o1" "oc_inv o2" using oc_reachable_inv [OF assms(1)] oc_inv_MarkStarted [of o1 now i] assms(2) by auto
  obtain j where j: "oc_sets i (stepped StateRunning j\<lparr>j_StartedAt := now\<rparr>) (map_of (oc_ctx o1) i) o1 o2" "oc_G o1 i = Some j"
    by (rule oc_advance_sets [OF assms(2) [unfolded oc_MarkStarted_def] i1(1)]) simp_all
  have snap: "oc_snap i o2 = stepped StateRunning j\<lparr>j_StartedAt := now\<rparr>" "j_ID j = i"
    using j oc_inv_ctx(1) [OF i1(1) j(2)] by (auto simp: oc_sets_def oc_snap_def er_Get_def)
  obtain o4 where a: "oc_advance i StateCompleted (Some EvJobCompleted) [] (\<lambda>j. j\<lparr>j_Outcome := job_OutcomeFor StateCompleted, j_CompletedAt := now'\<rparr>) o2 = (o4, None)"
    "oc_reg o3 = oc_reg o4"
    using assms(3) by (auto simp: oc_MarkCompleted_def split: prod.splits option.splits)
  obtain j3 where "oc_G o4 i = Some j3" "j_State j3 = StateCompleted"
    using oc_advance_finish [OF i1(2) a(1)] by (auto simp: oc_sets_def)
  then show ?thesis using snap a(2) by (auto simp: er_Get_def)
qed

end
