(* ===== verification/Queue_System.thy ===== *)
theory Queue_System
  imports Queue_Pool Queue_Stream Exec_Orchestrator
begin

text \<open>
  The queue as a whole: the goroutines of the manager interleaved in any order, and what becomes of
  the jobs handed to it. The first part gives the runs with their history, the second shows over the
  contract of the stream client that no scheduled job disappears unrecorded, and the last connects the
  queue to the execution orchestrator.
\<close>

section \<open>Runs\<close>

text \<open>
  The history of a run: the jobs that were scheduled, those whose handler succeeded, and those that
  the queue gave up, with the reason. A job can leave the queue for another stream by a replay. A job
  is named by its id as it is written on the stream, which differs from the id only where that is not UTF-8.
\<close>

datatype queue_loss =
  Rejected dispatch_error \<comment> \<open>the dispatcher refused the message\<close>
| NotStored queue_error \<comment> \<open>neither the retry nor the dead letter could be written\<close>
| Cancelled
| ShutDown \<comment> \<open>the wait for a retry was aborted\<close>
| ReplayedTo string

datatype queue_log = QScheduled string | QCompleted string | QLost string queue_loss

definition dispatch_log :: "('c, 'o) queue_env \<Rightarrow> (nat \<Rightarrow> time) \<Rightarrow> qmessage \<Rightarrow> string \<Rightarrow> ('c, 'o) queue_sys \<Rightarrow> queue_log list" where
  "dispatch_log env now msg wid s =
    (case Dispatch env now msg wid (qs_reg s) (qs_orch s) of
       (r, o1, Some e, evs) \<Rightarrow> [QLost (qm_JobID msg) (Rejected e)]
     | _ \<Rightarrow> [])"

definition stored_log :: "qmessage \<Rightarrow> queue_error option \<Rightarrow> queue_log list" where
  "stored_log msg e = (case e of None \<Rightarrow> [] | Some err \<Rightarrow> [QLost (qm_JobID msg) (NotStored err)])"

definition fetch_log :: "('c, 'o) queue_env \<Rightarrow> (nat \<Rightarrow> time) \<Rightarrow> ('c, 'o) queue_sys \<Rightarrow> queue_log list" where
  "fetch_log env now s =
    (case qs_fetch s of
       FetchHave wid entry \<Rightarrow>
         (case Unmarshal (fst entry) (snd entry) of Inl e \<Rightarrow> [] | Inr msg \<Rightarrow> dispatch_log env now msg wid s)
     | _ \<Rightarrow> [])"

definition recover_log :: "('c, 'o) queue_env \<Rightarrow> (nat \<Rightarrow> time) \<Rightarrow> ('c, 'o) queue_sys \<Rightarrow> queue_log list" where
  "recover_log env now s =
    (case (qs_recover s, qs_idle s) of
       (RecoverEntries start cur (entry # rest), wid # idle) \<Rightarrow>
         (case Unmarshal (fst entry) (snd entry) of
            Inl e \<Rightarrow> []
          | Inr msg \<Rightarrow>
              let count = delivery_count env (now 0) (fst entry) (qs_client s); mx = max_retries (qe_cfg env) msg
              in if mx < count
                 then stored_log msg (fst (snd (dlq_Send env (\<lambda>n. now (n + 1)) msg (poison_reason count mx) (qs_client s))))
                 else dispatch_log env (\<lambda>n. now (n + 1)) (recovered count msg) wid s)
     | _ \<Rightarrow> [])"

definition execute_log :: "('c, 'o) queue_env \<Rightarrow> (nat \<Rightarrow> time) \<Rightarrow> duration \<Rightarrow> rat \<Rightarrow> string option \<Rightarrow> string \<Rightarrow> ('c, 'o) queue_sys \<Rightarrow> queue_log list" where
  "execute_log env now over u res wid s =
    (case map_of (qs_threads s) wid of
       Some t \<Rightarrow>
         (case wt_pc t of
            Running msg start \<Rightarrow>
              (case res of
                 None \<Rightarrow> [QCompleted (qm_JobID msg)]
               | Some err \<Rightarrow> stored_log msg (fst (snd (ScheduleRetry env (\<lambda>n. now (n + 3)) over u msg err (qs_client s)))))
          | _ \<Rightarrow> [])
     | None \<Rightarrow> [])"

definition timer_log :: "('c, 'o) queue_env \<Rightarrow> (nat \<Rightarrow> time) \<Rightarrow> nat \<Rightarrow> ('c, 'o) queue_sys \<Rightarrow> queue_log list" where
  "timer_log env now k s = stored_log (fst (qs_timers s ! k)) (fst (snd (requeue env now (fst (qs_timers s ! k)) (qs_client s))))"

definition replay_log :: "('c, 'o) queue_env \<Rightarrow> string \<Rightarrow> string \<times> msg_fields \<Rightarrow> queue_error option \<Rightarrow> queue_log list" where
  "replay_log env targetStream entry e =
    (case Unmarshal (fst entry) (snd entry) of
       Inr msg \<Rightarrow> if e = None \<and> targetStream \<noteq> qe_exec env then [QLost (qm_JobID msg) (ReplayedTo targetStream)] else []
     | Inl _ \<Rightarrow> [])"

text \<open>
  The steps of a run. \<open>room\<close> asks that the stream client has a fresh identifier where the step may
  write an entry. The values of a job fit their Go types.
\<close>

definition job_ints :: "job \<Rightarrow> bool" where
  "job_ints j \<longleftrightarrow> int64_ok (j_RetryCount j) \<and> int64_ok (j_MaxRetries j) \<and> - 128 \<le> j_Priority j \<and> j_Priority j \<le> 127"

inductive queue_run :: "('c, 'o) queue_env \<Rightarrow> ('c \<Rightarrow> bool) \<Rightarrow> ('c, 'o) queue_sys \<Rightarrow> ('c, 'o) queue_sys \<Rightarrow> queue_log list \<Rightarrow> bool"
  for env room s0 where
  qr_init: "queue_run env room s0 s0 []"
| qr_schedule: "queue_run env room s0 s l \<Longrightarrow> room (qs_client s) \<Longrightarrow> job_ints j \<Longrightarrow> mgr_Schedule env now j s = (s', None) \<Longrightarrow>
    queue_run env room s0 s' (l @ [QScheduled (json_text (j_ID j))])"
| qr_schedule_err: "queue_run env room s0 s l \<Longrightarrow> mgr_Schedule env now j s = (s', Some e) \<Longrightarrow> queue_run env room s0 s' l"
| qr_cancel: "queue_run env room s0 s l \<Longrightarrow> mgr_Cancel env i s = (s', e) \<Longrightarrow>
    queue_run env room s0 s' (l @ (if e = None \<and> gm_has (qs_jobStreamIDs s) i then [QLost (json_text i) Cancelled] else []))"
| qr_listen: "queue_run env room s0 s l \<Longrightarrow> queue_run env room s0 (event_listener ev s) l"
| qr_push: "queue_run env room s0 s l \<Longrightarrow> worker_push env wid s = Some s' \<Longrightarrow> queue_run env room s0 s' l"
| qr_begin: "queue_run env room s0 s l \<Longrightarrow> execute_begin env now wid s = Some s' \<Longrightarrow> queue_run env room s0 s' l"
| qr_end: "queue_run env room s0 s l \<Longrightarrow> room (qs_client s) \<Longrightarrow> execute_end env now over u res wid s = Some s' \<Longrightarrow>
    queue_run env room s0 s' (l @ execute_log env now over u res wid s)"
| qr_exit: "queue_run env room s0 s l \<Longrightarrow> worker_exit wid s = Some s' \<Longrightarrow> queue_run env room s0 s' l"
| qr_fetch_worker: "queue_run env room s0 s l \<Longrightarrow> fetch_worker s = Some s' \<Longrightarrow> queue_run env room s0 s' l"
| qr_fetch_read: "queue_run env room s0 s l \<Longrightarrow> fetch_read env consumer clk s = Some s' \<Longrightarrow> queue_run env room s0 s' l"
| qr_fetch_entry: "queue_run env room s0 s l \<Longrightarrow> fetch_entry env now s = Some s' \<Longrightarrow> queue_run env room s0 s' (l @ fetch_log env now s)"
| qr_recover_tick: "queue_run env room s0 s l \<Longrightarrow> recover_tick s = Some s' \<Longrightarrow> queue_run env room s0 s' l"
| qr_recover_claim: "queue_run env room s0 s l \<Longrightarrow> recover_claim env consumer t s = Some s' \<Longrightarrow> queue_run env room s0 s' l"
| qr_recover_entry: "queue_run env room s0 s l \<Longrightarrow> room (qs_client s) \<Longrightarrow> recover_entry env now s = Some s' \<Longrightarrow>
    queue_run env room s0 s' (l @ recover_log env now s)"
| qr_timer: "queue_run env room s0 s l \<Longrightarrow> room (qs_client s) \<Longrightarrow> timer_fires env now k s = Some s' \<Longrightarrow>
    queue_run env room s0 s' (l @ timer_log env now k s)"
| qr_abort: "queue_run env room s0 s l \<Longrightarrow> timer_aborts k s = Some s' \<Longrightarrow>
    queue_run env room s0 s' (l @ [QLost (qm_JobID (fst (qs_timers s ! k))) ShutDown])"
| qr_heartbeat: "queue_run env room s0 s l \<Longrightarrow> queue_run env room s0 (heartbeat_tick now wid s) l"
| qr_monitor: "queue_run env room s0 s l \<Longrightarrow> queue_run env room s0 (monitor_tick env t later s) l"
| qr_replay: "queue_run env room s0 s l \<Longrightarrow> replay_search env clks msgID (qs_client s) = Some (c, Inr entry) \<Longrightarrow> room c \<Longrightarrow>
    mgr_Replay env clks now msgID target s = Some (s', e) \<Longrightarrow> queue_run env room s0 s' (l @ replay_log env target entry e)"
| qr_replay_err: "queue_run env room s0 s l \<Longrightarrow> replay_search env clks msgID (qs_client s) = Some (c, Inl err) \<Longrightarrow>
    mgr_Replay env clks now msgID target s = Some (s', e) \<Longrightarrow> queue_run env room s0 s' l"

lemma log_no_schedule [simp]:
  "QScheduled J \<notin> set (dispatch_log env now msg wid s)" "QScheduled J \<notin> set (stored_log msg e)" "QScheduled J \<notin> set (fetch_log env now s)"
  "QScheduled J \<notin> set (recover_log env now s)" "QScheduled J \<notin> set (execute_log env now over u res wid s)" "QScheduled J \<notin> set (timer_log env now k s)"
  "QScheduled J \<notin> set (replay_log env target entry e)"
proof -
  show d: "QScheduled J \<notin> set (dispatch_log env now msg wid s)" for now msg wid by (auto simp: dispatch_log_def split: prod.splits option.splits)
  show l: "QScheduled J \<notin> set (stored_log msg e)" for msg e by (auto simp: stored_log_def split: option.splits)
  show "QScheduled J \<notin> set (fetch_log env now s)" using d by (auto simp: fetch_log_def split: fetch_pc.splits sum.splits)
  show "QScheduled J \<notin> set (recover_log env now s)" using d l by (auto simp: recover_log_def Let_def split: recover_pc.splits sum.splits list.splits)
  show "QScheduled J \<notin> set (execute_log env now over u res wid s)" using l by (auto simp: execute_log_def split: option.splits thread_pc.splits)
  show "QScheduled J \<notin> set (timer_log env now k s)" using l by (simp add: timer_log_def)
  show "QScheduled J \<notin> set (replay_log env target entry e)" by (auto simp: replay_log_def split: sum.splits)
qed

definition settled :: "queue_log list \<Rightarrow> string \<Rightarrow> bool" where
  "settled l J \<longleftrightarrow> QCompleted J \<in> set l \<or> (\<exists>r. QLost J r \<in> set l)"

definition env_ok :: "('c, 'o) queue_env \<Rightarrow> bool" where
  "env_ok env \<longleftrightarrow> qe_exec env \<noteq> qe_dlq env \<and> int64_ok (qc_MaxRetries (qe_cfg env)) \<and> int64_ok (qc_VisibilityTimeout (qe_cfg env))"

section \<open>What a stream client keeps\<close>

text \<open>
  The queue needs the contract for its own entries. \<open>keeps\<close> collects what a stretch of client calls
  leaves in place: identifiers stay issued, an issued identifier never gets other fields, every
  entry of the execution stream outside \<open>S\<close> that was waiting is still there and waiting, and every entry of
  the dead-letter stream outside \<open>D\<close> is still there.
\<close>

locale queue_client = stream_client ops ok room live mark pend issued
  for ops :: "('c, msg_fields) stream_ops" and ok room live mark pend issued
begin

definition waiting :: "('c, 'o) queue_env \<Rightarrow> 'c \<Rightarrow> string \<Rightarrow> bool" where
  "waiting env c i \<longleftrightarrow> (\<exists>m. mark c (qe_exec env) (qe_group env) = Some m \<and> idLess m i) \<or> i \<in> pend c (qe_exec env) (qe_group env)"

definition keeps :: "('c, 'o) queue_env \<Rightarrow> string set \<Rightarrow> string set \<Rightarrow> 'c \<Rightarrow> 'c \<Rightarrow> bool" where
  "keeps env S D c c' \<longleftrightarrow> ok c' \<and> (\<forall>i. issued c i \<longrightarrow> issued c' i)
     \<and> (\<forall>n i f. issued c i \<longrightarrow> live c' n i = Some f \<longrightarrow> live c n i = Some f)
     \<and> (\<forall>i f. live c (qe_exec env) i = Some f \<longrightarrow> waiting env c i \<longrightarrow> i \<notin> S \<longrightarrow> live c' (qe_exec env) i = Some f \<and> waiting env c' i)
     \<and> (\<forall>i f. live c (qe_dlq env) i = Some f \<longrightarrow> i \<notin> D \<longrightarrow> live c' (qe_dlq env) i = Some f)
     \<and> (mark c (qe_exec env) (qe_group env) \<noteq> None \<longrightarrow> mark c' (qe_exec env) (qe_group env) \<noteq> None)"

lemma keepsI:
  assumes "ok c'" "\<And>i. issued c i \<Longrightarrow> issued c' i"
    "\<And>n i f. issued c i \<Longrightarrow> live c' n i = Some f \<Longrightarrow> live c n i = Some f"
    "\<And>i f. live c (qe_exec env) i = Some f \<Longrightarrow> waiting env c i \<Longrightarrow> i \<notin> S \<Longrightarrow> live c' (qe_exec env) i = Some f \<and> waiting env c' i"
    "\<And>i f. live c (qe_dlq env) i = Some f \<Longrightarrow> i \<notin> D \<Longrightarrow> live c' (qe_dlq env) i = Some f"
    "mark c (qe_exec env) (qe_group env) \<noteq> None \<Longrightarrow> mark c' (qe_exec env) (qe_group env) \<noteq> None"
  shows "keeps env S D c c'"
  using assms unfolding keeps_def by simp

lemma keepsD:
  assumes "keeps env S D c c'"
  shows "ok c'" "issued c i \<Longrightarrow> issued c' i" "issued c i \<Longrightarrow> live c' n i = Some f \<Longrightarrow> live c n i = Some f"
    "live c (qe_exec env) i = Some f \<Longrightarrow> waiting env c i \<Longrightarrow> i \<notin> S \<Longrightarrow> live c' (qe_exec env) i = Some f \<and> waiting env c' i"
    "live c (qe_dlq env) i = Some f \<Longrightarrow> i \<notin> D \<Longrightarrow> live c' (qe_dlq env) i = Some f"
    "mark c (qe_exec env) (qe_group env) \<noteq> None \<Longrightarrow> mark c' (qe_exec env) (qe_group env) \<noteq> None"
  using assms unfolding keeps_def by simp_all

lemma keeps_refl: "ok c \<Longrightarrow> keeps env {} {} c c"
  by (rule keepsI) simp_all

lemma keeps_mono:
  assumes "keeps env S D c c'" "S \<subseteq> S'" "D \<subseteq> D'"
  shows "keeps env S' D' c c'"
proof (rule keepsI)
  fix i f
  show "live c' (qe_exec env) i = Some f \<and> waiting env c' i" if "live c (qe_exec env) i = Some f" "waiting env c i" "i \<notin> S'"
    using keepsD(4) [OF assms(1) that(1,2)] that(3) assms(2) by blast
  show "live c' (qe_dlq env) i = Some f" if "live c (qe_dlq env) i = Some f" "i \<notin> D'"
    using keepsD(5) [OF assms(1) that(1)] that(2) assms(3) by blast
qed (rule keepsD [OF assms(1)]; assumption)+

lemma keeps_trans:
  assumes "keeps env S D c c'" "keeps env S D c' c''"
  shows "keeps env S D c c''"
proof (rule keepsI)
  fix i f n
  show "live c n i = Some f" if "issued c i" "live c'' n i = Some f"
    using keepsD(2,3) [OF assms(1) that(1)] keepsD(3) [OF assms(2) _ that(2)] by blast
  show "live c'' (qe_exec env) i = Some f \<and> waiting env c'' i" if "live c (qe_exec env) i = Some f" "waiting env c i" "i \<notin> S"
    using keepsD(4) [OF assms(1) that] keepsD(4) [OF assms(2)] that(3) by blast
  show "live c'' (qe_dlq env) i = Some f" if "live c (qe_dlq env) i = Some f" "i \<notin> D"
    using keepsD(5) [OF assms(1) that] keepsD(5) [OF assms(2)] that(2) by blast
qed (use keepsD [OF assms(1)] keepsD [OF assms(2)] in blast)+

section \<open>The client calls of the queue\<close>

lemma keeps_same:
  assumes "ok c'" "live c' = live c" "mark c' = mark c" "pend c' = pend c" "issued c' = issued c"
  shows "keeps env {} {} c c'"
  by (rule keepsI) (simp_all add: assms waiting_def)

lemma keeps_add:
  assumes "ok c" "room c" "so_Add ops now n f c = (c', Inr i)"
  shows "keeps env {} {} c c'" "live c' n i = Some f" "issued c' i" "\<not> issued c i"
    "n = qe_exec env \<Longrightarrow> mark c (qe_exec env) (qe_group env) \<noteq> None \<Longrightarrow> waiting env c' i"
proof -
  note a = add_ok [OF assms]
  have l: "live c' = (live c)(n := (live c n)(i \<mapsto> f))" "mark c' = mark c" "pend c' = pend c" and i: "\<not> issued c i" using a by blast+
  have fresh: "live c m i = None" for m using live_issued [OF assms(1)] i by blast
  show "keeps env {} {} c c'"
  proof (rule keepsI)
    fix m j g
    show "live c m j = Some g" if "issued c j" "live c' m j = Some g"
    proof -
      have "j \<noteq> i" using that(1) i by auto
      then show ?thesis using that(2) l(1) by (auto split: if_splits)
    qed
    show "live c' (qe_exec env) j = Some g \<and> waiting env c' j" if "live c (qe_exec env) j = Some g" "waiting env c j"
      using that fresh l by (auto simp: waiting_def)
    show "live c' (qe_dlq env) j = Some g" if "live c (qe_dlq env) j = Some g" using that fresh l(1) by auto
  qed (use a l(2) in auto)
  show "live c' n i = Some f" "issued c' i" "\<not> issued c i" using l(1) a by auto
  show "waiting env c' i" if "mark c (qe_exec env) (qe_group env) \<noteq> None" using that a l(2) by (auto simp: waiting_def)
qed

lemma keeps_read:
  assumes "ok c" "so_ReadGroup ops clk args c = (c', Inr out)" "\<not> ra_NoAck args"
  shows "keeps env {} {} c c'" "(i, f) \<in> set out \<Longrightarrow> issued c' i \<and> live c' (ra_Stream args) i = Some f"
proof -
  note a = read_ok [OF assms(1,2)]
  let ?n = "ra_Stream args" and ?g = "ra_Group args"
  have l: "live c' = live c" "issued c' = issued c" using a by blast+
  have p: "pend c' = (pend c)(?n := (pend c ?n)(?g := pend c ?n ?g \<union> fst ` set out))" using a assms(3) by simp
  obtain m m' where m: "mark c ?n ?g = Some m" "mark c' = (mark c)(?n := (mark c ?n)(?g \<mapsto> m'))"
    "\<And>i. live c ?n i \<noteq> None \<Longrightarrow> idLess m i \<Longrightarrow> \<not> idLess m' i \<Longrightarrow> i \<in> fst ` set out"
    "\<And>i f. (i, f) \<in> set out \<Longrightarrow> live c ?n i = Some f" using a by blast
  show "keeps env {} {} c c'"
  proof (rule keepsI)
    fix j g assume j: "live c (qe_exec env) j = Some g" "waiting env c j"
    have "waiting env c' j"
    proof (cases "qe_exec env = ?n \<and> qe_group env = ?g")
      case True
      then show ?thesis using j m(1,2) m(3) [of j] by (auto simp: waiting_def p)
    next
      case False
      then show ?thesis using j(2) m(2) by (auto simp: waiting_def p)
    qed
    then show "live c' (qe_exec env) j = Some g \<and> waiting env c' j" using j(1) l by simp
  qed (use a m(2) l in auto)
  show "issued c' i \<and> live c' ?n i = Some f" if "(i, f) \<in> set out" using m(4) [OF that] l live_issued [OF assms(1)] by auto
qed

lemma keeps_ack:
  assumes "ok c" "so_Ack ops n g [i] c = (c', r)"
  shows "keeps env (if n = qe_exec env \<and> g = qe_group env then {i} else {}) {} c c'"
proof (cases r)
  case (Inl e)
  then have "c' = c" using ack_err assms by blast
  then show ?thesis using keeps_mono [OF keeps_refl [OF assms(1)]] by auto
next
  case (Inr k)
  note a = ack_ok [OF assms [unfolded Inr]]
  show ?thesis by (rule keepsI) (use a in \<open>auto simp: waiting_def split: if_splits\<close>)
qed

lemma keeps_delete:
  assumes "ok c" "so_Delete ops n [i] c = (c', r)"
  shows "keeps env (if n = qe_exec env then {i} else {}) (if n = qe_dlq env then {i} else {}) c c'"
proof (cases r)
  case (Inl e)
  then have "c' = c" using delete_err assms by blast
  then show ?thesis using keeps_mono [OF keeps_refl [OF assms(1)]] by auto
next
  case (Inr k)
  note a = delete_ok [OF assms [unfolded Inr]]
  show ?thesis by (rule keepsI) (use a in \<open>auto simp: waiting_def split: if_splits\<close>)
qed

lemma keeps_claim:
  assumes "ok c" "so_AutoClaim ops now args c = (c', Inr (cur, out))"
  shows "keeps env {} {} c c'" "(i, f) \<in> set out \<Longrightarrow> issued c' i \<and> live c' (ca_Stream args) i = Some f"
proof -
  note a = claim_ok [OF assms]
  have l: "live c' = live c" "mark c' = mark c" "issued c' = issued c" using a by blast+
  show "keeps env {} {} c c'"
  proof (rule keepsI)
    fix j g assume j: "live c (qe_exec env) j = Some g" "waiting env c j"
    have "j \<in> pend c' (qe_exec env) (qe_group env)" if "j \<in> pend c (qe_exec env) (qe_group env)" using a that j(1) by auto
    then show "live c' (qe_exec env) j = Some g \<and> waiting env c' j" using j l by (auto simp: waiting_def)
  qed (use a l in auto)
  show "issued c' i \<and> live c' (ca_Stream args) i = Some f" if "(i, f) \<in> set out"
  proof -
    have "live c (ca_Stream args) i = Some f" using a that by blast
    then show ?thesis using l live_issued [OF assms(1)] by auto
  qed
qed

lemma keeps_group:
  assumes "ok c" "so_CreateGroup ops n g start c = (c', e)" "n \<noteq> qe_exec env"
  shows "keeps env {} {} c c'"
proof (cases e)
  case (Some x)
  then have "c' = c" using group_err assms by blast
  then show ?thesis using keeps_refl [OF assms(1)] by simp
next
  case None
  note a = group_ok [OF assms(1) assms(2) [unfolded None]]
  have "mark c' (qe_exec env) = mark c (qe_exec env)" using a assms(3) by (auto split: if_splits)
  then show ?thesis using a by (intro keepsI) (auto simp: waiting_def)
qed

section \<open>What the goroutines hold\<close>

text \<open>
  An entry, a message or a cached stream id that a goroutine holds belongs to an issued identifier, and
  while the entry lives it is the entry of that job.
\<close>

definition entry_of :: "('c, 'o) queue_env \<Rightarrow> 'c \<Rightarrow> string \<Rightarrow> string \<Rightarrow> bool" where
  "entry_of env c i J \<longleftrightarrow> (\<forall>f. live c (qe_exec env) i = Some f \<longrightarrow> (\<exists>y. Unmarshal i f = Inr y \<and> qm_JobID y = J))"

definition held_entry :: "('c, 'o) queue_env \<Rightarrow> 'c \<Rightarrow> string \<times> msg_fields \<Rightarrow> bool" where
  "held_entry env c e \<longleftrightarrow> issued c (fst e) \<and> (\<forall>f. live c (qe_exec env) (fst e) = Some f \<longrightarrow> f = snd e)"

definition held_msg :: "('c, 'o) queue_env \<Rightarrow> 'c \<Rightarrow> qmessage \<Rightarrow> bool" where
  "held_msg env c m \<longleftrightarrow> issued c (qm_StreamID m) \<and> msg_ints m \<and> entry_of env c (qm_StreamID m) (qm_JobID m)"

definition held_id :: "('c, 'o) queue_env \<Rightarrow> 'c \<Rightarrow> string \<Rightarrow> string \<Rightarrow> bool" where
  "held_id env c J i \<longleftrightarrow> issued c i \<and> entry_of env c i (json_text J)"

definition held_timer :: "('c, 'o) queue_env \<Rightarrow> qmessage \<Rightarrow> bool" where
  "held_timer env m \<longleftrightarrow> msg_ints m \<and> qm_RetryCount m \<le> max_retries (qe_cfg env) m"

lemma held_keeps:
  assumes "keeps env S D c c'"
  shows "issued c i \<Longrightarrow> entry_of env c i J \<Longrightarrow> entry_of env c' i J" "held_entry env c e \<Longrightarrow> held_entry env c' e"
    "held_msg env c m \<Longrightarrow> held_msg env c' m" "held_id env c J i \<Longrightarrow> held_id env c' J i"
proof -
  show e: "entry_of env c' i J" if "issued c i" "entry_of env c i J" for i J
    using that keepsD(3) [OF assms that(1)] by (auto simp: entry_of_def)
  show "held_entry env c' e" if "held_entry env c e" using that keepsD(2,3) [OF assms] by (auto simp: held_entry_def)
  show "held_msg env c' m" if "held_msg env c m" using that keepsD(2) [OF assms] e by (auto simp: held_msg_def)
  show "held_id env c' J i" if "held_id env c J i" using that keepsD(2) [OF assms] e by (auto simp: held_id_def)
qed

definition thread_msgs :: "worker_thread \<Rightarrow> qmessage set" where
  "thread_msgs t = set (wt_jobCh t) \<union> (case wt_pc t of Running m start \<Rightarrow> {m} | _ \<Rightarrow> {})"

definition sys_ok :: "('c, 'o) queue_env \<Rightarrow> ('c, 'o) queue_sys \<Rightarrow> bool" where
  "sys_ok env s \<longleftrightarrow> ok (qs_client s) \<and> mark (qs_client s) (qe_exec env) (qe_group env) \<noteq> None
     \<and> (\<forall>w t m. map_of (qs_threads s) w = Some t \<longrightarrow> m \<in> thread_msgs t \<longrightarrow> held_msg env (qs_client s) m)
     \<and> (\<forall>w e. qs_fetch s = FetchHave w e \<longrightarrow> held_entry env (qs_client s) e)
     \<and> (\<forall>start cur es e. qs_recover s = RecoverEntries start cur es \<longrightarrow> e \<in> set es \<longrightarrow> held_entry env (qs_client s) e)
     \<and> (\<forall>t d. (t, d) \<in> set (qs_timers s) \<longrightarrow> held_timer env t)
     \<and> (\<forall>J i. map_of (qs_jobStreamIDs s) J = Some i \<longrightarrow> held_id env (qs_client s) J i)"

lemma sys_okI:
  assumes "ok (qs_client s)" "mark (qs_client s) (qe_exec env) (qe_group env) \<noteq> None"
    "\<And>w t m. map_of (qs_threads s) w = Some t \<Longrightarrow> m \<in> thread_msgs t \<Longrightarrow> held_msg env (qs_client s) m"
    "\<And>w e. qs_fetch s = FetchHave w e \<Longrightarrow> held_entry env (qs_client s) e"
    "\<And>start cur es e. qs_recover s = RecoverEntries start cur es \<Longrightarrow> e \<in> set es \<Longrightarrow> held_entry env (qs_client s) e"
    "\<And>t d. (t, d) \<in> set (qs_timers s) \<Longrightarrow> held_timer env t"
    "\<And>J i. map_of (qs_jobStreamIDs s) J = Some i \<Longrightarrow> held_id env (qs_client s) J i"
  shows "sys_ok env s"
  using assms unfolding sys_ok_def by blast

lemma sys_okD:
  assumes "sys_ok env s"
  shows "ok (qs_client s)" "mark (qs_client s) (qe_exec env) (qe_group env) \<noteq> None"
    "map_of (qs_threads s) w = Some t \<Longrightarrow> m \<in> thread_msgs t \<Longrightarrow> held_msg env (qs_client s) m"
    "qs_fetch s = FetchHave w e \<Longrightarrow> held_entry env (qs_client s) e"
    "qs_recover s = RecoverEntries start cur es \<Longrightarrow> e \<in> set es \<Longrightarrow> held_entry env (qs_client s) e"
    "(t', d) \<in> set (qs_timers s) \<Longrightarrow> held_timer env t'"
    "map_of (qs_jobStreamIDs s) J = Some i \<Longrightarrow> held_id env (qs_client s) J i"
  using assms unfolding sys_ok_def by blast+

text \<open>A step that adds nothing to what is held.\<close>

lemma sys_ok_step:
  assumes "sys_ok env s" "keeps env S D (qs_client s) (qs_client s')"
    "\<And>w t m. map_of (qs_threads s') w = Some t \<Longrightarrow> m \<in> thread_msgs t \<Longrightarrow>
      held_msg env (qs_client s) m \<or> (\<exists>w' t'. map_of (qs_threads s) w' = Some t' \<and> m \<in> thread_msgs t')"
    "\<And>w e. qs_fetch s' = FetchHave w e \<Longrightarrow> qs_fetch s = FetchHave w e"
    "\<And>start cur es e. qs_recover s' = RecoverEntries start cur es \<Longrightarrow> e \<in> set es \<Longrightarrow>
      \<exists>start cur es. qs_recover s = RecoverEntries start cur es \<and> e \<in> set es"
    "\<And>t d. (t, d) \<in> set (qs_timers s') \<Longrightarrow> (t, d) \<in> set (qs_timers s) \<or> held_timer env t"
    "\<And>J i. map_of (qs_jobStreamIDs s') J = Some i \<Longrightarrow> map_of (qs_jobStreamIDs s) J = Some i"
  shows "sys_ok env s'"
proof (rule sys_okI)
  note h = held_keeps [OF assms(2)] and k = keepsD [OF assms(2)] and o = sys_okD [OF assms(1)]
  show "ok (qs_client s')" by (rule k(1))
  show "mark (qs_client s') (qe_exec env) (qe_group env) \<noteq> None" by (rule k(6) [OF o(2)])
  show "held_msg env (qs_client s') m" if "map_of (qs_threads s') w = Some t" "m \<in> thread_msgs t" for w t m
    using assms(3) [OF that] o(3) by (blast intro: h(3))
  show "held_entry env (qs_client s') e" if "qs_fetch s' = FetchHave w e" for w e by (rule h(2) [OF o(4) [OF assms(4) [OF that]]])
  show "held_entry env (qs_client s') e" if "qs_recover s' = RecoverEntries start cur es" "e \<in> set es" for start cur es e
    using assms(5) [OF that] o(5) by (blast intro: h(2))
  show "held_timer env t" if "(t, d) \<in> set (qs_timers s')" for t d using assms(6) [OF that] o(6) by blast
  show "held_id env (qs_client s') J i" if "map_of (qs_jobStreamIDs s') J = Some i" for J i
    by (rule h(4) [OF o(7) [OF assms(7) [OF that]]])
qed

section \<open>Where a job is\<close>

definition lives :: "'c \<Rightarrow> string \<Rightarrow> string \<Rightarrow> string \<Rightarrow> bool" where
  "lives c n i J \<longleftrightarrow> (\<exists>f y. live c n i = Some f \<and> Unmarshal i f = Inr y \<and> qm_JobID y = J)"

definition job_at :: "('c, 'o) queue_env \<Rightarrow> ('c, 'o) queue_sys \<Rightarrow> string \<Rightarrow> bool" where
  "job_at env s J \<longleftrightarrow> (\<exists>i. lives (qs_client s) (qe_exec env) i J \<and> waiting env (qs_client s) i)
     \<or> (\<exists>t d. (t, d) \<in> set (qs_timers s) \<and> qm_JobID t = J) \<or> (\<exists>i. lives (qs_client s) (qe_dlq env) i J)"

lemma lives_keeps:
  assumes "keeps env S D c c'"
  shows "lives c (qe_exec env) i J \<Longrightarrow> waiting env c i \<Longrightarrow> i \<notin> S \<Longrightarrow> lives c' (qe_exec env) i J \<and> waiting env c' i"
    "lives c (qe_dlq env) i J \<Longrightarrow> i \<notin> D \<Longrightarrow> lives c' (qe_dlq env) i J"
  using keepsD(4,5) [OF assms] unfolding lives_def by blast+

lemma job_at_step:
  assumes "job_at env s J" "keeps env S D (qs_client s) (qs_client s')"
    "\<And>t d. (t, d) \<in> set (qs_timers s) \<Longrightarrow> (t, d) \<in> set (qs_timers s') \<or> qm_JobID t = J'"
    "\<And>i. i \<in> S \<Longrightarrow> lives (qs_client s) (qe_exec env) i J \<Longrightarrow> J = J'"
    "\<And>i. i \<in> D \<Longrightarrow> lives (qs_client s) (qe_dlq env) i J \<Longrightarrow> J = J'"
  shows "job_at env s' J \<or> J = J'"
proof -
  consider i where "lives (qs_client s) (qe_exec env) i J" "waiting env (qs_client s) i"
    | t d where "(t, d) \<in> set (qs_timers s)" "qm_JobID t = J" | i where "lives (qs_client s) (qe_dlq env) i J"
    using assms(1) unfolding job_at_def by blast
  then show ?thesis
  proof cases
    case 1
    then show ?thesis using lives_keeps(1) [OF assms(2) 1] assms(4) [OF _ 1(1)] unfolding job_at_def by blast
  next
    case 2
    then show ?thesis using assms(3) [OF 2(1)] unfolding job_at_def by blast
  next
    case 3
    then show ?thesis using lives_keeps(2) [OF assms(2) 3] assms(5) [OF _ 3] unfolding job_at_def by blast
  qed
qed

lemma job_at_same:
  assumes "job_at env s J" "keeps env {} {} (qs_client s) (qs_client s')" "set (qs_timers s) \<subseteq> set (qs_timers s')"
  shows "job_at env s' J"
  using job_at_step [OF assms(1,2), of "CHR ''x'' # J"] assms(3) by auto

lemma entry_of_lives: "entry_of env c i J' \<Longrightarrow> lives c (qe_exec env) i J \<Longrightarrow> J = J'"
  by (auto simp: entry_of_def lives_def)

text \<open>What every step shows: what is held stays well-formed, and a job that was somewhere is still
  somewhere, or the step records that it is settled.\<close>

definition good :: "('c, 'o) queue_env \<Rightarrow> ('c, 'o) queue_sys \<Rightarrow> ('c, 'o) queue_sys \<Rightarrow> queue_log list \<Rightarrow> bool" where
  "good env s s' l \<longleftrightarrow> sys_ok env s' \<and> (\<forall>J. utf8_valid J \<longrightarrow> job_at env s J \<longrightarrow> job_at env s' J \<or> settled l J)"

lemma good_trans: "good env s s1 l1 \<Longrightarrow> good env s1 s' l2 \<Longrightarrow> good env s s' (l1 @ l2)"
  unfolding good_def settled_def by (auto; blast)

lemma good_frame:
  assumes "sys_ok env s" "keeps env {} {} (qs_client s) (qs_client s')" "set (qs_timers s) = set (qs_timers s')"
    "\<And>w t m. map_of (qs_threads s') w = Some t \<Longrightarrow> m \<in> thread_msgs t \<Longrightarrow>
      held_msg env (qs_client s) m \<or> (\<exists>w' t'. map_of (qs_threads s) w' = Some t' \<and> m \<in> thread_msgs t')"
    "\<And>w e. qs_fetch s' = FetchHave w e \<Longrightarrow> qs_fetch s = FetchHave w e"
    "\<And>start cur es e. qs_recover s' = RecoverEntries start cur es \<Longrightarrow> e \<in> set es \<Longrightarrow>
      \<exists>start cur es. qs_recover s = RecoverEntries start cur es \<and> e \<in> set es"
    "\<And>J i. map_of (qs_jobStreamIDs s') J = Some i \<Longrightarrow> map_of (qs_jobStreamIDs s) J = Some i"
  shows "good env s s' []"
  unfolding good_def using sys_ok_step [OF assms(1,2,4,5,6) _ assms(7)] job_at_same [OF _ assms(2)] assms(3) by simp

section \<open>Writing messages\<close>

lemma lives_add:
  assumes "ok c" "room c" "so_Add ops now n fs c = (c', Inr i)" "msg_ints m" "Marshal m = Inr fs" "utf8_valid (qm_JobID m)"
  shows "lives c' n i (qm_JobID m)"
  using keeps_add(2) [OF assms(1-3)] Marshal_job [OF assms(4,5), of i] json_text_valid [OF assms(6)] by (auto simp: lives_def)

lemma dlq_Send_keeps:
  assumes "qe_ops env = ops" "ok c" "room c" "msg_ints m" "dlq_Send env now m reason c = (c', e, evs)"
  shows "keeps env {} {} c c'" "e = None \<Longrightarrow> utf8_valid (qm_JobID m) \<Longrightarrow> \<exists>i. lives c' (qe_dlq env) i (qm_JobID m)"
proof -
  let ?m = "dlq_message env (now 0) reason m"
  have m: "msg_ints ?m" "qm_JobID ?m = qm_JobID m" using assms(4) by (simp_all add: dlq_message_def msg_ints_def)
  have "keeps env {} {} c c' \<and> (e = None \<longrightarrow> utf8_valid (qm_JobID m) \<longrightarrow> (\<exists>i. lives c' (qe_dlq env) i (qm_JobID m)))"
  proof (cases "Marshal ?m")
    case (Inl x)
    then show ?thesis using assms(5) keeps_refl [OF assms(2)] by (auto simp: dlq_Send_def Let_def)
  next
    case (Inr fs)
    obtain c1 r where a: "so_Add ops (now 1) (qe_dlq env) fs c = (c1, r)" by fastforce
    show ?thesis
    proof (cases r)
      case (Inl x)
      then have "c1 = c" using add_err [OF assms(2)] a by blast
      then show ?thesis using assms(1,5) a Inr Inl keeps_refl [OF assms(2)] by (auto simp: dlq_Send_def Let_def)
    next
      case r: (Inr i)
      then have "c1 = c'" "e = None" using assms(1,5) a Inr by (auto simp: dlq_Send_def Let_def)
      then show ?thesis using keeps_add(1) [OF assms(2,3) a [unfolded r]] lives_add [OF assms(2,3) a [unfolded r] m(1) Inr] m(2) by auto
    qed
  qed
  then show "keeps env {} {} c c'" "e = None \<Longrightarrow> utf8_valid (qm_JobID m) \<Longrightarrow> \<exists>i. lives c' (qe_dlq env) i (qm_JobID m)" by blast+
qed

lemma requeue_keeps:
  assumes "qe_ops env = ops" "ok c" "room c" "mark c (qe_exec env) (qe_group env) \<noteq> None" "msg_ints m" "requeue env now m c = (c', e, evs)"
  shows "keeps env {} {} c c'" "e = None \<Longrightarrow> utf8_valid (qm_JobID m) \<Longrightarrow>
    (\<exists>i. lives c' (qe_exec env) i (qm_JobID m) \<and> waiting env c' i) \<or> (\<exists>i. lives c' (qe_dlq env) i (qm_JobID m))"
proof -
  let ?m = "requeue_message (now 0) m"
  have m: "msg_ints ?m" "qm_JobID ?m = qm_JobID m" using assms(5) by (simp_all add: requeue_message_def msg_ints_def)
  have "keeps env {} {} c c' \<and> (e = None \<longrightarrow> utf8_valid (qm_JobID m) \<longrightarrow>
    (\<exists>i. lives c' (qe_exec env) i (qm_JobID m) \<and> waiting env c' i) \<or> (\<exists>i. lives c' (qe_dlq env) i (qm_JobID m)))"
  proof (cases "Marshal ?m")
    case (Inl x)
    then show ?thesis using assms(6) keeps_refl [OF assms(2)] by (auto simp: requeue_def Let_def)
  next
    case (Inr fs)
    obtain c1 r where a: "so_Add ops (now 1) (qe_exec env) fs c = (c1, r)" by fastforce
    show ?thesis
    proof (cases r)
      case (Inl x)
      then have "c1 = c" using add_err [OF assms(2)] a by blast
      then have "dlq_Send env (\<lambda>n. now (n + 2)) ?m (''failed to enqueue retry: '' @ qe_error_text env x) c = (c', e, evs)"
        using assms(1,6) a Inr Inl by (simp add: requeue_def Let_def)
      then show ?thesis using dlq_Send_keeps [OF assms(1-3) m(1)] m(2) by metis
    next
      case r: (Inr i)
      then have "c1 = c'" "e = None" using assms(1,6) a Inr by (auto simp: requeue_def Let_def)
      then show ?thesis using keeps_add(1,5) [OF assms(2,3) a [unfolded r]] lives_add [OF assms(2,3) a [unfolded r] m(1) Inr] m(2) assms(4) by auto
    qed
  qed
  then show "keeps env {} {} c c'" "e = None \<Longrightarrow> utf8_valid (qm_JobID m) \<Longrightarrow>
    (\<exists>i. lives c' (qe_exec env) i (qm_JobID m) \<and> waiting env c' i) \<or> (\<exists>i. lives c' (qe_dlq env) i (qm_JobID m))" by blast+
qed

lemma ScheduleRetry_keeps:
  assumes "qe_ops env = ops" "env_ok env" "ok c" "room c" "msg_ints m" "ScheduleRetry env now over u m err c = (c', e, timer, evs)"
  shows "keeps env {} {} c c'" "\<And>t d. timer = Some (t, d) \<Longrightarrow> held_timer env t"
    "e = None \<Longrightarrow> utf8_valid (qm_JobID m) \<Longrightarrow> (\<exists>t d. timer = Some (t, d) \<and> qm_JobID t = qm_JobID m) \<or> (\<exists>i. lives c' (qe_dlq env) i (qm_JobID m))"
proof -
  have ints: "held_timer env (m\<lparr>qm_RetryCount := qm_RetryCount m + 1, qm_State := MsgRetry, qm_ScheduleTime := t\<rparr>)"
    if "qm_RetryCount m < max_retries (qe_cfg env) m" for t
    using that assms(2,5) by (auto simp: held_timer_def msg_ints_def max_retries_def int64_ok_def env_ok_def split: if_splits)
  have "keeps env {} {} c c' \<and> (\<forall>t d. timer = Some (t, d) \<longrightarrow> held_timer env t) \<and> (e = None \<longrightarrow> utf8_valid (qm_JobID m) \<longrightarrow>
    (\<exists>t d. timer = Some (t, d) \<and> qm_JobID t = qm_JobID m) \<or> (\<exists>i. lives c' (qe_dlq env) i (qm_JobID m)))"
  proof (cases "max_retries (qe_cfg env) m \<le> qm_RetryCount m")
    case True
    obtain c1 e1 evs1 where d: "dlq_Send env now m (retry_reason (qm_RetryCount m) (max_retries (qe_cfg env) m) err) c = (c1, e1, evs1)"
      by (metis prod_cases3)
    then show ?thesis using assms(6) True dlq_Send_keeps [OF assms(1,3,4,5) d] by (auto simp: ScheduleRetry_def)
  next
    case False
    then show ?thesis using assms(6) ints keeps_refl [OF assms(3)] by (auto simp: ScheduleRetry_def Let_def)
  qed
  then show "keeps env {} {} c c'" "\<And>t d. timer = Some (t, d) \<Longrightarrow> held_timer env t"
    "e = None \<Longrightarrow> utf8_valid (qm_JobID m) \<Longrightarrow> (\<exists>t d. timer = Some (t, d) \<and> qm_JobID t = qm_JobID m) \<or> (\<exists>i. lives c' (qe_dlq env) i (qm_JobID m))"
    by blast+
qed

lemma ackDelete_keeps:
  assumes "qe_ops env = ops" "env_ok env" "ok (qs_client s)"
  shows "keeps env {i} {} (qs_client s) (qs_client (qs_ackDelete env i s))"
proof -
  obtain c1 r1 where a: "so_Ack ops (qe_exec env) (qe_group env) [i] (qs_client s) = (c1, r1)" by fastforce
  obtain c2 r2 where d: "so_Delete ops (qe_exec env) [i] c1 = (c2, r2)" by fastforce
  have k: "keeps env {i} {} (qs_client s) c1" using keeps_ack [OF assms(3) a, of env] by simp
  have "keeps env {i} {} c1 c2" using keeps_delete [OF keepsD(1) [OF k] d, of env] assms(2) by (simp add: env_ok_def)
  then show ?thesis using keeps_trans [OF k] a d assms(1) by (simp add: qs_ackDelete_def Let_def)
qed

lemma ackDelete_frame [simp]:
  "qs_threads (qs_ackDelete env i s) = qs_threads s" "qs_fetch (qs_ackDelete env i s) = qs_fetch s" "qs_recover (qs_ackDelete env i s) = qs_recover s"
  "qs_timers (qs_ackDelete env i s) = qs_timers s" "qs_jobStreamIDs (qs_ackDelete env i s) = qs_jobStreamIDs s"
  by (simp_all add: qs_ackDelete_def Let_def)

section \<open>The steps\<close>

lemma good_quiet:
  assumes "sys_ok env s"
  shows "good env s (event_listener ev s) []" "good env s (heartbeat_tick now wid s) []" "good env s (monitor_tick env t later s) []"
    "recover_tick s = Some s' \<Longrightarrow> good env s s' []" "fetch_worker s = Some s' \<Longrightarrow> good env s s' []"
proof -
  note k = keeps_refl [OF sys_okD(1) [OF assms], of env]
  show "good env s (event_listener ev s) []" using k
    by (intro good_frame [OF assms]) (auto simp: event_listener_def split: if_splits)
  show "good env s (heartbeat_tick now wid s) []" "good env s (monitor_tick env t later s) []" using k
    by (auto intro!: good_frame [OF assms] simp: heartbeat_tick_def monitor_tick_def qs_publish_def split: prod.splits)
  show "recover_tick s = Some s' \<Longrightarrow> good env s s' []" "fetch_worker s = Some s' \<Longrightarrow> good env s s' []" using k
    by (auto intro!: good_frame [OF assms] simp: recover_tick_def fetch_worker_def split: recover_pc.splits fetch_pc.splits list.splits)
qed

lemma thread_update:
  assumes "map_of ts wid = Some t" "thread_msgs t1 \<subseteq> thread_msgs t" "map_of (AList.update wid t1 ts) w = Some t0" "m \<in> thread_msgs t0"
  shows "\<exists>w' t'. map_of ts w' = Some t' \<and> m \<in> thread_msgs t'"
proof (cases "w = wid")
  case True
  then show ?thesis using assms by auto
next
  case False
  then show ?thesis using assms(3,4) by auto
qed

lemma good_worker:
  assumes "sys_ok env s"
  shows "worker_push env wid s = Some s' \<Longrightarrow> good env s s' []" "execute_begin env now wid s = Some s' \<Longrightarrow> good env s s' []"
    "worker_exit wid s = Some s' \<Longrightarrow> good env s s' []"
proof -
  note k = keeps_refl [OF sys_okD(1) [OF assms], of env]
  show "good env s s' []" if "worker_push env wid s = Some s'" using k that
    by (intro good_frame [OF assms]) (auto simp: worker_push_def thread_msgs_def split: option.splits if_splits)
  show "good env s s' []" if "worker_exit wid s = Some s'" using k that
    by (intro good_frame [OF assms]) (auto simp: worker_exit_def split: option.splits thread_pc.splits if_splits)
  show "good env s s' []" if b: "execute_begin env now wid s = Some s'"
  proof -
    obtain t msg rest where t: "map_of (qs_threads s) wid = Some t" "wt_pc t = WaitJob" "wt_jobCh t = msg # rest"
      using b by (auto simp: execute_begin_def split: option.splits thread_pc.splits list.splits)
    have f: "qs_client s' = qs_client s" "qs_timers s' = qs_timers s" "qs_fetch s' = qs_fetch s" "qs_recover s' = qs_recover s"
      "qs_jobStreamIDs s' = qs_jobStreamIDs s"
      using b t by (auto simp: execute_begin_def qs_setReg_def Let_def split: option.splits prod.splits)
    obtain p where th: "qs_threads s' = AList.update wid \<lparr>wt_jobCh = rest, wt_pc = p\<rparr> (qs_threads s)" "p = PushIdle \<or> (\<exists>st. p = Running msg st)"
      using b t by (auto simp: execute_begin_def qs_setReg_def Let_def split: option.splits prod.splits)
    then have "thread_msgs \<lparr>wt_jobCh = rest, wt_pc = p\<rparr> \<subseteq> thread_msgs t" using t(2,3) by (auto simp: thread_msgs_def)
    from thread_update [OF t(1) this]
    have "\<exists>w' t'. map_of (qs_threads s) w' = Some t' \<and> m \<in> thread_msgs t'" if "map_of (qs_threads s') w = Some t0" "m \<in> thread_msgs t0" for w t0 m
      using that th(1) by simp
    then show ?thesis using k by (intro good_frame [OF assms]) (simp_all add: f)
  qed
qed

lemma good_schedule:
  assumes "qe_ops env = ops" "env_ok env" "sys_ok env s" "room (qs_client s)" "job_ints j" "mgr_Schedule env now j s = (s', None)"
  shows "good env s s' []" "job_at env s' (json_text (j_ID j))"
proof -
  define m where "m = (job_message env (now 0) j)\<lparr>qm_State := MsgQueued, qm_EnqueueTime := now 1\<rparr>"
  have m: "msg_ints m" "qm_JobID m = j_ID j" using assms(2,5) by (simp_all add: m_def job_message_def msg_ints_def job_ints_def env_ok_def int64_ok_def)
  obtain fs c i where fs: "Marshal m = Inr fs" and a: "so_Add ops (now 2) (qe_exec env) fs (qs_client s) = (c, Inr i)"
    and f: "qs_client s' = c" "qs_timers s' = qs_timers s" "qs_threads s' = qs_threads s" "qs_fetch s' = qs_fetch s" "qs_recover s' = qs_recover s"
      "qs_jobStreamIDs s' = AList.update (j_ID j) i (qs_jobStreamIDs s)"
    using assms(1,6) unfolding mgr_Schedule_def prod_Publish_def Let_def
    by (auto simp: job_message_def m_def qs_publish_def numeral_2_eq_2 split: if_splits sum.splits prod.splits)
  note o = sys_okD [OF assms(3)]
  note k = keeps_add [OF o(1) assms(4) a]
  have l: "lives c (qe_exec env) i (json_text (j_ID j))"
    using k(2) Marshal_job [OF m(1) fs, of i] m(2) by (auto simp: lives_def)
  have h: "held_id env c (j_ID j) i" using k(2,3) l by (auto simp: held_id_def entry_of_def lives_def)
  have "sys_ok env s'"
  proof (rule sys_okI, unfold f(1-5))
    note hk = held_keeps [OF k(1)]
    show "ok c" "mark c (qe_exec env) (qe_group env) \<noteq> None" by (rule keepsD(1) [OF k(1)], rule keepsD(6) [OF k(1) o(2)])
    show "held_id env c J i'" if "map_of (qs_jobStreamIDs s') J = Some i'" for J i'
      using that h hk(4) [OF o(7)] by (auto simp: f(6) split: if_splits)
  qed (use o held_keeps [OF k(1)] in blast)+
  then show "good env s s' []" unfolding good_def using job_at_same [of env s _ s'] k(1) f by auto
  show "job_at env s' (json_text (j_ID j))" unfolding job_at_def f using l k(5) o(2) by blast
qed

lemma good_schedule_err:
  assumes "qe_ops env = ops" "sys_ok env s" "mgr_Schedule env now j s = (s', Some e)"
  shows "good env s s' []"
proof -
  have "qs_client s' = qs_client s" using assms(1,3) add_err [OF sys_okD(1) [OF assms(2)]]
    by (auto simp: mgr_Schedule_def prod_Publish_def Let_def qs_publish_def split: if_splits sum.splits prod.splits)
  then show ?thesis using keeps_refl [OF sys_okD(1) [OF assms(2)], of env] assms(3)
    by (intro good_frame [OF assms(2)]) (auto simp: mgr_Schedule_def qs_publish_def split: sum.splits prod.splits)
qed

lemma good_cancel:
  assumes "qe_ops env = ops" "env_ok env" "sys_ok env s" "mgr_Cancel env i s = (s', e)"
  shows "good env s s' (if e = None \<and> gm_has (qs_jobStreamIDs s) i then [QLost (json_text i) Cancelled] else [])"
proof (cases "map_of (qs_jobStreamIDs s) i")
  case None
  then have "s' = s" using assms(4) by (simp add: mgr_Cancel_def)
  then show ?thesis using None assms(3) by (simp add: good_def gm_has_def)
next
  case (Some sid)
  note o = sys_okD [OF assms(3)]
  obtain c r where d: "so_Delete ops (qe_exec env) [sid] (qs_client s) = (c, r)" by fastforce
  show ?thesis
  proof (cases r)
    case (Inl x)
    then have "s' = s" "e = Some x" using assms(1,4) Some d delete_err [OF o(1)] by (auto simp: mgr_Cancel_def)
    then show ?thesis using assms(3) by (simp add: good_def)
  next
    case (Inr x)
    have f: "e = None" "qs_client s' = c" "qs_timers s' = qs_timers s" "qs_threads s' = qs_threads s" "qs_fetch s' = qs_fetch s"
      "qs_recover s' = qs_recover s" "qs_jobStreamIDs s' = AList.delete i (qs_jobStreamIDs s)"
      using assms(1,4) Some d Inr by (auto simp: mgr_Cancel_def)
    have k: "keeps env {sid} {} (qs_client s) (qs_client s')" using keeps_delete [OF o(1) d, of env] assms(2) f(2) by (simp add: env_ok_def)
    have "sys_ok env s'" by (intro sys_ok_step [OF assms(3) k]) (auto simp: f split: if_splits)
    moreover have "entry_of env (qs_client s) sid (json_text i)" using o(7) [OF Some] by (simp add: held_id_def)
    then have "job_at env s' J \<or> J = json_text i" if "job_at env s J" for J
      by (intro job_at_step [OF that k]) (auto simp: f dest: entry_of_lives)
    ultimately show ?thesis using f(1) Some by (auto simp: good_def settled_def gm_has_def)
  qed
qed

lemma ReleaseWorker_frame [simp]:
  "qs_client (ReleaseWorker env w s) = qs_client s" "qs_timers (ReleaseWorker env w s) = qs_timers s"
  "qs_threads (ReleaseWorker env w s) = qs_threads s" "qs_fetch (ReleaseWorker env w s) = qs_fetch s"
  "qs_recover (ReleaseWorker env w s) = qs_recover s" "qs_jobStreamIDs (ReleaseWorker env w s) = qs_jobStreamIDs s"
  by (simp_all add: ReleaseWorker_def)

text \<open>Dropping an entry loses at most the job of that entry.\<close>

lemma drop_good:
  assumes "qe_ops env = ops" "env_ok env" "sys_ok env s"
  shows "sys_ok env (cons_drop env i wid s)"
    "job_at env s J \<Longrightarrow> (lives (qs_client s) (qe_exec env) i J \<Longrightarrow> J = J') \<Longrightarrow> job_at env (cons_drop env i wid s) J \<or> J = J'"
proof -
  have k: "keeps env {i} {} (qs_client s) (qs_client (cons_drop env i wid s))"
    using ackDelete_keeps [OF assms(1,2) sys_okD(1) [OF assms(3)]] by (simp add: cons_drop_def)
  show "sys_ok env (cons_drop env i wid s)" by (intro sys_ok_step [OF assms(3) k]) (auto simp: cons_drop_def)
  show "job_at env (cons_drop env i wid s) J \<or> J = J'" if "job_at env s J" "lives (qs_client s) (qe_exec env) i J \<Longrightarrow> J = J'"
    using that(2) by (intro job_at_step [OF that(1) k]) (auto simp: cons_drop_def)
qed

lemma sys_ok_cong:
  assumes "sys_ok env s" "qs_client s' = qs_client s" "qs_timers s' = qs_timers s" "qs_threads s' = qs_threads s" "qs_fetch s' = qs_fetch s"
    "qs_recover s' = qs_recover s" "qs_jobStreamIDs s' = qs_jobStreamIDs s"
  shows "sys_ok env s'"
  using assms(1) unfolding sys_ok_def assms(2-7) .

lemma job_at_cong: "qs_client s' = qs_client s \<Longrightarrow> qs_timers s' = qs_timers s \<Longrightarrow> job_at env s' J = job_at env s J"
  by (simp add: job_at_def)

lemma good_dispatch:
  assumes "qe_ops env = ops" "env_ok env" "sys_ok env s" "held_msg env (qs_client s) msg"
    "cons_dispatch env now (qm_StreamID msg) msg wid s = Some s'"
  shows "good env s s' (dispatch_log env now msg wid s)"
proof -
  obtain r o1 e evs where D: "Dispatch env now msg wid (qs_reg s) (qs_orch s) = (r, o1, e, evs)" by (metis prod_cases4)
  let ?s = "s\<lparr>qs_reg := r, qs_orch := o1\<rparr>"
  have ok: "sys_ok env ?s" by (rule sys_ok_cong [OF assms(3)]) simp_all
  have at: "job_at env ?s J = job_at env s J" for J by (rule job_at_cong) simp_all
  show ?thesis
  proof (cases e)
    case (Some x)
    then have s': "s' = cons_drop env (qm_StreamID msg) wid ?s" using assms(5) D by (simp add: cons_dispatch_def)
    have "J = qm_JobID msg" if "lives (qs_client ?s) (qe_exec env) (qm_StreamID msg) J" for J
      using that assms(4) entry_of_lives by (auto simp: held_msg_def)
    then show ?thesis unfolding good_def s' using drop_good [OF assms(1,2) ok] at Some D by (auto simp: dispatch_log_def settled_def)
  next
    case None
    then have S: "Submit msg wid (qs_publish evs ?s) = Some s'" using assms(5) D by (simp add: cons_dispatch_def)
    have f: "qs_client s' = qs_client s" "qs_timers s' = qs_timers s" "qs_fetch s' = qs_fetch s" "qs_recover s' = qs_recover s"
      "qs_jobStreamIDs s' = qs_jobStreamIDs s"
      using S by (auto simp: Submit_def qs_publish_def split: option.splits if_splits)
    have "m = msg \<or> (\<exists>w' t'. map_of (qs_threads s) w' = Some t' \<and> m \<in> thread_msgs t')"
      if "map_of (qs_threads s') w = Some t" "m \<in> thread_msgs t" for w t m
      using S that by (auto simp: Submit_def qs_publish_def thread_msgs_def split: option.splits if_splits)
    then have "good env s s' []" using assms(4) keeps_refl [OF sys_okD(1) [OF assms(3)], of env]
      by (intro good_frame [OF assms(3)]) (auto simp: f)
    then show ?thesis using None D by (simp add: dispatch_log_def)
  qed
qed

lemma held_Unmarshal: "held_entry env c e \<Longrightarrow> Unmarshal (fst e) (snd e) = Inr m \<Longrightarrow> held_msg env c m \<and> qm_StreamID m = fst e"
  using Unmarshal_ints [of "fst e" "snd e" m] by (auto simp: held_entry_def held_msg_def entry_of_def)

lemma held_no_message: "held_entry env c e \<Longrightarrow> Unmarshal (fst e) (snd e) = Inl x \<Longrightarrow> \<not> lives c (qe_exec env) (fst e) J"
  by (auto simp: held_entry_def lives_def)

lemma good_fetch_entry:
  assumes "qe_ops env = ops" "env_ok env" "sys_ok env s" "fetch_entry env now s = Some s'"
  shows "good env s s' (fetch_log env now s)"
proof -
  obtain wid e where F: "qs_fetch s = FetchHave wid e" using assms(4) by (auto simp: fetch_entry_def split: fetch_pc.splits)
  let ?s = "s\<lparr>qs_fetch := FetchWait\<rparr>"
  have h: "held_entry env (qs_client s) e" by (rule sys_okD(4) [OF assms(3) F])
  have g: "good env s ?s []" using keeps_refl [OF sys_okD(1) [OF assms(3)], of env] by (intro good_frame [OF assms(3)]) auto
  then have ok: "sys_ok env ?s" by (simp add: good_def)
  show ?thesis
  proof (cases "Unmarshal (fst e) (snd e)")
    case (Inl x)
    then have "s' = cons_drop env (fst e) wid ?s" using assms(4) F by (simp add: fetch_entry_def)
    then have "good env ?s s' []" using drop_good [OF assms(1,2) ok] held_no_message [OF h Inl]
      by (simp add: good_def) (metis not_Cons_self2)
    then show ?thesis using good_trans [OF g] F Inl by (simp add: fetch_log_def)
  next
    case (Inr msg)
    then have "held_msg env (qs_client ?s) msg" "cons_dispatch env now (qm_StreamID msg) msg wid ?s = Some s'"
      using held_Unmarshal [OF h] assms(4) F by (auto simp: fetch_entry_def)
    then have "good env ?s s' (dispatch_log env now msg wid ?s)" by (rule good_dispatch [OF assms(1,2) ok])
    then show ?thesis using good_trans [OF g] F Inr by (simp add: fetch_log_def dispatch_log_def)
  qed
qed

lemma good_fetch_read:
  assumes "qe_ops env = ops" "sys_ok env s" "fetch_read env consumer clk s = Some s'"
  shows "good env s s' []"
proof -
  note o = sys_okD [OF assms(2)]
  obtain wid where F: "qs_fetch s = FetchRead wid" using assms(3) by (auto simp: fetch_read_def split: fetch_pc.splits)
  obtain c r where R: "so_ReadGroup ops clk (fetch_args env consumer) (qs_client s) = (c, r)" by fastforce
  have na: "\<not> ra_NoAck (fetch_args env consumer)" "ra_Stream (fetch_args env consumer) = qe_exec env" by (simp_all add: fetch_args_def)
  have k: "keeps env {} {} (qs_client s) c"
  proof (cases r)
    case (Inl x)
    then have "c = qs_client s" using read_err [OF o(1)] R by blast
    then show ?thesis using keeps_refl [OF o(1)] by simp
  next
    case (Inr es)
    then show ?thesis using keeps_read(1) [OF o(1) _ na(1)] R by blast
  qed
  have f: "qs_client s' = c" "qs_timers s' = qs_timers s" "qs_threads s' = qs_threads s" "qs_recover s' = qs_recover s"
    "qs_jobStreamIDs s' = qs_jobStreamIDs s"
    using assms(1,3) F R by (auto simp: fetch_read_def split: sum.splits list.splits)
  have e: "held_entry env c e" if q: "qs_fetch s' = FetchHave w e" for w e
  proof -
    obtain es where "r = Inr (e # es)" using q assms(1,3) F R by (auto simp: fetch_read_def split: sum.splits list.splits)
    then show ?thesis using keeps_read(2) [OF o(1) R [unfolded \<open>r = Inr (e # es)\<close>] na(1), of "fst e" "snd e"] na(2)
      by (simp add: held_entry_def)
  qed
  have "sys_ok env s'" unfolding sys_ok_def f using o held_keeps [OF k] keepsD(1,6) [OF k] e by blast
  then show ?thesis using job_at_same [of env s _ s'] k f by (simp add: good_def)
qed

lemma good_recover_claim:
  assumes "qe_ops env = ops" "sys_ok env s" "recover_claim env consumer now s = Some s'"
  shows "good env s s' []"
proof -
  note o = sys_okD [OF assms(2)]
  obtain start where F: "qs_recover s = RecoverClaim start" using assms(3) by (auto simp: recover_claim_def split: recover_pc.splits)
  obtain c r where R: "so_AutoClaim ops now (recover_args env consumer start) (qs_client s) = (c, r)" by fastforce
  have st: "ca_Stream (recover_args env consumer start) = qe_exec env" by (simp add: recover_args_def)
  have k: "keeps env {} {} (qs_client s) c"
  proof (cases r)
    case (Inl x)
    then have "c = qs_client s" using claim_err [OF o(1)] R by blast
    then show ?thesis using keeps_refl [OF o(1)] by simp
  next
    case (Inr x)
    then show ?thesis using keeps_claim(1) [OF o(1)] R by (cases x) blast
  qed
  have f: "qs_client s' = c" "qs_timers s' = qs_timers s" "qs_threads s' = qs_threads s" "qs_fetch s' = qs_fetch s"
    "qs_jobStreamIDs s' = qs_jobStreamIDs s"
    using assms(1,3) F R by (auto simp: recover_claim_def split: sum.splits)
  have e: "held_entry env c e" if q: "qs_recover s' = RecoverEntries a b es" "e \<in> set es" for a b es e
  proof -
    obtain cur where "r = Inr (cur, es)" using q assms(1,3) F R by (auto simp: recover_claim_def split: sum.splits if_splits)
    then show ?thesis using keeps_claim(2) [OF o(1) R [unfolded \<open>r = Inr (cur, es)\<close>], of "fst e" "snd e"] st q(2)
      by (simp add: held_entry_def)
  qed
  have "sys_ok env s'" unfolding sys_ok_def f using o held_keeps [OF k] keepsD(1,6) [OF k] e by blast
  then show ?thesis using job_at_same [of env s _ s'] k f by (simp add: good_def)
qed

lemma held_recovered:
  assumes "held_msg env c m" "n \<le> max_retries (qe_cfg env) m" "env_ok env"
  shows "held_msg env c (recovered n m)" "qm_StreamID (recovered n m) = qm_StreamID m"
  using assms by (auto simp: held_msg_def recovered_def msg_ints_def max_retries_def int64_ok_def env_ok_def split: if_splits)

lemma good_poison:
  assumes "qe_ops env = ops" "env_ok env" "sys_ok env s" "room (qs_client s)" "held_msg env (qs_client s) msg"
    "dlq_Send env now msg reason (qs_client s) = (c, e, evs)"
  shows "good env s (cons_drop env (qm_StreamID msg) wid (qs_publish evs (s\<lparr>qs_client := c\<rparr>))) (stored_log msg e)"
proof -
  let ?s = "qs_publish evs (s\<lparr>qs_client := c\<rparr>)"
  note o = sys_okD [OF assms(3)]
  have k: "keeps env {} {} (qs_client s) (qs_client ?s)" and d: "e = None \<Longrightarrow> utf8_valid (qm_JobID msg) \<Longrightarrow> \<exists>i. lives c (qe_dlq env) i (qm_JobID msg)"
    using dlq_Send_keeps [OF assms(1) o(1) assms(4) _ assms(6)] assms(5) by (simp_all add: held_msg_def qs_publish_def)
  have g: "good env s ?s []" using k by (intro good_frame [OF assms(3)]) (auto simp: qs_publish_def)
  then have ok: "sys_ok env ?s" by (simp add: good_def)
  have "entry_of env (qs_client ?s) (qm_StreamID msg) (qm_JobID msg)" using held_keeps(3) [OF k assms(5)] by (simp add: held_msg_def)
  note dr = drop_good [OF assms(1,2) ok]
  let ?s' = "cons_drop env (qm_StreamID msg) wid ?s"
  have at: "job_at env ?s' J \<or> J = qm_JobID msg" if "job_at env ?s J" for J
    by (rule dr(2) [OF that entry_of_lives [OF \<open>entry_of env (qs_client ?s) _ _\<close>]])
  have "job_at env ?s' (qm_JobID msg)" if q: "e = None" "utf8_valid (qm_JobID msg)"
  proof -
    obtain i where "lives c (qe_dlq env) i (qm_JobID msg)" using d [OF q] by blast
    moreover have "keeps env {qm_StreamID msg} {} c (qs_client ?s')"
      using ackDelete_keeps [OF assms(1,2) sys_okD(1) [OF ok], of "qm_StreamID msg"] by (simp add: cons_drop_def qs_publish_def)
    ultimately show ?thesis using lives_keeps(2) unfolding job_at_def by blast
  qed
  then have "good env ?s ?s' (stored_log msg e)"
    using dr(1) at by (auto simp: good_def stored_log_def settled_def split: option.splits)
  then show ?thesis using good_trans [OF g] by simp
qed

lemma good_recover_entry:
  assumes "qe_ops env = ops" "env_ok env" "sys_ok env s" "room (qs_client s)" "recover_entry env now s = Some s'"
  shows "good env s s' (recover_log env now s)"
proof -
  obtain start cur e rest wid idle where F: "qs_recover s = RecoverEntries start cur (e # rest)" "qs_idle s = wid # idle"
    using assms(5) by (auto simp: recover_entry_def split: recover_pc.splits list.splits)
  let ?s = "s\<lparr>qs_idle := idle, qs_recover := recover_next start cur rest\<rparr>"
  have R: "recover_one env now e wid ?s = Some s'" using assms(5) F by (simp add: recover_entry_def)
  have h: "held_entry env (qs_client ?s) e" using sys_okD(5) [OF assms(3) F(1)] by simp
  have g: "good env s ?s []" using keeps_refl [OF sys_okD(1) [OF assms(3)], of env] F(1)
    by (intro good_frame [OF assms(3)]) (auto simp: recover_next_def split: if_splits)
  then have ok: "sys_ok env ?s" by (simp add: good_def)
  show ?thesis
  proof (cases "Unmarshal (fst e) (snd e)")
    case (Inl x)
    then have "s' = cons_drop env (fst e) wid ?s" using R by (simp add: recover_one_def)
    then have "good env ?s s' []" using drop_good [OF assms(1,2) ok] held_no_message [OF h Inl]
      by (simp add: good_def) (metis not_Cons_self2)
    then show ?thesis using good_trans [OF g] F Inl by (simp add: recover_log_def)
  next
    case (Inr msg)
    have m: "held_msg env (qs_client ?s) msg" "qm_StreamID msg = fst e" using held_Unmarshal [OF h Inr] by auto
    let ?count = "delivery_count env (now 0) (fst e) (qs_client s)"
    show ?thesis
    proof (cases "max_retries (qe_cfg env) msg < ?count")
      case True
      obtain c er evs where d: "dlq_Send env (\<lambda>n. now (n + 1)) msg (poison_reason ?count (max_retries (qe_cfg env) msg)) (qs_client ?s) = (c, er, evs)"
        by (metis prod_cases3)
      have "s' = cons_drop env (qm_StreamID msg) wid (qs_publish evs (?s\<lparr>qs_client := c\<rparr>))" using R Inr True d m(2) by (simp add: recover_one_def Let_def)
      then have "good env ?s s' (stored_log msg er)" using good_poison [OF assms(1,2) ok _ m(1) d] assms(4) by simp
      moreover have "recover_log env now s = stored_log msg er" using F Inr True d by (simp add: recover_log_def Let_def)
      ultimately show ?thesis using good_trans [OF g] by simp
    next
      case False
      note hr = held_recovered [OF m(1) _ assms(2), of ?count]
      have "cons_dispatch env (\<lambda>n. now (n + 1)) (qm_StreamID (recovered ?count msg)) (recovered ?count msg) wid ?s = Some s'"
        using R Inr False m(2) hr(2) by (simp add: recover_one_def Let_def)
      then have "good env ?s s' (dispatch_log env (\<lambda>n. now (n + 1)) (recovered ?count msg) wid ?s)"
        using good_dispatch [OF assms(1,2) ok hr(1)] False by simp
      moreover have "recover_log env now s = dispatch_log env (\<lambda>n. now (n + 1)) (recovered ?count msg) wid ?s"
        using F Inr False by (simp add: recover_log_def Let_def dispatch_log_def)
      ultimately show ?thesis using good_trans [OF g] by simp
    qed
  qed
qed

text \<open>The end of a job: the entry goes, and with it at most the job of the message.\<close>

lemma execute_success_frame [simp]:
  "qs_client (execute_success env now wid msg start s) = qs_client (qs_ackDelete env (qm_StreamID msg) s)"
  "qs_timers (execute_success env now wid msg start s) = qs_timers s" "qs_threads (execute_success env now wid msg start s) = qs_threads s"
  "qs_fetch (execute_success env now wid msg start s) = qs_fetch s" "qs_recover (execute_success env now wid msg start s) = qs_recover s"
  "qs_jobStreamIDs (execute_success env now wid msg start s) = qs_jobStreamIDs s"
  by (simp_all add: execute_success_def Let_def qs_setReg_def qs_publish_def qs_ackDelete_def split: option.split)

lemma execute_failure_frame:
  assumes "ScheduleRetry env (\<lambda>n. now (n + 3)) over u msg err (qs_client s) = (c, e, timer, evs)"
  shows "qs_client (execute_failure env now over u wid msg start err s) = qs_client (qs_ackDelete env (qm_StreamID msg) (s\<lparr>qs_client := c\<rparr>))"
  "qs_timers (execute_failure env now over u wid msg start err s) = (case timer of None \<Rightarrow> [] | Some t \<Rightarrow> [t]) @ qs_timers s"
  "qs_threads (execute_failure env now over u wid msg start err s) = qs_threads s"
  "qs_fetch (execute_failure env now over u wid msg start err s) = qs_fetch s"
  "qs_recover (execute_failure env now over u wid msg start err s) = qs_recover s"
  "qs_jobStreamIDs (execute_failure env now over u wid msg start err s) = qs_jobStreamIDs s"
  using assms by (simp_all add: execute_failure_def Let_def qs_setReg_def qs_publish_def qs_ackDelete_def split: option.split)

lemma good_end_step:
  assumes "sys_ok env s" "keeps env {qm_StreamID msg} {} (qs_client s) (qs_client s')" "map_of (qs_threads s) wid = Some t" "wt_pc t = Running msg start"
    "qs_threads s' = AList.update wid (t\<lparr>wt_pc := PushIdle\<rparr>) (qs_threads s)" "qs_fetch s' = qs_fetch s" "qs_recover s' = qs_recover s"
    "qs_jobStreamIDs s' = qs_jobStreamIDs s" "set (qs_timers s) \<subseteq> set (qs_timers s')"
    "\<And>t d. (t, d) \<in> set (qs_timers s') \<Longrightarrow> (t, d) \<in> set (qs_timers s) \<or> held_timer env t"
    "utf8_valid (qm_JobID msg) \<Longrightarrow> job_at env s' (qm_JobID msg) \<or> settled l (qm_JobID msg)"
  shows "good env s s' l"
proof -
  have "thread_msgs (t\<lparr>wt_pc := PushIdle\<rparr>) \<subseteq> thread_msgs t" by (auto simp: thread_msgs_def)
  note th = thread_update [OF assms(3) this]
  have "held_msg env (qs_client s) msg" using sys_okD(3) [OF assms(1,3), of msg] assms(4) by (simp add: thread_msgs_def)
  then have "entry_of env (qs_client s) (qm_StreamID msg) (qm_JobID msg)" by (simp add: held_msg_def)
  then have "job_at env s' J \<or> J = qm_JobID msg" if "job_at env s J" for J
    using assms(9) by (intro job_at_step [OF that assms(2)]) (auto dest: entry_of_lives)
  moreover have "sys_ok env s'" by (rule sys_ok_step [OF assms(1,2)]) (use th assms(5-8,10) in auto)
  ultimately show ?thesis using assms(11) by (auto simp: good_def)
qed

lemma good_execute_end:
  assumes "qe_ops env = ops" "env_ok env" "sys_ok env s" "room (qs_client s)" "execute_end env now over u res wid s = Some s'"
  shows "good env s s' (execute_log env now over u res wid s)"
proof -
  obtain t msg start where t: "map_of (qs_threads s) wid = Some t" "wt_pc t = Running msg start"
    using assms(5) by (auto simp: execute_end_def split: option.splits thread_pc.splits)
  note o = sys_okD [OF assms(3)]
  have h: "held_msg env (qs_client s) msg" using o(3) [OF t(1), of msg] t(2) by (simp add: thread_msgs_def)
  show ?thesis
  proof (cases res)
    case None
    let ?s = "execute_success env now wid msg start s"
    have s': "s' = (qs_setReg (wreg_UpdateState wid WorkerIdle (qs_reg ?s)) ?s)\<lparr>qs_threads := AList.update wid (t\<lparr>wt_pc := PushIdle\<rparr>) (qs_threads ?s)\<rparr>"
      using assms(5) t None by (simp add: execute_end_def Let_def qs_setReg_def)
    show ?thesis unfolding execute_log_def
      by (rule good_end_step [OF assms(3) _ t])
        (use ackDelete_keeps [OF assms(1,2) o(1)] in \<open>simp_all add: s' qs_setReg_def t None settled_def\<close>)
  next
    case (Some err)
    let ?s = "execute_failure env now over u wid msg start err s"
    obtain c e timer evs where R: "ScheduleRetry env (\<lambda>n. now (n + 3)) over u msg err (qs_client s) = (c, e, timer, evs)" by (metis prod_cases4)
    note f = execute_failure_frame [OF R]
    note rk = ScheduleRetry_keeps [OF assms(1,2) o(1) assms(4) _ R]
    have mi: "msg_ints msg" using h by (simp add: held_msg_def)
    have s': "s' = (qs_setReg (wreg_UpdateState wid WorkerIdle (qs_reg ?s)) ?s)\<lparr>qs_threads := AList.update wid (t\<lparr>wt_pc := PushIdle\<rparr>) (qs_threads ?s)\<rparr>"
      using assms(5) t Some by (simp add: execute_end_def Let_def qs_setReg_def)
    have k2: "keeps env {qm_StreamID msg} {} c (qs_client s')"
      using ackDelete_keeps [OF assms(1,2), of "s\<lparr>qs_client := c\<rparr>"] keepsD(1) [OF rk(1) [OF mi]] by (simp add: s' qs_setReg_def f)
    have k: "keeps env {qm_StreamID msg} {} (qs_client s) (qs_client s')"
      using keeps_trans [OF keeps_mono [OF rk(1) [OF mi]] k2] by simp
    have "job_at env s' (qm_JobID msg)" if "e = None" "utf8_valid (qm_JobID msg)"
    proof (cases "\<exists>i. lives c (qe_dlq env) i (qm_JobID msg)")
      case True
      then show ?thesis using lives_keeps(2) [OF k2] unfolding job_at_def by blast
    next
      case False
      then show ?thesis using rk(3) [OF mi that] unfolding job_at_def by (auto simp: s' qs_setReg_def f)
    qed
    then show ?thesis using rk(2) [OF mi]
      by (intro good_end_step [OF assms(3) k t]) (auto simp: s' qs_setReg_def f execute_log_def t Some R stored_log_def settled_def split: option.splits)
  qed
qed

lemma timer_removed: "k < length ts \<Longrightarrow> (t, d) \<in> set ts \<Longrightarrow> (t, d) \<in> set (take k ts @ drop (Suc k) ts) \<or> t = fst (ts ! k)"
  by (metis Un_iff fst_conv id_take_nth_drop insert_iff list.simps(15) set_append)

lemma good_timer_step:
  assumes "sys_ok env s" "keeps env {} {} (qs_client s) (qs_client s')" "k < length (qs_timers s)"
    "qs_timers s' = take k (qs_timers s) @ drop (Suc k) (qs_timers s)" "qs_threads s' = qs_threads s" "qs_fetch s' = qs_fetch s"
    "qs_recover s' = qs_recover s" "qs_jobStreamIDs s' = qs_jobStreamIDs s"
    "utf8_valid (qm_JobID (fst (qs_timers s ! k))) \<Longrightarrow> job_at env s' (qm_JobID (fst (qs_timers s ! k))) \<or> settled l (qm_JobID (fst (qs_timers s ! k)))"
  shows "good env s s' l"
proof -
  have "sys_ok env s'" by (rule sys_ok_step [OF assms(1,2)]) (auto simp: assms(4-8) dest: in_set_takeD in_set_dropD)
  moreover have "job_at env s' J \<or> J = qm_JobID (fst (qs_timers s ! k))" if "job_at env s J" for J
    using timer_removed [OF assms(3)] by (intro job_at_step [OF that assms(2)]) (auto simp: assms(4))
  ultimately show ?thesis using assms(9) by (auto simp: good_def)
qed

lemma good_timer_fires:
  assumes "qe_ops env = ops" "sys_ok env s" "room (qs_client s)" "timer_fires env now k s = Some s'"
  shows "good env s s' (timer_log env now k s)"
proof -
  note o = sys_okD [OF assms(2)]
  have k: "k < length (qs_timers s)" using assms(4) by (simp add: timer_fires_def split: if_splits)
  let ?m = "fst (qs_timers s ! k)"
  obtain c e evs where r: "requeue env now ?m (qs_client s) = (c, e, evs)" by (metis prod_cases3)
  have s': "s' = qs_publish evs (s\<lparr>qs_client := c, qs_timers := take k (qs_timers s) @ drop (Suc k) (qs_timers s)\<rparr>)"
    using assms(4) k r by (simp add: timer_fires_def)
  have "msg_ints ?m" using o(6) [of ?m "snd (qs_timers s ! k)"] k by (simp add: held_timer_def)
  note q = requeue_keeps [OF assms(1) o(1) assms(3) o(2) this r]
  have "job_at env s' (qm_JobID ?m)" if "e = None" "utf8_valid (qm_JobID ?m)"
    using q(2) [OF that] by (auto simp: job_at_def s' qs_publish_def)
  then show ?thesis using q(1)
    by (intro good_timer_step [OF assms(2) _ k]) (auto simp: s' qs_publish_def timer_log_def r stored_log_def settled_def split: option.splits)
qed

lemma good_timer_aborts:
  assumes "sys_ok env s" "timer_aborts k s = Some s'"
  shows "good env s s' [QLost (qm_JobID (fst (qs_timers s ! k))) ShutDown]"
proof -
  have k: "k < length (qs_timers s)" and s': "s' = s\<lparr>qs_timers := take k (qs_timers s) @ drop (Suc k) (qs_timers s)\<rparr>"
    using assms(2) by (auto simp: timer_aborts_def split: if_splits)
  show ?thesis using keeps_refl [OF sys_okD(1) [OF assms(1)], of env]
    by (intro good_timer_step [OF assms(1) _ k]) (auto simp: s' settled_def)
qed

lemma replay_find_keeps:
  assumes "qe_ops env = ops" "ok c" "replay_find env msgID clks c = Some (c', r)"
  shows "keeps env {} {} c c'" "r = Inr e \<Longrightarrow> issued c' (fst e) \<and> live c' (qe_dlq env) (fst e) = Some (snd e)"
proof -
  have "keeps env {} {} c c' \<and> (r = Inr e \<longrightarrow> issued c' (fst e) \<and> live c' (qe_dlq env) (fst e) = Some (snd e))"
    using assms(2,3)
  proof (induction clks arbitrary: c)
    case (Cons clk clks)
    let ?a = "\<lparr>ra_Group = replay_group, ra_Consumer = ''dlq-replayer'', ra_Stream = qe_dlq env, ra_Count = 50, ra_Block = 100 * Millisecond, ra_NoAck = False\<rparr>"
    obtain c1 x where R: "so_ReadGroup ops clk ?a c = (c1, x)" by fastforce
    show ?case
    proof (cases x)
      case (Inl er)
      then have "c1 = c" using read_err [OF Cons.prems(1)] R by blast
      then show ?thesis using Cons.prems assms(1) R Inl keeps_refl by auto
    next
      case (Inr es)
      note k = keeps_read [OF Cons.prems(1) R [unfolded Inr], simplified]
      consider "es = []" | e1 where "es \<noteq> []" "find (replay_match msgID) es = Some e1" | "es \<noteq> []" "find (replay_match msgID) es = None" by fastforce
      then show ?thesis
      proof cases
        case 1
        then show ?thesis using Cons.prems assms(1) R Inr k(1) by auto
      next
        case 2
        then have "e1 \<in> set es" by (metis find_Some_iff nth_mem)
        then show ?thesis using 2 Cons.prems assms(1) R Inr k(1) k(2) [of "fst e1" "snd e1"] by auto
      next
        case 3
        then have "replay_find env msgID clks c1 = Some (c', r)" using Cons.prems assms(1) R Inr by simp
        then show ?thesis using Cons.IH [OF keepsD(1) [OF k(1)]] keeps_trans [OF k(1)] by blast
      qed
    qed
  qed simp
  then show "keeps env {} {} c c'" "r = Inr e \<Longrightarrow> issued c' (fst e) \<and> live c' (qe_dlq env) (fst e) = Some (snd e)" by blast+
qed

lemma replay_search_keeps:
  assumes "qe_ops env = ops" "env_ok env" "ok c" "replay_search env clks msgID c = Some (c', r)"
  shows "keeps env {} {} c c'" "r = Inr e \<Longrightarrow> issued c' (fst e) \<and> live c' (qe_dlq env) (fst e) = Some (snd e)"
proof -
  obtain c1 x where g: "so_CreateGroup ops (qe_dlq env) replay_group ''0'' c = (c1, x)" by fastforce
  have k: "keeps env {} {} c c1" using keeps_group [OF assms(3) g, of env] assms(2) by (auto simp: env_ok_def)
  have f: "replay_find env msgID clks c1 = Some (c', r)" using assms(1,4) g by (simp add: replay_search_def)
  note q = replay_find_keeps [OF assms(1) keepsD(1) [OF k] f]
  show "keeps env {} {} c c'" by (rule keeps_trans [OF k q(1)])
  show "r = Inr e \<Longrightarrow> issued c' (fst e) \<and> live c' (qe_dlq env) (fst e) = Some (snd e)" by (rule q(2))
qed

lemma good_replay_entry:
  assumes "qe_ops env = ops" "env_ok env" "sys_ok env s" "room (qs_client s)" "live (qs_client s) (qe_dlq env) (fst entry) = Some (snd entry)"
    "replay_entry env now target entry (qs_client s) = (c', e)"
  shows "good env s (s\<lparr>qs_client := c'\<rparr>) (replay_log env target entry e)"
proof (cases "e = None")
  case False
  then have "c' = qs_client s" using assms(1,6) add_err [OF sys_okD(1) [OF assms(3)]]
    by (auto simp: replay_entry_def Let_def split: sum.splits prod.splits)
  then show ?thesis using assms(3) by (simp add: good_def)
next
  case True
  note o = sys_okD [OF assms(3)]
  obtain msg fs c1 i c2 x2 c3 x3 where u: "Unmarshal (fst entry) (snd entry) = Inr msg" and m: "Marshal (replay_message (now 0) msg) = Inr fs"
    and a: "so_Add ops (now 1) target fs (qs_client s) = (c1, Inr i)" and k: "so_Ack ops (qe_dlq env) replay_group [fst entry] c1 = (c2, x2)"
    and d: "so_Delete ops (qe_dlq env) [fst entry] c2 = (c3, x3)" and c': "c' = c3"
    using assms(1,6) True by (auto simp: replay_entry_def Let_def split: sum.splits prod.splits) (metis prod.collapse)
  have ints: "msg_ints (replay_message (now 0) msg)" using Unmarshal_ints [OF u] by (simp add: msg_ints_def replay_message_def int64_ok_def)
  note ka = keeps_add [OF o(1) assms(4) a]
  have k2: "keeps env {} {} c1 c2" using keeps_ack [OF keepsD(1) [OF ka(1)] k, of env] assms(2) by (simp add: env_ok_def split: if_splits)
  have k3: "keeps env {} {fst entry} c2 c3" using keeps_delete [OF keepsD(1) [OF k2] d, of env] assms(2) by (auto simp: env_ok_def split: if_splits)
  have k23: "keeps env {} {fst entry} c1 c3" using keeps_trans [OF keeps_mono [OF k2] k3] by simp
  have K: "keeps env {} {fst entry} (qs_client s) (qs_client (s\<lparr>qs_client := c'\<rparr>))" using keeps_trans [OF keeps_mono [OF ka(1)] k23] c' by simp
  have "sys_ok env (s\<lparr>qs_client := c'\<rparr>)" by (rule sys_ok_step [OF assms(3) K]) auto
  moreover have "job_at env (s\<lparr>qs_client := c'\<rparr>) J \<or> J = qm_JobID msg" if "job_at env s J" for J
    using u assms(5) by (intro job_at_step [OF that K]) (auto simp: lives_def)
  moreover have "job_at env (s\<lparr>qs_client := c'\<rparr>) (qm_JobID msg)" if "utf8_valid (qm_JobID msg)" "target = qe_exec env"
  proof -
    have "lives c1 (qe_exec env) i (qm_JobID msg)" using lives_add [OF o(1) assms(4) a ints m] that by (simp add: replay_message_def)
    then have "lives c3 (qe_exec env) i (qm_JobID msg) \<and> waiting env c3 i" using lives_keeps(1) [OF k23] ka(5) [OF that(2) o(2)] by blast
    then show ?thesis unfolding job_at_def c' by auto
  qed
  ultimately show ?thesis using True u by (auto simp: good_def replay_log_def settled_def)
qed

lemma good_replay:
  assumes "qe_ops env = ops" "env_ok env" "sys_ok env s" "replay_search env clks msgID (qs_client s) = Some (c, r)"
    "mgr_Replay env clks now msgID target s = Some (s', e)"
  shows "r = Inl err \<Longrightarrow> good env s s' []" "r = Inr entry \<Longrightarrow> room c \<Longrightarrow> good env s s' (replay_log env target entry e)"
proof -
  note q = replay_search_keeps [OF assms(1,2) sys_okD(1) [OF assms(3)] assms(4)]
  let ?s = "s\<lparr>qs_client := c\<rparr>"
  have g: "good env s ?s []" using q(1) by (intro good_frame [OF assms(3)]) auto
  show "good env s s' []" if "r = Inl err" using that g assms(4,5) by (simp add: mgr_Replay_def dlq_Replay_def)
  show "good env s s' (replay_log env target entry e)" if r: "r = Inr entry" "room c"
  proof -
    obtain c2 where c2: "replay_entry env now target entry c = (c2, e)" "s' = s\<lparr>qs_client := c2\<rparr>"
      using r assms(4,5) by (auto simp: mgr_Replay_def dlq_Replay_def split: prod.splits)
    have "good env ?s (?s\<lparr>qs_client := c2\<rparr>) (replay_log env target entry e)"
      using good_replay_entry [OF assms(1,2), of ?s entry now target c2 e] g c2(1) r q(2) [OF r(1)] by (simp add: good_def)
    then show ?thesis using good_trans [OF g] c2(2) by simp
  qed
qed

definition accounted :: "('c, 'o) queue_env \<Rightarrow> ('c, 'o) queue_sys \<Rightarrow> queue_log list \<Rightarrow> bool" where
  "accounted env s l \<longleftrightarrow> sys_ok env s \<and> (\<forall>J. QScheduled J \<in> set l \<longrightarrow> utf8_valid J \<and> (job_at env s J \<or> settled l J))"

lemma accounted_ok: "accounted env s l \<Longrightarrow> sys_ok env s"
  by (simp add: accounted_def)

lemma accounted_good:
  assumes "accounted env s l" "good env s s' l'" "\<And>J. QScheduled J \<notin> set l'"
  shows "accounted env s' (l @ l')"
  using assms unfolding accounted_def good_def settled_def by auto

lemma accounted_quiet: "accounted env s l \<Longrightarrow> good env s s' [] \<Longrightarrow> accounted env s' l"
  using accounted_good [of env s l s' "[]"] by simp

lemma queue_run_accounts:
  assumes "queue_run env room s0 s l" "qe_ops env = ops" "env_ok env" "sys_ok env s0"
  shows "accounted env s l"
  using assms(1)
proof induction
  case qr_init
  then show ?case using assms(4) by (simp add: accounted_def)
next
  case (qr_schedule s l j now s')
  note g = good_schedule [OF assms(2,3) accounted_ok [OF qr_schedule.IH] qr_schedule.hyps(2-4)]
  have "accounted env s' l" by (rule accounted_quiet [OF qr_schedule.IH g(1)])
  then show ?case using g(2) utf8_valid_json_text [of "j_ID j"] by (auto simp: accounted_def settled_def)
next
  case (qr_cancel s l i s' e)
  show ?case by (rule accounted_good [OF qr_cancel.IH good_cancel [OF assms(2,3) accounted_ok [OF qr_cancel.IH] qr_cancel.hyps(2)]]) simp
next
  case (qr_end s l now over u res wid s')
  show ?case by (rule accounted_good [OF qr_end.IH good_execute_end [OF assms(2,3) accounted_ok [OF qr_end.IH] qr_end.hyps(2,3)]]) simp
next
  case (qr_fetch_entry s l now s')
  show ?case by (rule accounted_good [OF qr_fetch_entry.IH good_fetch_entry [OF assms(2,3) accounted_ok [OF qr_fetch_entry.IH] qr_fetch_entry.hyps(2)]]) simp
next
  case (qr_recover_entry s l now s')
  show ?case
    by (rule accounted_good [OF qr_recover_entry.IH good_recover_entry [OF assms(2,3) accounted_ok [OF qr_recover_entry.IH] qr_recover_entry.hyps(2,3)]]) simp
next
  case (qr_timer s l now k s')
  show ?case by (rule accounted_good [OF qr_timer.IH good_timer_fires [OF assms(2) accounted_ok [OF qr_timer.IH] qr_timer.hyps(2,3)]]) simp
next
  case (qr_abort s l k s')
  show ?case by (rule accounted_good [OF qr_abort.IH good_timer_aborts [OF accounted_ok [OF qr_abort.IH] qr_abort.hyps(2)]]) simp
next
  case (qr_replay s l clks msgID c entry now target s' e)
  show ?case by (rule accounted_good [OF qr_replay.IH good_replay(2) [OF assms(2,3) accounted_ok [OF qr_replay.IH] qr_replay.hyps(2,4) refl qr_replay.hyps(3)]]) simp
qed (blast intro: accounted_quiet good_quiet good_worker accounted_ok good_schedule_err [OF assms(2)] good_fetch_read [OF assms(2)]
    good_recover_claim [OF assms(2)] good_replay(1) [OF assms(2,3) _ _ _ refl])+

text \<open>The start of the manager creates the workers and the consumer group.\<close>

definition fresh_threads :: "('c, 'o) queue_sys \<Rightarrow> ('c, 'o) queue_sys \<Rightarrow> bool" where
  "fresh_threads s s' \<longleftrightarrow> qs_client s' = qs_client s \<and> qs_timers s' = qs_timers s \<and> qs_fetch s' = qs_fetch s \<and> qs_recover s' = qs_recover s
     \<and> qs_jobStreamIDs s' = qs_jobStreamIDs s \<and> (\<forall>w t. map_of (qs_threads s') w = Some t \<longrightarrow> map_of (qs_threads s) w = Some t \<or> thread_msgs t = {})"

lemma fresh_threads_trans: "fresh_threads s s1 \<Longrightarrow> fresh_threads s1 s2 \<Longrightarrow> fresh_threads s s2"
  by (simp add: fresh_threads_def) blast

lemma pool_Start_fresh: "fresh_threads s (pool_Start now is s)"
proof (induction "is" arbitrary: s)
  case (Cons i "is")
  let ?s = "worker_Start (\<lambda>n. now i (n + 1)) (worker_id (now i 0) i) s"
  have "fresh_threads s ?s"
    by (auto simp: fresh_threads_def worker_Start_def qs_publish_def thread_msgs_def split: prod.splits option.splits if_splits)
  from fresh_threads_trans [OF this Cons [of ?s]] show ?case by simp
qed (simp add: fresh_threads_def)

lemma start_ok:
  assumes "qe_ops env = ops" "ok c" "mgr_Start env now (qs_New c o1) = (s0, None)"
  shows "sys_ok env s0"
proof -
  let ?s = "pool_Start now [0..<nat (qc_WorkerCount (qe_cfg env))] (qs_New c o1)"
  have f: "fresh_threads (qs_New c o1) ?s" by (rule pool_Start_fresh)
  obtain c' where g: "so_CreateGroup ops (qe_exec env) (qe_group env) ''$'' c = (c', None)" "s0 = ?s\<lparr>qs_client := c'\<rparr>"
    using assms(1,3) f by (auto simp: mgr_Start_def cons_Start_def fresh_threads_def qs_New_def split: prod.splits)
  have "ok c'" "mark c' (qe_exec env) (qe_group env) \<noteq> None" using group_ok [OF assms(2) g(1)] by (auto split: if_splits)
  then show ?thesis using f by (intro sys_okI) (auto simp: g(2) fresh_threads_def qs_New_def)
qed

end

section \<open>The queue over the stream emulator\<close>

interpretation emq: queue_client "em_ops :: (msg_fields emulator, msg_fields) stream_ops" em_ok em_room em_live em_mark em_pend em_issued
  by unfold_locales

text \<open>
  C39. No job is lost silently. Take the queue over the stream emulator, started by the
  manager, and any interleaving of its goroutines and of calls to schedule, cancel and replay. A job that
  was scheduled is in the execution stream, either not yet read by the group or pending in it, so that
  the next read or claim can deliver it; or it waits for a retry; or it is in the dead-letter stream; or
  its handler has succeeded; or it was given up for a reason that the history records: the
  dispatcher refused it, neither retry nor dead letter could be written, it was cancelled, the wait for
  a retry was aborted, or it was replayed to another stream. A message that waits for a retry has not used
  more retries than it may.
\<close>

theorem queue_accounts_for_every_job:
  assumes "qe_ops env = em_ops" "env_ok env" "em_ok c" "mgr_Start env now (qs_New c o1) = (s0, None)" "queue_run env em_room s0 s l"
  shows "(\<forall>J. QScheduled J \<in> set l \<longrightarrow>
      (\<exists>i f m. em_live (qs_client s) (qe_exec env) i = Some f \<and> Unmarshal i f = Inr m \<and> qm_JobID m = J
         \<and> (i \<in> em_pend (qs_client s) (qe_exec env) (qe_group env)
            \<or> (\<exists>k. em_mark (qs_client s) (qe_exec env) (qe_group env) = Some k \<and> idLess k i)))
      \<or> (\<exists>m d. (m, d) \<in> set (qs_timers s) \<and> qm_JobID m = J)
      \<or> (\<exists>i f m. em_live (qs_client s) (qe_dlq env) i = Some f \<and> Unmarshal i f = Inr m \<and> qm_JobID m = J)
      \<or> QCompleted J \<in> set l \<or> (\<exists>r. QLost J r \<in> set l))
    \<and> (\<forall>m d. (m, d) \<in> set (qs_timers s) \<longrightarrow> qm_RetryCount m \<le> max_retries (qe_cfg env) m)"
proof -
  have acc: "emq.accounted env s l" by (rule emq.queue_run_accounts [OF assms(5,1,2) emq.start_ok [OF assms(1,3,4)]])
  then have "emq.job_at env s J \<or> settled l J" if "QScheduled J \<in> set l" for J using that by (simp add: emq.accounted_def)
  moreover have "qm_RetryCount m \<le> max_retries (qe_cfg env) m" if "(m, d) \<in> set (qs_timers s)" for m d
    using emq.sys_okD(6) [OF emq.accounted_ok [OF acc] that] by (simp add: emq.held_timer_def)
  ultimately show ?thesis unfolding emq.job_at_def emq.lives_def emq.waiting_def settled_def by (intro conjI allI impI; metis)
qed

definition ex_qenv :: "(msg_fields emulator, unit) queue_env" where
  "ex_qenv = \<lparr>qe_cfg = qc_Default\<lparr>qc_WorkerCount := 1\<rparr>, qe_ops = em_ops, qe_dispatch = None, qe_worker = None,
     qe_RFC3339 = (\<lambda>_. ''now''), qe_error_text = (\<lambda>_. ''err'')\<rparr>"

text \<open>The start of the Unix epoch.\<close>

definition ex_t :: time where
  "ex_t = 62135596800 * Second"

definition ex_q0 :: "(msg_fields emulator, unit) queue_sys" where
  "ex_q0 = fst (mgr_Start ex_qenv (\<lambda>_ _. ex_t) (qs_New NewEmulator ()))"

definition ex_q1 :: "(msg_fields emulator, unit) queue_sys" where
  "ex_q1 = fst (mgr_Schedule ex_qenv (\<lambda>_. ex_t) ex_job ex_q0)"

definition ex_wid :: string where
  "ex_wid = worker_id ex_t 0"

definition ex_q2 :: "(msg_fields emulator, unit) queue_sys option" where
  "ex_q2 = worker_push ex_qenv ex_wid ex_q1"

definition ex_q3 :: "(msg_fields emulator, unit) queue_sys option" where
  "ex_q3 = Option.bind ex_q2 fetch_worker"

definition ex_q4 :: "(msg_fields emulator, unit) queue_sys option" where
  "ex_q4 = Option.bind ex_q3 (fetch_read ex_qenv ''c'' (\<lambda>_. ex_t))"

definition ex_q5 :: "(msg_fields emulator, unit) queue_sys option" where
  "ex_q5 = Option.bind ex_q4 (fetch_entry ex_qenv (\<lambda>_. ex_t))"

definition ex_q6 :: "(msg_fields emulator, unit) queue_sys option" where
  "ex_q6 = Option.bind ex_q5 (execute_begin ex_qenv (\<lambda>_. ex_t) ex_wid)"

definition ex_q7 :: "(msg_fields emulator, unit) queue_sys option" where
  "ex_q7 = Option.bind ex_q6 (execute_end ex_qenv (\<lambda>_. ex_t) 0 (1 / 2) (Some ''boom'') ex_wid)"

lemma ex_q_start: "mgr_Start ex_qenv (\<lambda>_ _. ex_t) (qs_New NewEmulator ()) = (ex_q0, None)"
proof -
  have "snd (mgr_Start ex_qenv (\<lambda>_ _. ex_t) (qs_New NewEmulator ())) = None" by code_simp
  then show ?thesis by (simp add: ex_q0_def prod_eq_iff)
qed

lemma ex_q_schedule: "mgr_Schedule ex_qenv (\<lambda>_. ex_t) ex_job ex_q0 = (ex_q1, None)" "em_room (qs_client ex_q0)" "job_ints ex_job"
  "json_text (j_ID ex_job) = ''job-1''"
proof -
  have "snd (mgr_Schedule ex_qenv (\<lambda>_. ex_t) ex_job ex_q0) = None" by code_simp
  then show "mgr_Schedule ex_qenv (\<lambda>_. ex_t) ex_job ex_q0 = (ex_q1, None)" by (simp add: ex_q1_def prod_eq_iff)
  show "em_room (qs_client ex_q0)" "job_ints ex_job" "json_text (j_ID ex_job) = ''job-1''" by code_simp+
qed

lemma ex_q_end:
  "map_option (\<lambda>s. em_room (qs_client s)) ex_q6 = Some True"
  "map_option (\<lambda>s. map (\<lambda>(m, d). (qm_JobID m, qm_RetryCount m)) (qs_timers s)) ex_q7 = Some [(''job-1'', 1)]"
  by code_simp+

lemma ex_queue_run:
  "\<exists>s l m d. queue_run ex_qenv em_room ex_q0 s l \<and> QScheduled ''job-1'' \<in> set l \<and> (m, d) \<in> set (qs_timers s) \<and> qm_JobID m = ''job-1'' \<and> qm_RetryCount m = 1"
proof -
  obtain s7 where s7: "ex_q7 = Some s7" "map (\<lambda>(m, d). (qm_JobID m, qm_RetryCount m)) (qs_timers s7) = [(''job-1'', 1)]" using ex_q_end(2) by auto
  obtain s2 s3 s4 s5 s6 where st: "worker_push ex_qenv ex_wid ex_q1 = Some s2" "fetch_worker s2 = Some s3" "fetch_read ex_qenv ''c'' (\<lambda>_. ex_t) s3 = Some s4"
    "fetch_entry ex_qenv (\<lambda>_. ex_t) s4 = Some s5" "execute_begin ex_qenv (\<lambda>_. ex_t) ex_wid s5 = Some s6"
    "execute_end ex_qenv (\<lambda>_. ex_t) 0 (1 / 2) (Some ''boom'') ex_wid s6 = Some s7" "ex_q6 = Some s6"
    using s7(1) by (auto simp: ex_q7_def ex_q6_def ex_q5_def ex_q4_def ex_q3_def ex_q2_def bind_eq_Some_conv)
  have "queue_run ex_qenv em_room ex_q0 ex_q1 [QScheduled ''job-1'']"
    using qr_schedule [OF qr_init [of ex_qenv em_room ex_q0] ex_q_schedule(2,3,1)] ex_q_schedule(4) by simp
  note r5 = qr_fetch_entry [OF qr_fetch_read [OF qr_fetch_worker [OF qr_push [OF this st(1)] st(2)] st(3)] st(4)]
  have room: "em_room (qs_client s6)" using ex_q_end(1) unfolding st(7) by simp
  note r7 = qr_end [OF qr_begin [OF r5 st(5)] room st(6)]
  obtain m d where "(m, d) \<in> set (qs_timers s7)" "qm_JobID m = ''job-1''" "qm_RetryCount m = 1" using s7(2) by (cases "qs_timers s7") auto
  then show ?thesis by (intro exI [of _ s7] exI conjI) (rule r7, simp_all)
qed

theorem queue_accounts_for_every_job_witness:
  "\<exists>s l m d. queue_run ex_qenv em_room ex_q0 s l \<and> QScheduled ''job-1'' \<in> set l \<and> (m, d) \<in> set (qs_timers s) \<and> qm_RetryCount m = 1
    \<and> qm_RetryCount m \<le> max_retries (qe_cfg ex_qenv) m"
proof -
  obtain s l m d where r: "queue_run ex_qenv em_room ex_q0 s l" "QScheduled ''job-1'' \<in> set l" "(m, d) \<in> set (qs_timers s)" "qm_RetryCount m = 1"
    using ex_queue_run by blast
  have "env_ok ex_qenv" "qe_ops ex_qenv = em_ops" by (code_simp, simp add: ex_qenv_def)
  from queue_accounts_for_every_job [OF this(2,1) em_ok_New ex_q_start r(1)] r show ?thesis by blast
qed

section \<open>The queue and the orchestrator\<close>

text \<open>The orchestrator as the queue manager is given it: it serves the dispatcher and the workers.\<close>

definition orch_worker :: "'q orch worker_orch" where
  "orch_worker = \<lparr>wo_MarkStarted = oc_MarkStarted, wo_MarkCompleted = oc_MarkCompleted, wo_MarkFailed = oc_MarkFailed\<rparr>"

lemma oc_MarkDispatched_exact:
  assumes "oc_MarkDispatched i w o1 = (o2, e)"
  shows "e = None \<longleftrightarrow> (\<exists>j. er_Get i (oc_reg o1) = Some j \<and> j_State j = StateQueued)"
    "e = None \<Longrightarrow> \<exists>j. er_Get i (oc_reg o2) = Some j \<and> j_State j = StateDispatched \<and> j_WorkerID j = w"
    "e \<noteq> None \<Longrightarrow> oc_reg o2 = oc_reg o1 \<and> oc_events o2 = oc_events o1 \<and> oc_store o2 = oc_store o1"
proof -
  have "job_CanTransition st StateDispatched \<longleftrightarrow> st = StateQueued" for st by (cases st) simp_all
  note d = this er_Transition_def oc_advance_def oc_MarkDispatched_def er_Get_def
  show "e = None \<longleftrightarrow> (\<exists>j. er_Get i (oc_reg o1) = Some j \<and> j_State j = StateQueued)"
    "e = None \<Longrightarrow> \<exists>j. er_Get i (oc_reg o2) = Some j \<and> j_State j = StateDispatched \<and> j_WorkerID j = w"
    using assms by (auto simp: d Let_def oc_persist_def oc_publishJob_def oc_publish_def split: option.splits if_splits)
  show "oc_reg o2 = oc_reg o1 \<and> oc_events o2 = oc_events o1 \<and> oc_store o2 = oc_store o1" if "e \<noteq> None"
    using that assms by (auto simp: d Let_def split: option.splits if_splits)
qed

text \<open>
  C40. A dispatch assigns a job to a worker in both registries or in neither. With the
  execution orchestrator behind it, the dispatcher accepts a message exactly when the worker is registered and
  idle and the job is queued in the orchestrator. It then leaves the worker reserved for the job and the
  message, and the job dispatched to the worker. Otherwise the jobs, the stored records and the events of
  the orchestrator are as before, nothing is published, and every worker has the state it had, with no current job
  if it had been idle. Other workers are never touched.
\<close>

theorem dispatch_exact:
  assumes "qe_dispatch env = Some oc_MarkDispatched" "Dispatch env now msg wid r o1 = (r', o2, e, evs)"
  shows "(e = None \<longleftrightarrow> (\<exists>w j. map_of r wid = Some w \<and> wk_State w = WorkerIdle
        \<and> er_Get (qm_JobID msg) (oc_reg o1) = Some j \<and> j_State j = StateQueued))
    \<and> (case e of
         None \<Rightarrow> (\<exists>w j. map_of r' wid = Some w \<and> wk_State w = WorkerReserved \<and> wk_CurrentJob w = qm_JobID msg \<and> wk_CurrentMsg w = qm_MessageID msg
           \<and> er_Get (qm_JobID msg) (oc_reg o2) = Some j \<and> j_State j = StateDispatched \<and> j_WorkerID j = wid)
       | Some _ \<Rightarrow> oc_reg o2 = oc_reg o1 \<and> oc_events o2 = oc_events o1 \<and> oc_store o2 = oc_store o1 \<and> evs = []
           \<and> map_option wk_State (map_of r' wid) = map_option wk_State (map_of r wid)
           \<and> (\<forall>w. map_of r wid = Some w \<longrightarrow> wk_State w = WorkerIdle \<longrightarrow> map_option wk_CurrentJob (map_of r' wid) = Some []))
    \<and> (\<forall>v. v \<noteq> wid \<longrightarrow> map_of r' v = map_of r v)"
proof (cases "\<exists>w. map_of r wid = Some w \<and> wk_State w = WorkerIdle")
  case False
  then have "r' = r" "o2 = o1" "e \<noteq> None" "evs = []" using assms(2)
    by (auto simp: Dispatch_def wreg_Get_def split: option.splits if_splits)
  then show ?thesis using False by auto
next
  case True
  then obtain w where w: "map_of r wid = Some w" "wk_State w = WorkerIdle" by blast
  obtain o3 x where m: "oc_MarkDispatched (qm_JobID msg) wid o1 = (o3, x)" by fastforce
  note oe = oc_MarkDispatched_exact [OF m]
  show ?thesis
  proof (cases x)
    case None
    then have "e = None" "o2 = o3" using assms w m
      by (auto simp: Dispatch_def wreg_Get_def wreg_UpdateState_def wreg_UpdateCurrentJob_def Let_def)
    moreover have "\<exists>w'. map_of r' wid = Some w' \<and> wk_State w' = WorkerReserved \<and> wk_CurrentJob w' = qm_JobID msg \<and> wk_CurrentMsg w' = qm_MessageID msg"
      "v \<noteq> wid \<Longrightarrow> map_of r' v = map_of r v" for v
      using assms w m None by (auto simp: Dispatch_def wreg_Get_def wreg_UpdateState_def wreg_UpdateCurrentJob_def Let_def)
    ultimately show ?thesis using oe None w by auto
  next
    case (Some err)
    then have "e = Some (DispatchOrchestrator err)" "o2 = o3" "evs = []" using assms w m
      by (auto simp: Dispatch_def wreg_Get_def wreg_UpdateState_def wreg_UpdateCurrentJob_def Let_def)
    moreover have "map_option wk_State (map_of r' wid) = Some WorkerIdle" "map_option wk_CurrentJob (map_of r' wid) = Some []"
      "v \<noteq> wid \<Longrightarrow> map_of r' v = map_of r v" for v
      using assms w m Some
      by (auto simp: Dispatch_def wreg_Get_def wreg_UpdateState_def wreg_UpdateCurrentJob_def Let_def dispatch_rollback_def)
    ultimately show ?thesis using oe Some w by auto
  qed
qed

definition ex_oenv :: "(msg_fields emulator, sched_memory orch) queue_env" where
  "ex_oenv = \<lparr>qe_cfg = qc_Default, qe_ops = em_ops, qe_dispatch = Some oc_MarkDispatched, qe_worker = Some orch_worker,
     qe_RFC3339 = (\<lambda>_. ''now''), qe_error_text = (\<lambda>_. ''err'')\<rparr>"

theorem dispatch_exact_witness:
  "\<exists>r' o2 evs w j. Dispatch ex_oenv (\<lambda>_. 0) (ex_msg\<lparr>qm_JobID := ''job-1''\<rparr>) ''w'' [(''w'', ex_silent)] ex_submitted = (r', o2, None, evs)
    \<and> map_of r' ''w'' = Some w \<and> wk_State w = WorkerReserved \<and> wk_CurrentJob w = ''job-1''
    \<and> er_Get ''job-1'' (oc_reg o2) = Some j \<and> j_State j = StateDispatched \<and> j_WorkerID j = ''w''"
proof -
  let ?m = "ex_msg\<lparr>qm_JobID := ''job-1''\<rparr>" and ?r = "[(''w'', ex_silent)]"
  obtain j where j: "er_Get ''job-1'' (oc_reg ex_submitted) = Some j" "j_State j = StateQueued" using ex_submitted_job by auto
  obtain r' o2 e evs where D: "Dispatch ex_oenv (\<lambda>_. 0) ?m ''w'' ?r ex_submitted = (r', o2, e, evs)" by (metis prod_cases4)
  have q: "qe_dispatch ex_oenv = Some oc_MarkDispatched" by (simp add: ex_oenv_def)
  note t = dispatch_exact [OF q D]
  have "map_of ?r ''w'' = Some ex_silent" "wk_State ex_silent = WorkerIdle" by (simp_all add: ex_silent_def)
  then have e: "e = None" using t j by simp
  show ?thesis using t D unfolding e by auto
qed

text \<open>
  A consequence for retries: when a handler fails, the worker marks the job failed before it schedules the
  retry. The message of the retry then meets a job that is not queued, is refused, and is dropped.
\<close>

lemma retried_message_refused:
  assumes "qe_dispatch env = Some oc_MarkDispatched" "oc_MarkFailed t (qm_JobID msg) reason o1 = (o2, None)"
  shows "fst (snd (snd (Dispatch env now msg wid r o2))) \<noteq> None"
proof -
  obtain r' o3 e evs where D: "Dispatch env now msg wid r o2 = (r', o3, e, evs)" by (metis prod_cases4)
  have "map_option j_State (er_Get (qm_JobID msg) (oc_reg o2)) = Some StateFailed" using assms(2)
    by (auto simp: oc_MarkFailed_def oc_advance_def er_Transition_def er_Get_def Let_def oc_persist_def oc_publishJob_def oc_publish_def
        split: option.splits if_splits)
  moreover have "e = None \<Longrightarrow> \<exists>j. er_Get (qm_JobID msg) (oc_reg o2) = Some j \<and> j_State j = StateQueued"
    using D assms(1) oc_MarkDispatched_exact(1) [of "qm_JobID msg" wid o2]
    by (auto simp: Dispatch_def split: sum.splits if_splits prod.splits option.splits)
  ultimately have "e \<noteq> None" by fastforce
  then show ?thesis using D by simp
qed

end
