(* ===== verification/Spec2Isabelle.thy ===== *)
theory Spec2Isabelle
  imports Room_Persistence Cache_Keyspace Coord_Locks Coord_Election Rel_CircuitBreaker Rel_RateLimit Rel_Retry Rel_Isolation Queue_System
begin

text \<open>
  A verification development for the Collaborative Programming Infrastructure Platform, the Go
  program under \<open>src/internal\<close>. Users meet in rooms, edit together, and run code; a request to run code
  becomes a job that an orchestrator validates and schedules, a queue of streams carries to a pool of
  workers, and a coordination layer keeps the processes of a cluster apart. The theories follow the
  packages of the program, one definition for each type and operation and with the names of the
  source; each opens with a text that says what it holds.

  \<^bold>\<open>How the program is represented.\<close> A struct is a record, an enumeration a datatype with a constructor for
  the values outside its constants where a method can meet them. A method that holds the mutex of its object
  is one function on the record, since no other goroutine sees its intermediate states. What several goroutines do
  to shared state is an inductive relation whose rules are the critical sections, or the stretches
  between two points where a goroutine waits, so that its theorems hold for every interleaving of
  these. Errors are values of a sum or an option; a panic of the source is a branch with its own value. Go maps are association lists without repeated
  keys (\<open>gomap\<close>), because the order of an iteration can matter and is then an argument. A time is the number of nanoseconds
  since Go's zero time, an integer; every reading of the clock, every random number and generated
  identifier is an argument of the definition that uses it. Counters and sums that can wrap are words, or
  are reduced with \<open>wrap64\<close>. \<open>float64\<close> is modelled by exact rationals, which idealises rounding; where a conversion
  leaves the range of an integer its result is an argument. Interfaces (a backend, a stream
  client, a scheduler, a repository) are records of operations over a state of any type, their
  contracts are locales, and each locale is interpreted on the implementation that the source has.

  \<^bold>\<open>Shared theories.\<close> \<open>CPIP_Prelude\<close> has times, maps and decimal printing; \<open>KV_Store\<close> the contract of a key-value
  repository and how much of the order of unordered writes it depends on; \<open>Set_Index\<close> the contract of a secondary
  index beside a primary map; \<open>Go_Sets\<close> the loops on string sets that both key-value stores have; \<open>Expiring_Store\<close> traces of
  commands on stores whose entries expire, with the locale \<open>store_refinement\<close> that lifts a refinement by single commands to traces.

  \<^bold>\<open>Rooms\<close> (\<open>rooms/...\<close>). \<open>Room_Lifecycle\<close> is the state machine and shows that closing is final (C1);
  \<open>Room_Permissions\<close> the roles and the policy, monotone in the role and closed for unknown actions;
  \<open>Room_Entity\<close> the room with its participants: well-formed in every reachable state (C2), and what
  joining, removing and transferring ownership do on every branch (C3 to C5); \<open>Room_Events\<close> the event bus with bounded
  channels, exact delivery and order per subscriber (C6, C7); \<open>Room_Manager\<close> the registry, the snapshot store and the manager's
  operations, with the invariant that ties them (C8); \<open>Room_Janitor\<close> the clean-up as a refinement of an abstract ageing rule,
  and that it collects an abandoned room (C9, C10); \<open>Room_Persistence\<close> the snapshot goroutines and when the
  repository mirrors the registry (C11).

  \<^bold>\<open>Redis emulator\<close> (\<open>cache/redis\<close>). \<open>Cache_Glob\<close> is the backtracking glob matcher, which decides the declarative meaning
  of a pattern (C12); \<open>Cache_Emulator\<close> the in-process Redis client: strings, hashes and sets with expiry, the
  compare-and-* commands, publish and subscribe; \<open>Cache_Keyspace\<close> its specification as a typed keyspace in which expired keys do
  not exist, and that every trace of data commands refines it (C13).

  \<^bold>\<open>Coordination\<close> (\<open>coordination/...\<close>). \<open>Coord_Keys\<close> is the key layout; \<open>Coord_Backend\<close> the backend interface, its contract
  (\<open>backend_contract\<close>) and its in-memory implementation; \<open>Coord_Redis\<close> the Redis adapter over the emulator. Both keep the contract and
  both refine a map whose entries expire, the Redis one on the commands on which the two agree (C14). \<open>Coord_Locks\<close> is the
  lock service: mutual exclusion among holders on both backends, termination of the acquiring loop, and release fenced by the token (C15 to C17);
  \<open>Coord_Election\<close> the lease-based election: at most one leader within a lease on both backends, and the effect of a tick
  (C18, C19). The clients are verified against the backend contract, so they hold for any backend that keeps it.

  \<^bold>\<open>Reliability\<close> (\<open>reliability/...\<close>). \<open>Rel_CircuitBreaker\<close>: when the breaker trips and how it recovers (C20, C21);
  \<open>Rel_RateLimit\<close>: the burst bound of the token bucket, the leaky bucket as its mirror image, the bound of the sliding
  window (C22 to C24); \<open>Rel_Retry\<close>: the backoff strategies and the retry loop (C25, C26); \<open>Rel_Isolation\<close>: bulkheads,
  backpressure (C27, C28) and the ordered shutdown.

  \<^bold>\<open>Execution\<close> (\<open>execution/...\<close>). \<open>Exec_Job\<close> is the job and its state graph, in which an attempt is
  bounded (C29); \<open>Exec_Registry\<close> the registry whose five indexes answer exactly (C30); \<open>Exec_Scheduler\<close> the in-memory scheduler
  as a priority queue (C31); \<open>Exec_Validation\<close> configuration, languages and the validation pipeline (C32);
  \<open>Exec_Orchestrator\<close> the orchestrator over any scheduler: its invariant, submission, retry and the archive sweep (C33 to C36).

  \<^bold>\<open>Queue\<close> (\<open>queue/...\<close>). \<open>Stream_Client\<close> is the command surface of the streams with its contract, and \<open>Queue_Stream\<close> the
  in-memory emulator that keeps it: a consumer group is given every entry exactly once and in order, and keeps it pending until it is
  acknowledged (C37). \<open>Queue_Message\<close> is the message and its wire form, which can be read back (C38); \<open>Queue_Workers\<close> worker
  lifecycle, worker registry, heartbeat monitor and configuration; \<open>Queue_Delivery\<close> producer, dead-letter queue and
  retry manager; \<open>Queue_Pool\<close> dispatcher, worker pool, consumer and manager as steps on one shared state; \<open>Queue_System\<close> the
  runs of these steps. There it is shown that a scheduled job is always deliverable, waiting,
  dead-lettered, completed, or given up for a recorded reason (C39), and that a dispatch assigns a job in the worker
  registry and in the orchestrator together or in neither (C40). The second composes the queue with the
  orchestrator of \<open>Exec_Orchestrator\<close>.

  \<^bold>\<open>Bounds.\<close> Loops of the source that may run on take their clock readings as a list or function: the blocking
  read of the emulator returns for every clock that reaches its deadline (\<open>em_ReadGroup_returns\<close>), the acquiring loop of the locks
  terminates (C16), and the search of a replay is \<open>None\<close> while the readings run out, so that a run contains only
  replays that ended. The contract of the stream client asks for \<open>room\<close>, a sequence number below \<open>2^63 - 1\<close>, before an entry is
  written: the emulator parses its identifiers as signed numbers, and beyond that bound their order would be lost.

  \<^bold>\<open>Not modelled.\<close> The real Redis, PostgreSQL and object-store adapters (\<open>queue/redisstream/redis.go\<close>, \<open>cache/redis/real.go\<close>,
  \<open>persistence\<close>, \<open>storage\<close>) forward to third-party clients; where the modelled code uses them they are
  parameters with a contract, and the Redis coordination backend is modelled over the emulator client. The goroutine that copies
  the messages of a Redis subscription to the coordination layer is left out. A command of a key-value store takes one instant: the
  source reads its clock once for the liveness check and once for the new expiry, under the same mutex. The HTTP and WebSocket fronts, the sandboxes, language tool chains and
  runtimes, and deployment act through the operating system and third-party packages. The collaborative document
  lives in a third-party engine, so \<open>collaboration\<close> has little state of its own to model. Logging, metrics
  and tracing are left out of the modelled operations. Presence, the caches, sessions and replication above the emulator, object metadata and the further
  coordination services (membership, replication) are plain Go and could be treated like the rooms and the job registry; they
  are outside this development. Within the queue, the stop of the manager appears as the steps it
  leads to (workers leave, waits abort) and not as a sequence of its own, and the event bus of the queue as the list of
  events published, of which the listener may read any at any time.
\<close>

end
